(* ===== verification/Ogre_Prelude.thy ===== *)
theory Ogre_Prelude
  imports Main "HOL-Library.Word"
begin

text \<open>
  Shared vocabulary of the development: the machine types the Go sources use, Go's fixed-width
  arithmetic, big-endian integer encoding (\<^verbatim>\<open>encoding/binary\<close>), results of fallible operations
  as sums, one-shot channels, and the list lemmas the components share.

  The collections \<open>go_consts\<close> (named constants of the source), \<open>go_ops\<close> (one-step operations that
  proofs unfold) and \<open>inv_defs\<close> (invariants) let component proofs name a whole group of facts.
\<close>

named_theorems go_consts "named constants of the source"
named_theorems go_ops "operations unfolded by the component proofs"
named_theorems inv_defs "invariants of the components"

unbundle bit_operations_syntax

section \<open>Machine types\<close>

type_synonym byte = "8 word"
type_synonym bytes = "8 word list"
type_synonym u16 = "16 word"
type_synonym u32 = "32 word"
type_synonym u64 = "64 word"

text \<open>
  A Go \<^verbatim>\<open>int\<close> or \<^verbatim>\<open>int64\<close> that can be pushed to its limits is an \<^typ>\<open>int\<close> kept in range by
  \<open>wrap64\<close>, two's complement wrap-around at 64 bits.
\<close>

definition wrap64 :: "int \<Rightarrow> int" where
  "wrap64 x = signed_take_bit 63 x"

definition max_int64 :: int where
  [go_consts]: "max_int64 = 2 ^ 63 - 1"

definition i64 :: "int \<Rightarrow> bool" where
  "i64 x \<longleftrightarrow> - (2 ^ 63) \<le> x \<and> x < 2 ^ 63"

definition add64 :: "int \<Rightarrow> int \<Rightarrow> int" where
  "add64 a b = wrap64 (a + b)"

definition sub64 :: "int \<Rightarrow> int \<Rightarrow> int" where
  "sub64 a b = wrap64 (a - b)"

lemma wrap64_id [simp]: "i64 x \<Longrightarrow> wrap64 x = x"
  by (simp add: wrap64_def i64_def signed_take_bit_int_eq_self)

lemma i64_wrap64 [simp]: "i64 (wrap64 x)"
  using signed_take_bit_int_greater_eq_minus_exp [of 63 x] signed_take_bit_int_less_exp [of 63 x]
  by (simp add: wrap64_def i64_def)

lemma add64_exact: "i64 (a + b) \<Longrightarrow> add64 a b = a + b"
  by (simp add: add64_def)

lemma sub64_exact: "i64 (a - b) \<Longrightarrow> sub64 a b = a - b"
  by (simp add: sub64_def)

section \<open>Results\<close>

text \<open>A fallible Go function \<open>(T, error)\<close> is a sum: \<open>Inl\<close> the error, \<open>Inr\<close> the value.\<close>

definition rbind :: "'e + 'a \<Rightarrow> ('a \<Rightarrow> 'e + 'b) \<Rightarrow> 'e + 'b" where
  "rbind r f = (case r of Inl e \<Rightarrow> Inl e | Inr x \<Rightarrow> f x)"

lemma rbind_simps [simp]:
  "rbind (Inl e) f = Inl e"
  "rbind (Inr x) f = f x"
  by (simp_all add: rbind_def)

lemma rbind_Inr_iff: "rbind r f = Inr y \<longleftrightarrow> (\<exists>x. r = Inr x \<and> f x = Inr y)"
  by (cases r) auto

section \<open>Big-endian integers\<close>

text \<open>\<^verbatim>\<open>binary.BigEndian\<close> of Go's standard library, on slices of the exact length.\<close>

definition put16 :: "u16 \<Rightarrow> bytes" where
  "put16 v = [ucast (drop_bit 8 v), ucast v]"

definition get16 :: "byte \<Rightarrow> byte \<Rightarrow> u16" where
  "get16 a b = push_bit 8 (ucast a) OR ucast b"

definition put32 :: "u32 \<Rightarrow> bytes" where
  "put32 v = [ucast (drop_bit 24 v), ucast (drop_bit 16 v), ucast (drop_bit 8 v), ucast v]"

definition get32 :: "byte \<Rightarrow> byte \<Rightarrow> byte \<Rightarrow> byte \<Rightarrow> u32" where
  "get32 a b c d =
     push_bit 24 (ucast a) OR push_bit 16 (ucast b) OR push_bit 8 (ucast c) OR ucast d"

lemma length_put16 [simp]: "length (put16 v) = 2"
  by (simp add: put16_def)

lemma length_put32 [simp]: "length (put32 v) = 4"
  by (simp add: put32_def)

lemma bit_byte_ge [simp]: "8 \<le> n \<Longrightarrow> \<not> bit (b :: byte) n"
  using bit_imp_le_length [of b n] by auto

lemma get16_put16 [simp]: "get16 (ucast (drop_bit 8 v)) (ucast v) = v"
  unfolding get16_def
  by (rule bit_word_eqI) (auto simp: bit_simps)

lemma get32_put32 [simp]:
  "get32 (ucast (drop_bit 24 v)) (ucast (drop_bit 16 v)) (ucast (drop_bit 8 v)) (ucast v) = v"
  unfolding get32_def
proof (rule bit_word_eqI)
  fix n
  assume "n < LENGTH(32)"
  then consider "n < 8" | "8 \<le> n" "n < 16" | "16 \<le> n" "n < 24" | "24 \<le> n" "n < 32"
    by fastforce
  then show "bit (push_bit 24 (ucast (ucast (drop_bit 24 v) :: byte) :: u32) OR
      push_bit 16 (ucast (ucast (drop_bit 16 v) :: byte)) OR
      push_bit 8 (ucast (ucast (drop_bit 8 v) :: byte)) OR ucast (ucast v :: byte)) n = bit v n"
    by cases (auto simp: bit_simps)
qed

lemma put16_get16 [simp]: "put16 (get16 a b) = [a, b]"
  unfolding put16_def get16_def
  by (auto intro!: bit_word_eqI simp: bit_simps)

lemma put32_get32 [simp]: "put32 (get32 a b c d) = [a, b, c, d]"
  unfolding put32_def get32_def
  by (auto intro!: bit_word_eqI simp: bit_simps)

section \<open>Lists\<close>

lemma length_Suc_obtain:
  assumes "Suc n \<le> length xs"
  obtains y ys where "xs = y # ys" and "n \<le> length ys"
  using assms by (cases xs) auto

lemma unat_of_nat_byte [simp]: "k < 256 \<Longrightarrow> unat (of_nat k :: byte) = k"
  by (simp add: unat_of_nat take_bit_nat_eq_self)

lemma unat_numeral_add_byte [simp]:
  "numeral c + k < 256 \<Longrightarrow> unat (numeral c + of_nat k :: byte) = numeral c + k"
  using unat_of_nat_byte [of "numeral c + k"] by simp

lemma unat_byte_less [simp]: "unat (b :: byte) < 256"
  using unsigned_less [of b] by simp

section \<open>Step systems\<close>

text \<open>
  The states a concurrent component reaches, one atomic section (a critical section, a compare and
  swap, a channel operation) at a time.
\<close>

inductive reachable :: "('s \<Rightarrow> bool) \<Rightarrow> ('s \<Rightarrow> 's \<Rightarrow> bool) \<Rightarrow> 's \<Rightarrow> bool"
  for init :: "'s \<Rightarrow> bool" and step :: "'s \<Rightarrow> 's \<Rightarrow> bool"
where
  reach_init: "init s \<Longrightarrow> reachable init step s"
| reach_step: "reachable init step s \<Longrightarrow> step s t \<Longrightarrow> reachable init step t"

lemma reach_to: "reachable i st s \<Longrightarrow> st s t' \<Longrightarrow> t = t' \<Longrightarrow> reachable i st t"
  by (auto intro: reach_step)

text \<open>An inductive invariant of a step system.\<close>

locale invariant_system =
  fixes init :: "'s \<Rightarrow> bool" and step :: "'s \<Rightarrow> 's \<Rightarrow> bool" and inv :: "'s \<Rightarrow> bool"
  assumes inv_init: "init s \<Longrightarrow> inv s"
    and inv_step: "inv s \<Longrightarrow> step s t \<Longrightarrow> inv t"
begin

lemma reachable_inv: "reachable init step s \<Longrightarrow> inv s"
  by (induction rule: reachable.induct) (auto intro: inv_init inv_step)

end

section \<open>Sums over lists of threads\<close>

lemma sum_list_map_update:
  "i < length xs \<Longrightarrow>
     sum_list (map f (xs[i := x])) = sum_list (map f xs) - f (xs ! i) + (f x :: int)"
  by (induction xs arbitrary: i) (auto split: nat.split)

lemma sum_list_map_ge:
  "i < length xs \<Longrightarrow> (\<And>x. x \<in> set xs \<Longrightarrow> 0 \<le> f x) \<Longrightarrow> (f (xs ! i) :: int) \<le> sum_list (map f xs)"
proof (induction xs arbitrary: i)
  case (Cons a xs)
  have "0 \<le> f a" "0 \<le> sum_list (map f xs)" using Cons.prems(2) by (auto intro!: sum_list_nonneg)
  with Cons show ?case by (cases i) (auto intro: add_increasing)
qed simp

lemma sum_list_map_zero: "(\<And>x. x \<in> set xs \<Longrightarrow> f x = 0) \<Longrightarrow> sum_list (map f xs) = (0 :: int)"
  by (induction xs) auto

end
