(* ===== verification/Go_Errors.thy ===== *)
theory Go_Errors
  imports Ogre_Prelude
begin

text \<open>
  Go error values and the transport error model (\<^verbatim>\<open>transport/errors.go\<close>,
  \<^verbatim>\<open>transport/error_model.go\<close>, \<^verbatim>\<open>transport/error_classify.go\<close> and its Unix and Windows files,
  the error types of \<^verbatim>\<open>transport/timeouts.go\<close> and \<^verbatim>\<open>transport/limits.go\<close>).

  An error is a tree: a node is a sentinel (compared by identity), a formatted or joined error, one
  of the package's own error structs, or an error of a foreign type. \<open>chain\<close> lists the nodes in
  the order in which \<^verbatim>\<open>errors.Is\<close> and \<^verbatim>\<open>errors.As\<close> visit them, so both are searches of that list.
  The WebSocket library's \<^verbatim>\<open>CloseStatus\<close> and the build's platform file are parameters.
\<close>

section \<open>Sentinels and error trees\<close>

datatype errno = ECONNREFUSED | ECONNRESET | EPIPE | ENOTCONN | EAGAIN | ETIMEDOUT | ErrnoOther int

datatype api_sentinel =  \<comment> \<open>message.go, endpoint.go\<close>
  SInvalidPayloadType | SInvalidUTF8 | SInvalidEndpoint | SUnsupportedScheme | SMissingHost
  | SMissingPort | SUnexpectedPath | SUnexpectedQuery

datatype wire_sentinel =  \<comment> \<open>wire/errors.go, secure/aesgcm.go\<close>
  SNeedMore | SBadMagic | SUnsupportedVersion | SUnsupportedFlags | SFrameTooLarge
  | SMissingCipher | SAlgorithmMismatch | STrailingData | SCiphertextTooShort

datatype config_sentinel =  \<comment> \<open>transport/errors.go, limits.go: configuration\<close>
  SNilContext | SNilFramer | SNilCipherFactory | SNilCipher | SConflictingCodecOptions
  | SFramerNotSupported | SInvalidQueueSize | SInvalidBuffer | SInvalidQueuedBytes
  | SInvalidMessageSize | SInvalidDatagramSize | SInvalidObserverBuffer | SProtocolMismatch

datatype config2_sentinel =  \<comment> \<open>transport/errors.go, limits.go: configuration, continued\<close>
  SNotConnected | SPeerRequired | SPeerMismatch | STLSConfigRequired | STLSVersion
  | STLSCertificateRequired | SInvalidTimeout | SInvalidWebSocketConfig | SInvalidLimits

datatype runtime_sentinel =  \<comment> \<open>transport/errors.go, limits.go, timeouts.go: operation\<close>
  SClosed | SWouldBlock | SFrameExceedsQueueBudget | SInvalidFramer | SReadBufferFull
  | SMessageTooLarge | SDatagramTooLarge | SPeerClosed | SConnectionRefused
  | SConnectionReset | SDNS | STLS | SProtocolViolation | SResourceExhausted | STimeout

datatype std_sentinel =  \<comment> \<open>the standard library\<close>
  SEOF | SNoProgress | SNetErrClosed | SContextCanceled | SContextDeadlineExceeded
  | SOsErrDeadlineExceeded

datatype sentinel =
    Api api_sentinel
  | Wire wire_sentinel
  | Config config_sentinel
  | Config2 config2_sentinel
  | Runtime runtime_sentinel
  | Std std_sentinel
  | Errno errno

text \<open>The sentinels under the names the sources give them.\<close>

abbreviation ErrInvalidPayloadType :: sentinel where "ErrInvalidPayloadType \<equiv> Api SInvalidPayloadType"
abbreviation ErrInvalidUTF8 :: sentinel where "ErrInvalidUTF8 \<equiv> Api SInvalidUTF8"
abbreviation ErrInvalidEndpoint :: sentinel where "ErrInvalidEndpoint \<equiv> Api SInvalidEndpoint"
abbreviation ErrUnsupportedScheme :: sentinel where "ErrUnsupportedScheme \<equiv> Api SUnsupportedScheme"
abbreviation ErrMissingHost :: sentinel where "ErrMissingHost \<equiv> Api SMissingHost"
abbreviation ErrMissingPort :: sentinel where "ErrMissingPort \<equiv> Api SMissingPort"
abbreviation ErrUnexpectedPath :: sentinel where "ErrUnexpectedPath \<equiv> Api SUnexpectedPath"
abbreviation ErrUnexpectedQuery :: sentinel where "ErrUnexpectedQuery \<equiv> Api SUnexpectedQuery"

abbreviation ErrNeedMore :: sentinel where "ErrNeedMore \<equiv> Wire SNeedMore"
abbreviation ErrBadMagic :: sentinel where "ErrBadMagic \<equiv> Wire SBadMagic"
abbreviation ErrUnsupportedVersion :: sentinel where "ErrUnsupportedVersion \<equiv> Wire SUnsupportedVersion"
abbreviation ErrUnsupportedFlags :: sentinel where "ErrUnsupportedFlags \<equiv> Wire SUnsupportedFlags"
abbreviation ErrFrameTooLarge :: sentinel where "ErrFrameTooLarge \<equiv> Wire SFrameTooLarge"
abbreviation ErrMissingCipher :: sentinel where "ErrMissingCipher \<equiv> Wire SMissingCipher"
abbreviation ErrAlgorithmMismatch :: sentinel where "ErrAlgorithmMismatch \<equiv> Wire SAlgorithmMismatch"
abbreviation ErrTrailingData :: sentinel where "ErrTrailingData \<equiv> Wire STrailingData"
abbreviation ErrCiphertextTooShort :: sentinel where "ErrCiphertextTooShort \<equiv> Wire SCiphertextTooShort"

abbreviation ErrNilContext :: sentinel where "ErrNilContext \<equiv> Config SNilContext"
abbreviation ErrNilFramer :: sentinel where "ErrNilFramer \<equiv> Config SNilFramer"
abbreviation ErrNilCipherFactory :: sentinel where "ErrNilCipherFactory \<equiv> Config SNilCipherFactory"
abbreviation ErrNilCipher :: sentinel where "ErrNilCipher \<equiv> Config SNilCipher"
abbreviation ErrConflictingCodecOptions :: sentinel where "ErrConflictingCodecOptions \<equiv> Config SConflictingCodecOptions"
abbreviation ErrFramerNotSupported :: sentinel where "ErrFramerNotSupported \<equiv> Config SFramerNotSupported"
abbreviation ErrInvalidQueueSize :: sentinel where "ErrInvalidQueueSize \<equiv> Config SInvalidQueueSize"
abbreviation ErrInvalidBuffer :: sentinel where "ErrInvalidBuffer \<equiv> Config SInvalidBuffer"
abbreviation ErrInvalidQueuedBytes :: sentinel where "ErrInvalidQueuedBytes \<equiv> Config SInvalidQueuedBytes"
abbreviation ErrInvalidMessageSize :: sentinel where "ErrInvalidMessageSize \<equiv> Config SInvalidMessageSize"
abbreviation ErrInvalidDatagramSize :: sentinel where "ErrInvalidDatagramSize \<equiv> Config SInvalidDatagramSize"
abbreviation ErrInvalidObserverBuffer :: sentinel where "ErrInvalidObserverBuffer \<equiv> Config SInvalidObserverBuffer"
abbreviation ErrProtocolMismatch :: sentinel where "ErrProtocolMismatch \<equiv> Config SProtocolMismatch"

abbreviation ErrNotConnected :: sentinel where "ErrNotConnected \<equiv> Config2 SNotConnected"
abbreviation ErrPeerRequired :: sentinel where "ErrPeerRequired \<equiv> Config2 SPeerRequired"
abbreviation ErrPeerMismatch :: sentinel where "ErrPeerMismatch \<equiv> Config2 SPeerMismatch"
abbreviation ErrTLSConfigRequired :: sentinel where "ErrTLSConfigRequired \<equiv> Config2 STLSConfigRequired"
abbreviation ErrTLSVersion :: sentinel where "ErrTLSVersion \<equiv> Config2 STLSVersion"
abbreviation ErrTLSCertificateRequired :: sentinel where "ErrTLSCertificateRequired \<equiv> Config2 STLSCertificateRequired"
abbreviation ErrInvalidTimeout :: sentinel where "ErrInvalidTimeout \<equiv> Config2 SInvalidTimeout"
abbreviation ErrInvalidWebSocketConfig :: sentinel where "ErrInvalidWebSocketConfig \<equiv> Config2 SInvalidWebSocketConfig"
abbreviation ErrInvalidLimits :: sentinel where "ErrInvalidLimits \<equiv> Config2 SInvalidLimits"

abbreviation ErrClosed :: sentinel where "ErrClosed \<equiv> Runtime SClosed"
abbreviation ErrWouldBlock :: sentinel where "ErrWouldBlock \<equiv> Runtime SWouldBlock"
abbreviation ErrFrameExceedsQueueBudget :: sentinel where "ErrFrameExceedsQueueBudget \<equiv> Runtime SFrameExceedsQueueBudget"
abbreviation ErrInvalidFramer :: sentinel where "ErrInvalidFramer \<equiv> Runtime SInvalidFramer"
abbreviation ErrReadBufferFull :: sentinel where "ErrReadBufferFull \<equiv> Runtime SReadBufferFull"
abbreviation ErrMessageTooLarge :: sentinel where "ErrMessageTooLarge \<equiv> Runtime SMessageTooLarge"
abbreviation ErrDatagramTooLarge :: sentinel where "ErrDatagramTooLarge \<equiv> Runtime SDatagramTooLarge"
abbreviation ErrPeerClosed :: sentinel where "ErrPeerClosed \<equiv> Runtime SPeerClosed"
abbreviation ErrConnectionRefused :: sentinel where "ErrConnectionRefused \<equiv> Runtime SConnectionRefused"
abbreviation ErrConnectionReset :: sentinel where "ErrConnectionReset \<equiv> Runtime SConnectionReset"
abbreviation ErrDNS :: sentinel where "ErrDNS \<equiv> Runtime SDNS"
abbreviation ErrTLS :: sentinel where "ErrTLS \<equiv> Runtime STLS"
abbreviation ErrProtocolViolation :: sentinel where "ErrProtocolViolation \<equiv> Runtime SProtocolViolation"
abbreviation ErrResourceExhausted :: sentinel where "ErrResourceExhausted \<equiv> Runtime SResourceExhausted"
abbreviation ErrTimeout :: sentinel where "ErrTimeout \<equiv> Runtime STimeout"

abbreviation EOF :: sentinel where "EOF \<equiv> Std SEOF"
abbreviation ErrNoProgress :: sentinel where "ErrNoProgress \<equiv> Std SNoProgress"
abbreviation NetErrClosed :: sentinel where "NetErrClosed \<equiv> Std SNetErrClosed"
abbreviation ContextCanceled :: sentinel where "ContextCanceled \<equiv> Std SContextCanceled"
abbreviation ContextDeadlineExceeded :: sentinel where "ContextDeadlineExceeded \<equiv> Std SContextDeadlineExceeded"
abbreviation OsErrDeadlineExceeded :: sentinel where "OsErrDeadlineExceeded \<equiv> Std SOsErrDeadlineExceeded"

type_synonym Scheme = "8 word"

datatype TimeoutKind = TimeoutConnect | TimeoutHandshake | TimeoutWrite | TimeoutReadIdle
  | TimeoutConnectionIdle | TimeoutMaxLifetime | TimeoutClose

datatype LimitKind = LimitConnections | LimitConnectionsPerPeer | LimitConnectionsPerListener
  | LimitHandshakes | LimitUpgrades | LimitQueuedBytes

datatype Op = OpDial | OpListen | OpAccept | OpHandshake | OpUpgrade | OpRead | OpWrite | OpSend
  | OpReceive | OpClose | OpShutdown

datatype ErrorKind = ErrorUnknown | ErrorClosed | ErrorPeerClosed | ErrorTimeout | ErrorRefused
  | ErrorReset | ErrorDNS | ErrorTLS | ErrorProtocol | ErrorResourceExhausted | ErrorBackpressure
  | ErrorTooLarge

text \<open>
  A \<^verbatim>\<open>net.Addr\<close> interface value: \<open>None\<close> of the enclosing option is the nil interface, and a
  pointer case carries \<open>None\<close> for a typed nil pointer.
\<close>

record ip_addr =
  addrIP :: bytes
  addrPort :: nat
  addrZone :: string

datatype net_addr =
    TCPAddr "ip_addr option"
  | UDPAddr "ip_addr option"
  | staticAddr string string
  | staticAddrPtr "(string \<times> string) option"
  | OtherAddr string

text \<open>
  The types of foreign errors that the sources look for with \<^verbatim>\<open>errors.As\<close>.
\<close>

datatype foreign_kind = DNSError | CertificateVerificationError | UnknownAuthorityError
  | HostnameError | CertificateInvalidError | ForeignError string

datatype gerr =
    Sentinel sentinel
  | ErrorString string
  | FmtErrorf string gerr
  | ErrorsJoin "gerr list"
  | TimeoutErr TimeoutKind "gerr option"
  | LimitErr LimitKind int
  | OpErr Op Scheme ErrorKind "net_addr option" "net_addr option" "gerr option"
  | CategorizedCause sentinel gerr
  | Foreign foreign_kind "bool option" "gerr list"

text \<open>
  \<open>Foreign k t es\<close>: \<open>t\<close> is \<open>None\<close> when the type does not implement \<^verbatim>\<open>net.Error\<close> and otherwise the
  answer of its \<^verbatim>\<open>Timeout()\<close>; \<open>es\<close> are the errors it unwraps to.
\<close>

fun chain :: "gerr \<Rightarrow> gerr list" where
  "chain (Sentinel s) = [Sentinel s]"
| "chain (ErrorString m) = [ErrorString m]"
| "chain (FmtErrorf m e) = FmtErrorf m e # chain e"
| "chain (ErrorsJoin es) = ErrorsJoin es # concat (map chain es)"
| "chain (TimeoutErr k c) =
     TimeoutErr k c # (case c of None \<Rightarrow> [] | Some e \<Rightarrow> chain e)"
| "chain (LimitErr k l) = [LimitErr k l, Sentinel ErrResourceExhausted]"
| "chain (OpErr op p k l r c) =
     OpErr op p k l r c # (case c of None \<Rightarrow> [] | Some e \<Rightarrow> chain e)"
| "chain (CategorizedCause s c) = CategorizedCause s c # chain c"
| "chain (Foreign k t es) = Foreign k t es # concat (map chain es)"

text \<open>Identity with the target, or the node's own \<^verbatim>\<open>Is\<close> method.\<close>

fun node_is :: "gerr \<Rightarrow> sentinel \<Rightarrow> bool" where
  "node_is (Sentinel s) t = (s = t)"
| "node_is (TimeoutErr k c) t = (t = ErrTimeout)"
| "node_is (CategorizedCause s c) t = (t = s)"
| "node_is _ t = False"

definition errors_is :: "gerr \<Rightarrow> sentinel \<Rightarrow> bool" where
  "errors_is e t = list_ex (\<lambda>n. node_is n t) (chain e)"

text \<open>\<^verbatim>\<open>errors.As\<close> for a type (a predicate on nodes): the first node of that type.\<close>

definition errors_as :: "(gerr \<Rightarrow> bool) \<Rightarrow> gerr \<Rightarrow> gerr option" where
  "errors_as P e = find P (chain e)"

fun is_Error :: "gerr \<Rightarrow> bool" where
  "is_Error (OpErr _ _ _ _ _ _) = True"
| "is_Error _ = False"

fun is_TimeoutError :: "gerr \<Rightarrow> bool" where
  "is_TimeoutError (TimeoutErr _ _) = True"
| "is_TimeoutError _ = False"

fun is_LimitError :: "gerr \<Rightarrow> bool" where
  "is_LimitError (LimitErr _ _) = True"
| "is_LimitError _ = False"

fun is_foreign :: "foreign_kind \<Rightarrow> gerr \<Rightarrow> bool" where
  "is_foreign k (Foreign k' _ _) = (k = k')"
| "is_foreign _ _ = False"

text \<open>
  Which nodes implement \<^verbatim>\<open>net.Error\<close>, with the answer of \<^verbatim>\<open>Timeout()\<close>: the package's own timeout
  error, the context and poller deadline errors, \<^verbatim>\<open>net.ErrClosed\<close>, errno values, and the foreign
  types that say so.
\<close>

fun sentinel_net_error :: "sentinel \<Rightarrow> bool option" where
  "sentinel_net_error (Std SContextDeadlineExceeded) = Some True"
| "sentinel_net_error (Std SOsErrDeadlineExceeded) = Some True"
| "sentinel_net_error (Std SNetErrClosed) = Some False"
| "sentinel_net_error (Errno n) = Some (n = EAGAIN \<or> n = ETIMEDOUT)"
| "sentinel_net_error _ = None"

fun net_error :: "gerr \<Rightarrow> bool option" where
  "net_error (TimeoutErr _ _) = Some True"
| "net_error (Sentinel s) = sentinel_net_error s"
| "net_error (Foreign _ t _) = t"
| "net_error _ = None"

definition isTimeoutFailure :: "gerr \<Rightarrow> bool" where
  "isTimeoutFailure e =
     (case errors_as (\<lambda>n. net_error n \<noteq> None) e of
        None \<Rightarrow> False
      | Some n \<Rightarrow> net_error n = Some True)"

end
