(* ===== verification/Error_Model.thy ===== *)
theory Error_Model
  imports Go_Errors
begin

text \<open>
  The operational error model of the transport: the \<^verbatim>\<open>Error\<close> envelope and its constructor
  functions (\<^verbatim>\<open>transport/error_model.go\<close>), the classification of causes
  (\<^verbatim>\<open>transport/error_classify.go\<close>, with the Unix and the Windows platform files), and what the
  published contract of \<^verbatim>\<open>docs/runtime-errors.md\<close> says of the result: the envelope is added once,
  the cause stays reachable, and the kind comes with its sentinel.
\<close>

section \<open>Envelopes\<close>

definition categorized :: "sentinel \<Rightarrow> gerr option \<Rightarrow> gerr" where
  "categorized category cause =
     (case cause of
        None \<Rightarrow> Sentinel category
      | Some c \<Rightarrow> if errors_is c category then c else CategorizedCause category c)"

definition snapshotAddr :: "net_addr option \<Rightarrow> net_addr option" where
  "snapshotAddr addr =
     (case addr of
        None \<Rightarrow> None
      | Some (TCPAddr None) \<Rightarrow> None
      | Some (TCPAddr (Some a)) \<Rightarrow> Some (TCPAddr (Some a))
      | Some (UDPAddr None) \<Rightarrow> None
      | Some (UDPAddr (Some a)) \<Rightarrow> Some (UDPAddr (Some a))
      | Some (staticAddr n v) \<Rightarrow> Some (staticAddr n v)
      | Some (staticAddrPtr None) \<Rightarrow> None
      | Some (staticAddrPtr (Some a)) \<Rightarrow> Some (staticAddrPtr (Some a))
      | Some (OtherAddr s) \<Rightarrow> Some (OtherAddr s))"

definition envelopeOperational ::
  "Op \<Rightarrow> Scheme \<Rightarrow> net_addr option \<Rightarrow> net_addr option \<Rightarrow> ErrorKind \<Rightarrow> gerr option \<Rightarrow> gerr option"
where
  "envelopeOperational op protocol local remote kind cause =
     (case cause of
        None \<Rightarrow> None
      | Some c \<Rightarrow>
          if errors_as is_Error c \<noteq> None then Some c
          else Some (OpErr op protocol kind (snapshotAddr local) (snapshotAddr remote) (Some c)))"

section \<open>Classification\<close>

datatype classifyHint = hintNone | hintTLSHandshake | hintWSUpgrade | hintWireDecode
  | hintMessageDecode

definition isTLSCause :: "gerr \<Rightarrow> bool" where
  "isTLSCause err \<longleftrightarrow>
     errors_as (is_foreign CertificateVerificationError) err \<noteq> None
     \<or> errors_as (is_foreign UnknownAuthorityError) err \<noteq> None
     \<or> errors_as (is_foreign HostnameError) err \<noteq> None
     \<or> errors_as (is_foreign CertificateInvalidError) err \<noteq> None"

text \<open>The close codes of RFC 6455 that the sources name.\<close>

definition classifyWSStatus :: "int \<Rightarrow> (ErrorKind \<times> sentinel option) option" where
  "classifyWSStatus status =
     (if status = 1000 \<or> status = 1001 then None
      else if status = 1002 \<or> status = 1003 \<or> status = 1007 \<or> status = 1008
        then Some (ErrorProtocol, Some ErrProtocolViolation)
      else if status = 1009 then Some (ErrorTooLarge, Some ErrMessageTooLarge)
      else if status = 1011 then Some (ErrorUnknown, None)
      else None)"

fun establishedIOOp :: "Op \<Rightarrow> bool" where
  "establishedIOOp OpRead = True"
| "establishedIOOp OpWrite = True"
| "establishedIOOp OpSend = True"
| "establishedIOOp OpReceive = True"
| "establishedIOOp OpClose = True"
| "establishedIOOp _ = False"

definition classifyPlatformCause_unix :: "Op \<Rightarrow> gerr \<Rightarrow> (ErrorKind \<times> sentinel) option" where
  "classifyPlatformCause_unix op err =
     (if errors_is err (Errno ECONNREFUSED) then Some (ErrorRefused, ErrConnectionRefused)
      else if errors_is err (Errno ECONNRESET) then Some (ErrorReset, ErrConnectionReset)
      else if errors_is err (Errno EPIPE) then Some (ErrorPeerClosed, ErrPeerClosed)
      else if errors_is err (Errno ENOTCONN) \<and> establishedIOOp op
        then Some (ErrorPeerClosed, ErrPeerClosed)
      else None)"

definition classifyPlatformCause_windows :: "Op \<Rightarrow> gerr \<Rightarrow> (ErrorKind \<times> sentinel) option" where
  "classifyPlatformCause_windows op err =
     (if errors_is err (Errno (ErrnoOther 10061)) then Some (ErrorRefused, ErrConnectionRefused)
      else if errors_is err (Errno (ErrnoOther 10054)) \<or> errors_is err (Errno (ErrnoOther 10053))
        then Some (ErrorReset, ErrConnectionReset)
      else if errors_is err (Errno (ErrnoOther 10058)) then Some (ErrorPeerClosed, ErrPeerClosed)
      else if errors_is err (Errno (ErrnoOther 10057)) \<and> establishedIOOp op
        then Some (ErrorPeerClosed, ErrPeerClosed)
      else None)"

text \<open>
  The kind and the (possibly categorized) cause that the branches of \<^verbatim>\<open>classifyOperational\<close> hand to
  \<^verbatim>\<open>envelopeOperational\<close>, in the order of the source. \<open>plat\<close> is the build's platform file and
  \<open>closeStatus\<close> the WebSocket library's \<^verbatim>\<open>CloseStatus\<close>, \<open>-1\<close> when there is none.
\<close>

definition classify_sentinel :: "gerr \<Rightarrow> (ErrorKind \<times> gerr) option" where
  "classify_sentinel cause =
     (if errors_is cause ErrClosed then Some (ErrorClosed, cause)
      else if errors_is cause ErrWouldBlock then Some (ErrorBackpressure, cause)
      else if errors_is cause ErrMessageTooLarge \<or> errors_is cause ErrDatagramTooLarge
        then Some (ErrorTooLarge, cause)
      else if errors_is cause ErrFrameTooLarge
        then Some (ErrorTooLarge, categorized ErrMessageTooLarge (Some cause))
      else if errors_is cause ErrFrameExceedsQueueBudget \<or> errors_is cause ErrReadBufferFull
        then Some (ErrorResourceExhausted, categorized ErrResourceExhausted (Some cause))
      else if errors_is cause ErrInvalidFramer then Some (ErrorUnknown, cause)
      else if errors_is cause ErrPeerClosed then Some (ErrorPeerClosed, cause)
      else if errors_is cause ErrConnectionRefused then Some (ErrorRefused, cause)
      else if errors_is cause ErrConnectionReset then Some (ErrorReset, cause)
      else if errors_is cause ErrDNS then Some (ErrorDNS, cause)
      else if errors_is cause ErrTLS then Some (ErrorTLS, cause)
      else if errors_is cause ErrProtocolViolation then Some (ErrorProtocol, cause)
      else None)"

definition classify_ws :: "(gerr \<Rightarrow> int) \<Rightarrow> gerr \<Rightarrow> (ErrorKind \<times> gerr) option" where
  "classify_ws closeStatus cause =
     (if closeStatus cause \<noteq> - 1 then
        (case classifyWSStatus (closeStatus cause) of
           None \<Rightarrow> None
         | Some (kind, None) \<Rightarrow> Some (kind, cause)
         | Some (kind, Some category) \<Rightarrow> Some (kind, categorized category (Some cause)))
      else None)"

definition classify_cause ::
  "(Op \<Rightarrow> gerr \<Rightarrow> (ErrorKind \<times> sentinel) option) \<Rightarrow> (gerr \<Rightarrow> int) \<Rightarrow> Op \<Rightarrow> gerr \<Rightarrow> classifyHint
     \<Rightarrow> ErrorKind \<times> gerr"
where
  "classify_cause plat closeStatus op cause hint =
     (if errors_as is_TimeoutError cause \<noteq> None then (ErrorTimeout, cause)
      else if errors_is cause ErrTimeout then (ErrorTimeout, cause)
      else if isTimeoutFailure cause then (ErrorTimeout, categorized ErrTimeout (Some cause))
      else if errors_as is_LimitError cause \<noteq> None \<or> errors_is cause ErrResourceExhausted
        then (ErrorResourceExhausted, cause)
      else case classify_sentinel cause of Some r \<Rightarrow> r | None \<Rightarrow>
        (if errors_as (is_foreign DNSError) cause \<noteq> None
           then (ErrorDNS, categorized ErrDNS (Some cause))
         else case plat op cause of
           Some (kind, category) \<Rightarrow> (kind, categorized category (Some cause))
         | None \<Rightarrow>
           (if isTLSCause cause \<or> hint = hintTLSHandshake
              then (ErrorTLS, categorized ErrTLS (Some cause))
            else case classify_ws closeStatus cause of Some r \<Rightarrow> r | None \<Rightarrow>
              (if hint = hintWireDecode \<or> hint = hintMessageDecode \<or> hint = hintWSUpgrade
                 then (ErrorProtocol, categorized ErrProtocolViolation (Some cause))
               else (ErrorUnknown, cause)))))"

definition classifyOperational ::
  "(Op \<Rightarrow> gerr \<Rightarrow> (ErrorKind \<times> sentinel) option) \<Rightarrow> (gerr \<Rightarrow> int) \<Rightarrow> Op \<Rightarrow> Scheme
     \<Rightarrow> net_addr option \<Rightarrow> net_addr option \<Rightarrow> gerr option \<Rightarrow> classifyHint \<Rightarrow> gerr option"
where
  "classifyOperational plat closeStatus op protocol local remote cause hint =
     (case cause of
        None \<Rightarrow> None
      | Some c \<Rightarrow>
          if errors_as is_Error c \<noteq> None then Some c
          else (case classify_cause plat closeStatus op c hint of
                  (kind, c') \<Rightarrow>
                    envelopeOperational op protocol local remote kind (Some c')))"

section \<open>Searching error trees\<close>

lemma chain_self [simp]: "e \<in> set (chain e)"
  by (cases e) auto

lemma chain_nonempty [simp]: "chain e \<noteq> []"
  by (cases e) auto

lemma errors_is_iff: "errors_is e t \<longleftrightarrow> (\<exists>n \<in> set (chain e). node_is n t)"
  by (simp add: errors_is_def list_ex_iff)

lemma errors_as_None_iff: "errors_as P e = None \<longleftrightarrow> (\<forall>n \<in> set (chain e). \<not> P n)"
  by (auto simp: errors_as_def find_None_iff)

lemma chain_categorized [intro]:
  "n \<in> set (chain c) \<Longrightarrow> n \<in> set (chain (categorized s (Some c)))"
  by (auto simp: categorized_def)

lemma categorized_is [simp]: "errors_is (categorized s (Some c)) s"
  by (auto simp: categorized_def errors_is_iff)

lemma categorized_is_Error_iff [simp]:
  "errors_as is_Error (categorized s (Some c)) = None \<longleftrightarrow> errors_as is_Error c = None"
  by (auto simp: categorized_def errors_as_None_iff)

lemma timeout_node_is: "errors_as is_TimeoutError c \<noteq> None \<Longrightarrow> errors_is c ErrTimeout"
proof -
  assume "errors_as is_TimeoutError c \<noteq> None"
  then obtain n where "n \<in> set (chain c)" "is_TimeoutError n"
    by (auto simp: errors_as_None_iff)
  then show ?thesis
    by (auto simp: errors_is_iff elim!: is_TimeoutError.elims intro!: bexI [of _ n])
qed

lemma limit_child_in_chain:
  "LimitErr k l \<in> set (chain c) \<Longrightarrow> Sentinel ErrResourceExhausted \<in> set (chain c)"
  by (induction c rule: chain.induct) (auto split: option.splits)

lemma limit_node_is: "errors_as is_LimitError c \<noteq> None \<Longrightarrow> errors_is c ErrResourceExhausted"
proof -
  assume "errors_as is_LimitError c \<noteq> None"
  then obtain n where n: "n \<in> set (chain c)" "is_LimitError n"
    by (auto simp: errors_as_None_iff)
  then obtain k l where "n = LimitErr k l" by (auto elim: is_LimitError.elims)
  with n have "Sentinel ErrResourceExhausted \<in> set (chain c)"
    by (auto dest: limit_child_in_chain)
  then show ?thesis by (auto simp: errors_is_iff intro!: bexI)
qed

section \<open>What classification keeps\<close>

lemma classify_sentinel_keeps:
  assumes "classify_sentinel c = Some (k, c')"
  shows "set (chain c) \<subseteq> set (chain c')" and "errors_as is_Error c' = None \<longleftrightarrow> errors_as is_Error c = None"
  using assms
  by (auto simp: classify_sentinel_def split: if_splits)

lemma classify_ws_keeps:
  assumes "classify_ws st c = Some (k, c')"
  shows "set (chain c) \<subseteq> set (chain c')" and "errors_as is_Error c' = None \<longleftrightarrow> errors_as is_Error c = None"
  using assms
  by (auto simp: classify_ws_def split: if_splits option.splits)

lemmas classify_splits = if_splits option.splits prod.splits

lemma classify_cause_keeps:
  assumes "classify_cause plat st op c h = (k, c')"
  shows "set (chain c) \<subseteq> set (chain c')" and "errors_as is_Error c' = None \<longleftrightarrow> errors_as is_Error c = None"
  using assms classify_sentinel_keeps [of c k c'] classify_ws_keeps [of st c k c']
  by (auto simp: classify_cause_def split: classify_splits)

lemma classifyOperational_Some:
  assumes "errors_as is_Error c = None"
  obtains k c' where
    "classifyOperational plat st op p l r (Some c) h =
       Some (OpErr op p k (snapshotAddr l) (snapshotAddr r) (Some c'))"
    and "classify_cause plat st op c h = (k, c')"
proof -
  obtain k c' where cc: "classify_cause plat st op c h = (k, c')" by (cases "classify_cause plat st op c h")
  then have "errors_as is_Error c' = None"
    using assms by (simp add: classify_cause_keeps)
  with assms cc show thesis
    by (intro that) (simp_all add: classifyOperational_def envelopeOperational_def)
qed

text \<open>
  The sentinels of which a kind promises at least one; \<open>ErrorUnknown\<close> promises none.
\<close>

fun kind_sentinels :: "ErrorKind \<Rightarrow> sentinel set" where
  "kind_sentinels ErrorUnknown = {}"
| "kind_sentinels ErrorClosed = {ErrClosed}"
| "kind_sentinels ErrorPeerClosed = {ErrPeerClosed}"
| "kind_sentinels ErrorTimeout = {ErrTimeout}"
| "kind_sentinels ErrorRefused = {ErrConnectionRefused}"
| "kind_sentinels ErrorReset = {ErrConnectionReset}"
| "kind_sentinels ErrorDNS = {ErrDNS}"
| "kind_sentinels ErrorTLS = {ErrTLS}"
| "kind_sentinels ErrorProtocol = {ErrProtocolViolation}"
| "kind_sentinels ErrorResourceExhausted = {ErrResourceExhausted}"
| "kind_sentinels ErrorBackpressure = {ErrWouldBlock}"
| "kind_sentinels ErrorTooLarge = {ErrMessageTooLarge, ErrDatagramTooLarge}"

definition kind_ok :: "ErrorKind \<Rightarrow> gerr \<Rightarrow> bool" where
  "kind_ok k c \<longleftrightarrow> k \<noteq> ErrorUnknown \<longrightarrow> (\<exists>s \<in> kind_sentinels k. errors_is c s)"

text \<open>What a platform file promises: the category it returns is the sentinel of the kind.\<close>

definition platform_ok :: "(Op \<Rightarrow> gerr \<Rightarrow> (ErrorKind \<times> sentinel) option) \<Rightarrow> bool" where
  "platform_ok plat \<longleftrightarrow> (\<forall>op c k s. plat op c = Some (k, s) \<longrightarrow> s \<in> kind_sentinels k)"

lemma platform_ok_unix: "platform_ok classifyPlatformCause_unix"
  by (auto simp: platform_ok_def classifyPlatformCause_unix_def split: if_splits)

lemma platform_ok_windows: "platform_ok classifyPlatformCause_windows"
  by (auto simp: platform_ok_def classifyPlatformCause_windows_def split: if_splits)

lemma kind_ok_categorized [intro]: "s \<in> kind_sentinels k \<Longrightarrow> kind_ok k (categorized s (Some c))"
  unfolding kind_ok_def using categorized_is by blast

lemma classify_sentinel_kind: "classify_sentinel c = Some (k, c') \<Longrightarrow> kind_ok k c'"
  by (auto simp: classify_sentinel_def kind_ok_def split: if_splits)

lemma classify_ws_kind: "classify_ws st c = Some (k, c') \<Longrightarrow> kind_ok k c'"
  by (auto simp: classify_ws_def classifyWSStatus_def kind_ok_def split: if_splits)

lemma classify_cause_kind:
  assumes "platform_ok plat" and "classify_cause plat st op c h = (k, c')"
  shows "kind_ok k c'"
  using assms classify_sentinel_kind [of c k c'] classify_ws_kind [of st c k c']
  by (auto simp: classify_cause_def platform_ok_def split: classify_splits)
     (auto simp: kind_ok_def intro: timeout_node_is limit_node_is)

lemma filter_is_Error_empty: "errors_as is_Error c = None \<longleftrightarrow> filter is_Error (chain c) = []"
  by (auto simp: errors_as_None_iff filter_empty_conv)

lemma classifyOperational_Error [simp]:
  "errors_as is_Error c \<noteq> None \<Longrightarrow> classifyOperational plat st op p l r (Some c) h = Some c"
  by (simp add: classifyOperational_def)

text \<open>
  C18. Classifying any error gives exactly one public \<^verbatim>\<open>*Error\<close> envelope: the result holds one \<^verbatim>\<open>*Error\<close>
  node when the cause had none and as many as before otherwise, every node of the cause's tree is
  still reachable (so \<^verbatim>\<open>errors.Is\<close> and \<^verbatim>\<open>errors.As\<close> on the cause keep succeeding), and classifying the
  result again, at any later operation, endpoint, platform and hint, returns it unchanged.
\<close>

theorem classify_envelope:
  "\<exists>e. classifyOperational plat st op p l r (Some c) h = Some e
     \<and> length (filter is_Error (chain e)) = max 1 (length (filter is_Error (chain c)))
     \<and> set (chain c) \<subseteq> set (chain e)
     \<and> classifyOperational plat' st' op' p' l' r' (Some e) h' = Some e"
proof (cases "errors_as is_Error c = None")
  case True
  then obtain k c' where e: "classifyOperational plat st op p l r (Some c) h =
      Some (OpErr op p k (snapshotAddr l) (snapshotAddr r) (Some c'))"
    and cc: "classify_cause plat st op c h = (k, c')"
    by (rule classifyOperational_Some)
  have "filter is_Error (chain c) = []" "filter is_Error (chain c') = []"
    using True classify_cause_keeps(2) [OF cc] by (simp_all add: filter_is_Error_empty)
  with e classify_cause_keeps(1) [OF cc] show ?thesis
    by (auto simp: errors_as_None_iff intro!: classifyOperational_Error)
next
  case False
  then have "1 \<le> length (filter is_Error (chain c))"
    by (simp add: filter_is_Error_empty Suc_le_eq)
  with False show ?thesis by (auto simp: max_absorb2)
qed

text \<open>
  C19. On both supported platform families, an error that is not yet a public \<^verbatim>\<open>*Error\<close> is wrapped in
  one whose \<^verbatim>\<open>Op\<close>, \<^verbatim>\<open>Protocol\<close> and addresses are those of the call and whose \<^verbatim>\<open>Kind\<close> agrees with the
  cause: for every kind but \<^verbatim>\<open>ErrorUnknown\<close> the wrapped cause matches the sentinel of that kind under
  \<^verbatim>\<open>errors.Is\<close>.
\<close>

theorem classify_kind_matches_sentinel:
  assumes "errors_as is_Error c = None"
    and "plat = classifyPlatformCause_unix \<or> plat = classifyPlatformCause_windows"
  shows "\<exists>k c'. classifyOperational plat st op p l r (Some c) h =
       Some (OpErr op p k (snapshotAddr l) (snapshotAddr r) (Some c'))
     \<and> (k = ErrorUnknown \<or> (\<exists>s \<in> kind_sentinels k. errors_is c' s))"
  using assms classify_cause_kind [of plat st op c h] platform_ok_unix platform_ok_windows
  by (elim classifyOperational_Some [where plat = plat and st = st and op = op and p = p and l = l and r = r and h = h])
     (auto simp: kind_ok_def)

theorem classify_kind_matches_sentinel_witness:
  "\<exists>k c'. classifyOperational classifyPlatformCause_unix (\<lambda>_. - 1) OpDial 1 None None
        (Some (FmtErrorf ''dial'' (Sentinel (Errno ECONNREFUSED)))) hintNone =
       Some (OpErr OpDial 1 k None None (Some c'))
     \<and> (k = ErrorUnknown \<or> (\<exists>s \<in> kind_sentinels k. errors_is c' s))"
  using classify_kind_matches_sentinel [of "FmtErrorf ''dial'' (Sentinel (Errno ECONNREFUSED))"
      classifyPlatformCause_unix "\<lambda>_. - 1" OpDial 1 None None hintNone]
  by (simp add: errors_as_def snapshotAddr_def)

end
