(* ===== verification/Messages.thy ===== *)
theory Messages
  imports Go_Errors
begin

text \<open>
  Application messages (\<^verbatim>\<open>message.go\<close>): the payload types, the \<^verbatim>\<open>Message\<close> struct, its constructors
  and \<^verbatim>\<open>Validate\<close>, with \<^verbatim>\<open>unicode/utf8.Valid\<close> of the standard library written out over the table of
  leading bytes and accept ranges. \<open>utf8_valid\<close> is shown equal to the Unicode definition: a byte
  string is valid iff it is the concatenation of the encodings of scalar values.
\<close>

section \<open>The message type\<close>

type_synonym PayloadType = "8 word"

definition PayloadBinary :: PayloadType where
  [go_consts]: "PayloadBinary = 0x00"

definition PayloadText :: PayloadType where
  [go_consts]: "PayloadText = 0x01"

record Message =
  msgType :: PayloadType
  msgData :: bytes

text \<open>A Go string is its bytes.\<close>

definition Text :: "bytes \<Rightarrow> Message" where
  "Text s = \<lparr>msgType = PayloadText, msgData = s\<rparr>"

definition Bin :: "bytes \<Rightarrow> Message" where
  "Bin b = \<lparr>msgType = PayloadBinary, msgData = b\<rparr>"

section \<open>utf8.Valid\<close>

text \<open>
  The second byte of a multi-byte sequence lies in a range that depends on the first byte
  (Table 3-7 of the Unicode standard, the \<^verbatim>\<open>acceptRanges\<close> of the Go library); later bytes are
  continuation bytes.
\<close>

definition cont :: "byte \<Rightarrow> bool" where
  "cont b \<longleftrightarrow> 0x80 \<le> b \<and> b \<le> 0xBF"

definition second_ok :: "byte \<Rightarrow> byte \<Rightarrow> bool" where
  "second_ok a b \<longleftrightarrow>
     (if a = 0xE0 then 0xA0 \<le> b \<and> b \<le> 0xBF
      else if a = 0xED then 0x80 \<le> b \<and> b \<le> 0x9F
      else if a = 0xF0 then 0x90 \<le> b \<and> b \<le> 0xBF
      else if a = 0xF4 then 0x80 \<le> b \<and> b \<le> 0x8F
      else cont b)"

text \<open>The length of the sequence a leading byte announces; 0 for a byte that cannot lead.\<close>

definition seq_len :: "byte \<Rightarrow> nat" where
  "seq_len a =
     (if a < 0x80 then 1
      else if 0xC2 \<le> a \<and> a \<le> 0xDF then 2
      else if 0xE0 \<le> a \<and> a \<le> 0xEF then 3
      else if 0xF0 \<le> a \<and> a \<le> 0xF4 then 4
      else 0)"

fun utf8_valid :: "bytes \<Rightarrow> bool" where
  "utf8_valid [] = True"
| "utf8_valid (a # bs) =
     (if seq_len a = 1 then utf8_valid bs
      else case bs of
        [] \<Rightarrow> False
      | b # cs \<Rightarrow>
          if seq_len a = 2 then second_ok a b \<and> utf8_valid cs
          else (case cs of
            [] \<Rightarrow> False
          | c # ds \<Rightarrow>
              if seq_len a = 3 then second_ok a b \<and> cont c \<and> utf8_valid ds
              else (case ds of
                [] \<Rightarrow> False
              | d # es \<Rightarrow> seq_len a = 4 \<and> second_ok a b \<and> cont c \<and> cont d \<and> utf8_valid es)))"

text \<open>\<^verbatim>\<open>func (m Message) Validate() error\<close>: \<open>None\<close> is a nil error.\<close>

definition Validate :: "Message \<Rightarrow> gerr option" where
  "Validate m =
     (if msgType m = PayloadBinary then None
      else if msgType m = PayloadText then
        (if utf8_valid (msgData m) then None else Some (Sentinel ErrInvalidUTF8))
      else Some (Sentinel ErrInvalidPayloadType))"

section \<open>Unicode scalar values and their encoding\<close>

definition scalar :: "nat \<Rightarrow> bool" where
  "scalar n \<longleftrightarrow> n < 0x110000 \<and> \<not> (0xD800 \<le> n \<and> n \<le> 0xDFFF)"

definition utf8_encode :: "nat \<Rightarrow> bytes" where
  "utf8_encode n =
     (if n < 0x80 then [of_nat n]
      else if n < 0x800 then [of_nat (0xC0 + n div 64), of_nat (0x80 + n mod 64)]
      else if n < 0x10000 then
        [of_nat (0xE0 + n div 4096), of_nat (0x80 + n div 64 mod 64), of_nat (0x80 + n mod 64)]
      else
        [of_nat (0xF0 + n div 262144), of_nat (0x80 + n div 4096 mod 64),
         of_nat (0x80 + n div 64 mod 64), of_nat (0x80 + n mod 64)])"

section \<open>The check accepts exactly the encodings\<close>

text \<open>Comparisons of bytes as comparisons of naturals.\<close>

lemmas byte_nat = word_less_nat_alt word_le_nat_alt word_unat_eq_iff

lemma seq_len_nat:
  "seq_len a =
     (if unat a < 128 then 1 else if 194 \<le> unat a \<and> unat a \<le> 223 then 2
      else if 224 \<le> unat a \<and> unat a \<le> 239 then 3
      else if 240 \<le> unat a \<and> unat a \<le> 244 then 4 else 0)"
  by (simp add: seq_len_def byte_nat)

lemma cont_nat: "cont b \<longleftrightarrow> 128 \<le> unat b \<and> unat b \<le> 191"
  by (simp add: cont_def byte_nat)

lemma second_ok_nat:
  "second_ok a b \<longleftrightarrow>
     (if unat a = 224 then 160 \<le> unat b \<and> unat b \<le> 191
      else if unat a = 237 then 128 \<le> unat b \<and> unat b \<le> 159
      else if unat a = 240 then 144 \<le> unat b \<and> unat b \<le> 191
      else if unat a = 244 then 128 \<le> unat b \<and> unat b \<le> 143
      else 128 \<le> unat b \<and> unat b \<le> 191)"
  by (simp add: second_ok_def cont_nat byte_nat)

lemmas utf8_nat = seq_len_nat cont_nat second_ok_nat

lemma digit64 [simp]: "z < 64 \<Longrightarrow> (y * 64 + z) div 64 = (y :: nat)" "z < 64 \<Longrightarrow> (y * 64 + z) mod 64 = (z :: nat)"
  by auto

lemma mod64_le [simp]: "n mod 64 \<le> (63 :: nat)"
  by auto

lemma div64_twice: "n div 4096 = n div 64 div (64 :: nat)" "n div 262144 = n div 4096 div (64 :: nat)"
  by (simp_all add: div_mult2_eq [symmetric])

lemma utf8_valid_encode_append:
  assumes "scalar n"
  shows "utf8_valid (utf8_encode n @ bs) = utf8_valid bs"
proof -
  consider "n < 128" | "128 \<le> n" "n < 2048" | "2048 \<le> n" "n < 65536" | "65536 \<le> n" "n < 1114112"
    using assms by (fastforce simp: scalar_def)
  then show ?thesis
  proof cases
    case 1
    then show ?thesis by (simp add: utf8_encode_def utf8_nat)
  next
    case 2
    then have "2 \<le> n div 64" "n div 64 < 32" "n mod 64 \<le> 63" by auto
    with 2 show ?thesis by (simp add: utf8_encode_def utf8_nat)
  next
    case 3
    define q r where "q = n div 4096" and "r = n div 64 mod 64"
    have n: "n = q * 4096 + r * 64 + n mod 64" and r: "r < 64" "n mod 64 < 64"
      using div_mult_mod_eq [of n 64] div_mult_mod_eq [of "n div 64" 64]
      unfolding q_def r_def div64_twice by (linarith, simp_all)
    have "q < 16" using 3 by (auto simp: q_def)
    moreover have "q = 0 \<Longrightarrow> 32 \<le> r" using n r 3 by linarith
    moreover have "q = 13 \<Longrightarrow> r < 32" using n r assms by (auto simp: scalar_def)
    ultimately show ?thesis using r 3
      by (auto simp: utf8_encode_def utf8_nat q_def [symmetric] r_def [symmetric])
  next
    case 4
    define q r where "q = n div 262144" and "r = n div 4096 mod 64"
    have n: "n = q * 262144 + r * 4096 + n mod 4096" and r: "r < 64" "n mod 4096 < 4096"
      using div_mult_mod_eq [of n 4096] div_mult_mod_eq [of "n div 4096" 64]
      unfolding q_def r_def div64_twice by (linarith, simp_all)
    have "q < 5" using 4 by (auto simp: q_def)
    moreover have "q = 0 \<Longrightarrow> 16 \<le> r" using n r 4 by linarith
    moreover have "q = 4 \<Longrightarrow> r < 16" using n r 4 by linarith
    ultimately show ?thesis using r 4
      by (auto simp: utf8_encode_def utf8_nat q_def [symmetric] r_def [symmetric])
  qed
qed

lemma byte_offset:
  assumes "m \<le> unat (a :: byte)"
  obtains x where "unat a = m + x" "a = of_nat (m + x)"
  proof -
  obtain x where "unat a = m + x" using assms by (metis le_Suc_ex)
  moreover have "a = of_nat (unat a)" by simp
  ultimately show thesis using that by metis
qed

lemma decode2:
  assumes "seq_len a = 2" "second_ok a b"
  shows "\<exists>n. scalar n \<and> utf8_encode n = [a, b]"
proof -
  have "192 \<le> unat a" "128 \<le> unat b"
    using assms by (auto simp: utf8_nat split: if_splits)
  then obtain x y where xy: "unat a = 192 + x" "a = of_nat (192 + x)" "unat b = 128 + y" "b = of_nat (128 + y)"
    by (metis byte_offset)
  define n where "n = x * 64 + y"
  have "2 \<le> x" "x < 32" "y < 64"
    using assms xy(1,3) by (auto simp: utf8_nat split: if_splits)
  moreover from this have "n div 64 = x" "n mod 64 = y" "128 \<le> n" "n < 2048"
    by (auto simp: n_def)
  ultimately show ?thesis
    by (intro exI [of _ n]) (auto simp: scalar_def utf8_encode_def xy(2,4))
qed

lemma decode3:
  assumes "seq_len a = 3" "second_ok a b" "cont c"
  shows "\<exists>n. scalar n \<and> utf8_encode n = [a, b, c]"
proof -
  have "224 \<le> unat a" "128 \<le> unat b" "128 \<le> unat c"
    using assms by (auto simp: utf8_nat split: if_splits)
  then obtain x y z where xyz: "unat a = 224 + x" "a = of_nat (224 + x)"
    "unat b = 128 + y" "b = of_nat (128 + y)" "unat c = 128 + z" "c = of_nat (128 + z)"
    by (metis byte_offset)
  define n where "n = (x * 64 + y) * 64 + z"
  have r: "x < 16" "y < 64" "z < 64" "x = 0 \<Longrightarrow> 32 \<le> y" "x = 13 \<Longrightarrow> y < 32"
    using assms xyz(1,3,5) by (auto simp: utf8_nat split: if_splits)
  have "n div 4096 = x" "n div 64 mod 64 = y" "n mod 64 = z"
    unfolding n_def div64_twice using r(1-4) by (simp_all only: digit64)
  moreover have "2048 \<le> n" using r(4) by (cases x) (auto simp: n_def)
  moreover have "n < 65536" using r(1-3) by (simp add: n_def)
  moreover have "\<not> (0xD800 \<le> n \<and> n \<le> 0xDFFF)"
    using r by (cases x "13 :: nat" rule: linorder_cases) (auto simp: n_def)
  ultimately show ?thesis
    by (intro exI [of _ n]) (auto simp: scalar_def utf8_encode_def xyz(2,4,6))
qed

lemma decode4:
  assumes "seq_len a = 4" "second_ok a b" "cont c" "cont d"
  shows "\<exists>n. scalar n \<and> utf8_encode n = [a, b, c, d]"
proof -
  have "240 \<le> unat a" "128 \<le> unat b" "128 \<le> unat c" "128 \<le> unat d"
    using assms by (auto simp: utf8_nat split: if_splits)
  then obtain x y z w where xyz: "unat a = 240 + x" "a = of_nat (240 + x)"
    "unat b = 128 + y" "b = of_nat (128 + y)" "unat c = 128 + z" "c = of_nat (128 + z)"
    "unat d = 128 + w" "d = of_nat (128 + w)"
    by (metis byte_offset)
  define n where "n = ((x * 64 + y) * 64 + z) * 64 + w"
  have r: "x < 5" "y < 64" "z < 64" "w < 64" "x = 0 \<Longrightarrow> 16 \<le> y" "x = 4 \<Longrightarrow> y < 16"
    using assms xyz(1,3,5,7) by (auto simp: utf8_nat split: if_splits)
  have "n div 262144 = x" "n div 4096 mod 64 = y" "n div 64 mod 64 = z" "n mod 64 = w"
    unfolding n_def div64_twice using r(1-4) by (simp_all only: digit64)
  moreover have "65536 \<le> n" using r(5) by (cases x) (auto simp: n_def)
  moreover have "n < 1114112" using r by (cases "x = 4") (auto simp: n_def)
  ultimately show ?thesis
    by (intro exI [of _ n]) (auto simp: scalar_def utf8_encode_def xyz(2,4,6,8))
qed

lemma decode1: "seq_len a = 1 \<Longrightarrow> scalar (unat a) \<and> utf8_encode (unat a) = [a]"
  by (auto simp: utf8_nat scalar_def utf8_encode_def split: if_splits)

lemma utf8_valid_split:
  assumes "utf8_valid (a # bs)"
  shows "\<exists>n cs. scalar n \<and> a # bs = utf8_encode n @ cs \<and> utf8_valid cs"
proof -
  consider "seq_len a = 1" "utf8_valid bs"
    | b cs where "bs = b # cs" "seq_len a = 2" "second_ok a b" "utf8_valid cs"
    | b c cs where "bs = b # c # cs" "seq_len a = 3" "second_ok a b" "cont c" "utf8_valid cs"
    | b c d cs where "bs = b # c # d # cs" "seq_len a = 4" "second_ok a b" "cont c" "cont d" "utf8_valid cs"
    using assms by (cases bs; cases "tl bs"; cases "tl (tl bs)") 
      (auto simp del: utf8_valid.simps(2) simp add: utf8_valid.simps(2) [of a] split: if_splits)
  then show ?thesis
  proof cases
    case 1
    then show ?thesis using decode1 [of a] by (intro exI [of _ "unat a"]) auto
  next
    case 2
    with decode2 obtain n where "scalar n" "utf8_encode n = [a, b]" by metis
    with 2 show ?thesis by (intro exI [of _ n] exI [of _ cs]) simp
  next
    case 3
    with decode3 obtain n where "scalar n" "utf8_encode n = [a, b, c]" by metis
    with 3 show ?thesis by (intro exI [of _ n] exI [of _ cs]) simp
  next
    case 4
    with decode4 obtain n where "scalar n" "utf8_encode n = [a, b, c, d]" by metis
    with 4 show ?thesis by (intro exI [of _ n] exI [of _ cs]) simp
  qed
qed

lemma utf8_encode_ne [simp]: "utf8_encode n \<noteq> []"
  by (simp add: utf8_encode_def)

lemma utf8_valid_complete:
  "utf8_valid bs \<Longrightarrow> \<exists>cps. (\<forall>c\<in>set cps. scalar c) \<and> bs = concat (map utf8_encode cps)"
proof (induction bs rule: length_induct)
  case (1 bs)
  show ?case
  proof (cases bs)
    case Nil
    then show ?thesis by (intro exI [of _ "[]"]) simp
  next
    case (Cons a bs')
    with 1(2) obtain n cs where n: "scalar n" "bs = utf8_encode n @ cs" "utf8_valid cs"
      using utf8_valid_split by blast
    then have "length cs < length bs" by (cases "utf8_encode n") auto
    with 1(1) n(3) obtain cps where "\<forall>c\<in>set cps. scalar c" "cs = concat (map utf8_encode cps)"
      by blast
    with n show ?thesis by (intro exI [of _ "n # cps"]) simp
  qed
qed

lemma utf8_valid_sound:
  "\<forall>c\<in>set cps. scalar c \<Longrightarrow> utf8_valid (concat (map utf8_encode cps))"
  by (induction cps) (simp_all add: utf8_valid_encode_append del: utf8_valid.simps(2))

text \<open>
  C20. The UTF-8 check of \<^verbatim>\<open>Message.Validate\<close> accepts a text message exactly when its data is a
  sequence of encoded Unicode scalar values.
\<close>

theorem validate_text_iff_scalars:
  "Validate (Text s) = None \<longleftrightarrow> s \<in> {concat (map utf8_encode cps) | cps. list_all scalar cps}"
proof -
  have "utf8_valid s \<longleftrightarrow> (\<exists>cps. list_all scalar cps \<and> s = concat (map utf8_encode cps))"
    using utf8_valid_complete utf8_valid_sound by (metis list_all_iff)
  then show ?thesis
    by (auto simp: Validate_def Text_def go_consts)
qed

end
