(* ===== verification/Base64.thy ===== *)
theory Base64
  imports Ogre_Prelude
begin

text \<open>
  \<^verbatim>\<open>base64.RawStdEncoding\<close> of the Go standard library, as \<^verbatim>\<open>wire.Codec\<close> and the WebSocket sessions use
  it on encrypted text payloads: the standard alphabet, no padding, carriage return and line feed
  skipped by the decoder, unused trailing bits ignored. Decoding inverts encoding.
\<close>

section \<open>Alphabet\<close>

definition b64_char :: "nat \<Rightarrow> byte" where
  "b64_char n =
     (if n < 26 then of_nat (65 + n)
      else if n < 52 then of_nat (97 + (n - 26))
      else if n < 62 then of_nat (48 + (n - 52))
      else if n = 62 then 43 else 47)"

definition b64_val :: "byte \<Rightarrow> nat option" where
  "b64_val b =
     (let n = unat b in
      if 65 \<le> n \<and> n \<le> 90 then Some (n - 65)
      else if 97 \<le> n \<and> n \<le> 122 then Some (n - 97 + 26)
      else if 48 \<le> n \<and> n \<le> 57 then Some (n - 48 + 52)
      else if n = 43 then Some 62
      else if n = 47 then Some 63
      else None)"

section \<open>Encoding\<close>

fun b64_sextets :: "nat list \<Rightarrow> nat list" where
  "b64_sextets (a # b # c # r) =
     a div 4 # (a mod 4 * 16 + b div 16) # (b mod 16 * 4 + c div 64) # c mod 64 # b64_sextets r"
| "b64_sextets [a, b] = [a div 4, a mod 4 * 16 + b div 16, b mod 16 * 4]"
| "b64_sextets [a] = [a div 4, a mod 4 * 16]"
| "b64_sextets [] = []"

definition b64_encode :: "bytes \<Rightarrow> bytes" where
  "b64_encode bs = map b64_char (b64_sextets (map unat bs))"

text \<open>\<^verbatim>\<open>RawStdEncoding.EncodedLen\<close>.\<close>

definition b64_encoded_len :: "nat \<Rightarrow> nat" where
  "b64_encoded_len n = n div 3 * 4 + (n mod 3 * 8 + 5) div 6"

section \<open>Decoding\<close>

text \<open>The sextets of the input, CR and LF skipped; \<open>None\<close> is a \<^verbatim>\<open>CorruptInputError\<close>.\<close>

fun b64_scan :: "bytes \<Rightarrow> nat list option" where
  "b64_scan [] = Some []"
| "b64_scan (b # r) =
     (case b64_val b of
        Some v \<Rightarrow> map_option (\<lambda>vs. v # vs) (b64_scan r)
      | None \<Rightarrow> if b = 10 \<or> b = 13 then b64_scan r else None)"

fun b64_unsextets :: "nat list \<Rightarrow> nat list option" where
  "b64_unsextets (p # q # r # s # t) =
     map_option (\<lambda>bs. (p * 4 + q div 16) # (q mod 16 * 16 + r div 4) # (r mod 4 * 64 + s) # bs)
       (b64_unsextets t)"
| "b64_unsextets [p, q, r] = Some [p * 4 + q div 16, q mod 16 * 16 + r div 4]"
| "b64_unsextets [p, q] = Some [p * 4 + q div 16]"
| "b64_unsextets [p] = None"
| "b64_unsextets [] = Some []"

definition b64_decode :: "bytes \<Rightarrow> bytes option" where
  "b64_decode bs = map_option (map of_nat) (Option.bind (b64_scan bs) b64_unsextets)"

section \<open>Round trip\<close>

lemma b64_val_char [simp]: "n < 64 \<Longrightarrow> b64_val (b64_char n) = Some n"
  by (cases "n = 62"; cases "n = 63")
    (simp_all add: b64_val_def b64_char_def Let_def del: of_nat_diff of_nat_add, linarith)

lemma b64_scan_chars: "\<forall>n \<in> set ns. n < 64 \<Longrightarrow> b64_scan (map b64_char ns) = Some ns"
  by (induction ns) auto

lemma digit_split:
  fixes x y m :: nat
  assumes "y < m"
  shows "(x * m + y) div m = x" and "(x * m + y) mod m = y"
  using assms by auto

lemma sextet_bounds:
  fixes a b :: nat
  shows "b < 256 \<Longrightarrow> b div 16 < 16" "b < 256 \<Longrightarrow> b div 64 < 4" "b < 256 \<Longrightarrow> b div 4 < 64"
    "b < 16 \<Longrightarrow> a mod 4 * 16 + b < 64" "b < 4 \<Longrightarrow> a mod 16 * 4 + b < 64"
    "a mod 4 * 16 < 64" "a mod 16 * 4 < 64"
proof -
  have "a mod 4 < 4" "a mod 16 < 16" by simp_all
  then show "b < 16 \<Longrightarrow> a mod 4 * 16 + b < 64" "b < 4 \<Longrightarrow> a mod 16 * 4 + b < 64"
    "a mod 4 * 16 < 64" "a mod 16 * 4 < 64" by linarith+
qed auto

lemma b64_sextets_range: "\<forall>n \<in> set ns. n < 256 \<Longrightarrow> \<forall>s \<in> set (b64_sextets ns). s < 64"
  by (induction ns rule: b64_sextets.induct) (simp_all add: sextet_bounds)

lemma b64_unsextets_sextets: "\<forall>n \<in> set ns. n < 256 \<Longrightarrow> b64_unsextets (b64_sextets ns) = Some ns"
  by (induction ns rule: b64_sextets.induct) (simp_all add: sextet_bounds digit_split)

lemma b64_decode_encode [simp]: "b64_decode (b64_encode bs) = Some bs"
proof -
  have *: "\<forall>n \<in> set (map unat bs). n < 256" by auto
  then have "b64_scan (b64_encode bs) = Some (b64_sextets (map unat bs))"
    unfolding b64_encode_def by (intro b64_scan_chars b64_sextets_range)
  with * show ?thesis
    by (simp add: b64_decode_def b64_unsextets_sextets o_def)
qed

lemma length_b64_sextets: "length (b64_sextets ns) = b64_encoded_len (length ns)"
proof (induction ns rule: b64_sextets.induct)
  case (1 a b c r)
  have "b64_encoded_len (length r + 3) = b64_encoded_len (length r) + 4"
    unfolding b64_encoded_len_def by (simp only: div_add_self2 mod_add_self2) simp
  moreover have "length (a # b # c # r) = length r + 3" by simp
  moreover have "length (b64_sextets (a # b # c # r)) = length (b64_sextets r) + 4" by simp
  ultimately show ?case using 1 by (simp only:)
qed (simp_all add: b64_encoded_len_def)

lemma length_b64_encode [simp]: "length (b64_encode bs) = b64_encoded_len (length bs)"
  by (simp add: b64_encode_def length_b64_sextets)

end
