(* ===== verification/Wire.thy ===== *)
theory Wire
  imports Messages Base64 Error_Model
begin

text \<open>
  The cipher interfaces (\<^verbatim>\<open>secure/secure.go\<close>), the AES-GCM cipher (\<^verbatim>\<open>secure/aesgcm.go\<close>) and the v1 wire
  envelope (\<^verbatim>\<open>wire/wire.go\<close>): \<^verbatim>\<open>Codec.Encode\<close>, \<^verbatim>\<open>DecodeOne\<close>, \<^verbatim>\<open>Decode\<close> and \<^verbatim>\<open>ParseHeader\<close> with every early
  return in source order. The locale \<open>framer_law\<close> states what a stream reader relies on; the codec
  is an instance of it with and without a cipher.
\<close>

section \<open>Ciphers\<close>

type_synonym Algorithm = u16

definition AlgNone :: Algorithm where
  [go_consts]: "AlgNone = 0x0000"

definition AlgAESGCM :: Algorithm where
  [go_consts]: "AlgAESGCM = 0x0001"

text \<open>
  The outcome of \<^verbatim>\<open>io.ReadFull(rand.Reader, nonce)\<close> for a requested length: an error or the bytes
  read.
\<close>

type_synonym rng = "nat \<Rightarrow> gerr + bytes"

text \<open>
  A \<^verbatim>\<open>secure.Cipher\<close> value. \<open>cAAD\<close> is \<open>Some (SealAAD, OpenAAD)\<close> when the dynamic type also implements
  \<^verbatim>\<open>AuthenticatedCipher\<close>. The destination argument is nil in every call of the sources.
\<close>

record Cipher =
  cAlgorithm :: Algorithm
  cSeal :: "rng \<Rightarrow> bytes \<Rightarrow> gerr + bytes"
  cOpen :: "bytes \<Rightarrow> gerr + bytes"
  cAAD :: "((rng \<Rightarrow> bytes \<Rightarrow> bytes \<Rightarrow> gerr + bytes) \<times> (bytes \<Rightarrow> bytes \<Rightarrow> gerr + bytes)) option"

text \<open>The type assertion \<^verbatim>\<open>c.Cipher.(secure.AuthenticatedCipher)\<close> and the call it selects.\<close>

definition seal_with :: "Cipher \<Rightarrow> rng \<Rightarrow> bytes \<Rightarrow> bytes \<Rightarrow> gerr + bytes" where
  "seal_with ci rng plaintext aad =
     (case cAAD ci of
        Some (sealAAD, _) \<Rightarrow> sealAAD rng plaintext aad
      | None \<Rightarrow> cSeal ci rng plaintext)"

definition open_with :: "Cipher \<Rightarrow> bytes \<Rightarrow> bytes \<Rightarrow> gerr + bytes" where
  "open_with ci ciphertext aad =
     (case cAAD ci of
        Some (_, openAAD) \<Rightarrow> openAAD ciphertext aad
      | None \<Rightarrow> cOpen ci ciphertext)"

text \<open>
  \<^verbatim>\<open>io.ReadFull\<close> fills the buffer or fails. \<^verbatim>\<open>Cipher is a reversible message transform\<close>: opening what
  was sealed gives it back.
\<close>

definition rng_ok :: "rng \<Rightarrow> bool" where
  "rng_ok rng \<longleftrightarrow> (\<forall>n b. rng n = Inr b \<longrightarrow> length b = n)"

definition reversible :: "Cipher \<Rightarrow> bool" where
  "reversible ci \<longleftrightarrow>
     (\<forall>rng p aad ct. rng_ok rng \<longrightarrow> seal_with ci rng p aad = Inr ct \<longrightarrow>
        open_with ci ct aad = Inr p)"

section \<open>AES-GCM over a standard-library AEAD\<close>

text \<open>
  \<^verbatim>\<open>cipher.AEAD\<close>: \<open>aeadSeal nonce plaintext aad\<close> and \<open>aeadOpen nonce ciphertext aad\<close>.
\<close>

record AEAD =
  NonceSize :: nat
  aeadSeal :: "bytes \<Rightarrow> bytes \<Rightarrow> bytes \<Rightarrow> bytes"
  aeadOpen :: "bytes \<Rightarrow> bytes \<Rightarrow> bytes \<Rightarrow> gerr + bytes"

definition aead_law :: "AEAD \<Rightarrow> bool" where
  "aead_law a \<longleftrightarrow>
     (\<forall>n p aad. length n = NonceSize a \<longrightarrow> aeadOpen a n (aeadSeal a n p aad) aad = Inr p)"

definition aesGCM_SealAAD :: "AEAD \<Rightarrow> rng \<Rightarrow> bytes \<Rightarrow> bytes \<Rightarrow> gerr + bytes" where
  "aesGCM_SealAAD a rng plaintext aad =
     (case rng (NonceSize a) of
        Inl err \<Rightarrow> Inl (FmtErrorf ''secure: generate nonce'' err)
      | Inr nonce \<Rightarrow> Inr (nonce @ aeadSeal a nonce plaintext aad))"

definition aesGCM_OpenAAD :: "AEAD \<Rightarrow> bytes \<Rightarrow> bytes \<Rightarrow> gerr + bytes" where
  "aesGCM_OpenAAD a ciphertext aad =
     (let nonceSize = NonceSize a in
      if length ciphertext < nonceSize then
        Inl (ErrorString ''secure: ciphertext is shorter than nonce'')
      else
        (case aeadOpen a (take nonceSize ciphertext) (drop nonceSize ciphertext) aad of
           Inl err \<Rightarrow> Inl (FmtErrorf ''secure: authenticate ciphertext'' err)
         | Inr plaintext \<Rightarrow> Inr plaintext))"

definition aesGCM :: "AEAD \<Rightarrow> Cipher" where
  "aesGCM a =
     \<lparr>cAlgorithm = AlgAESGCM,
      cSeal = (\<lambda>rng p. aesGCM_SealAAD a rng p []),
      cOpen = (\<lambda>ct. aesGCM_OpenAAD a ct []),
      cAAD = Some (aesGCM_SealAAD a, aesGCM_OpenAAD a)\<rparr>"

section \<open>The v1 envelope\<close>

definition Magic :: u16 where
  [go_consts]: "Magic = 0x4f47"

definition Version :: byte where
  [go_consts]: "Version = 1"

definition HeaderSize :: nat where
  [go_consts]: "HeaderSize = 10"

definition FlagText :: byte where
  [go_consts]: "FlagText = 1"

definition FlagEncrypted :: byte where
  [go_consts]: "FlagEncrypted = 2"

definition knownFlags :: byte where
  [go_consts]: "knownFlags = FlagText OR FlagEncrypted"

definition DefaultMaxPayload :: u32 where
  [go_consts]: "DefaultMaxPayload = push_bit 20 16"

record Header =
  hMagic :: u16
  hVersion :: byte
  hFlags :: byte
  hAlgorithm :: Algorithm
  hLength :: u32

record Codec =
  codecCipher :: "Cipher option"
  MaxPayload :: u32

definition New :: "Cipher option \<Rightarrow> Codec" where
  "New cipher = \<lparr>codecCipher = cipher, MaxPayload = DefaultMaxPayload\<rparr>"

definition maxPayload :: "Codec \<Rightarrow> u32" where
  "maxPayload c = (if MaxPayload c = 0 then DefaultMaxPayload else MaxPayload c)"

definition semanticAAD :: "byte \<Rightarrow> Algorithm \<Rightarrow> bytes" where
  "semanticAAD flags algorithm = put16 Magic @ [Version, flags] @ put16 algorithm"

definition validateSemanticHeader :: "byte \<Rightarrow> Algorithm \<Rightarrow> gerr option" where
  "validateSemanticHeader flags algorithm =
     (if flags AND NOT knownFlags \<noteq> 0 then Some (Sentinel ErrUnsupportedFlags)
      else if flags AND FlagEncrypted = 0 \<and> algorithm \<noteq> AlgNone
        then Some (Sentinel ErrAlgorithmMismatch)
      else None)"

text \<open>The frame bytes of \<^verbatim>\<open>Encode\<close>: header and payload.\<close>

definition put_frame :: "byte \<Rightarrow> Algorithm \<Rightarrow> bytes \<Rightarrow> bytes" where
  "put_frame flags algorithm payload =
     put16 Magic @ [Version, flags] @ put16 algorithm @ put32 (of_nat (length payload)) @ payload"

definition Encode :: "Codec \<Rightarrow> rng \<Rightarrow> Message \<Rightarrow> gerr + bytes" where
  "Encode c rng msg =
     (case Validate msg of Some err \<Rightarrow> Inl err | None \<Rightarrow>
      if length (msgData msg) > unat (maxPayload c) then Inl (Sentinel ErrFrameTooLarge) else
      let flags = (if msgType msg = PayloadText then FlagText else 0);
          sealed =
            (case codecCipher c of
               None \<Rightarrow> Inr (flags, AlgNone, msgData msg)
             | Some ci \<Rightarrow>
                 let algorithm = cAlgorithm ci;
                     flags = flags OR FlagEncrypted;
                     aad = semanticAAD flags algorithm
                 in (case seal_with ci rng (msgData msg) aad of
                       Inl err \<Rightarrow> Inl (FmtErrorf ''wire: encrypt payload'' err)
                     | Inr payload \<Rightarrow>
                         Inr (flags, algorithm,
                              if msgType msg = PayloadText then b64_encode payload else payload)))
      in (case sealed of
            Inl err \<Rightarrow> Inl err
          | Inr (flags, algorithm, payload) \<Rightarrow>
              if length payload > unat (maxPayload c) \<or> length payload > 2 ^ 32 - 1
                then Inl (Sentinel ErrFrameTooLarge)
              else Inr (put_frame flags algorithm payload)))"

text \<open>
  The branch of \<^verbatim>\<open>DecodeOne\<close> that turns the wire payload into plaintext.
\<close>

definition open_payload :: "Codec \<Rightarrow> byte \<Rightarrow> Algorithm \<Rightarrow> PayloadType \<Rightarrow> bytes \<Rightarrow> gerr + bytes" where
  "open_payload c flags algorithm kind payload =
     (if flags AND FlagEncrypted = 0 then Inr payload else
      case codecCipher c of
        None \<Rightarrow> Inl (Sentinel ErrMissingCipher)
      | Some ci \<Rightarrow>
          (case (if kind = PayloadText then b64_decode payload else Some payload) of
             None \<Rightarrow> Inl (FmtErrorf ''wire: decode encrypted text''
                          (Foreign (ForeignError ''base64.CorruptInputError'') None []))
           | Some payload \<Rightarrow>
               (case open_with ci payload (semanticAAD flags algorithm) of
                  Inl err \<Rightarrow> Inl (FmtErrorf ''wire: decrypt payload'' err)
                | Inr plaintext \<Rightarrow> Inr plaintext)))"

definition DecodeOne :: "Codec \<Rightarrow> bytes \<Rightarrow> gerr + (Message \<times> nat)" where
  "DecodeOne c src =
     (if length src < HeaderSize then Inl (Sentinel ErrNeedMore) else
      if get16 (src ! 0) (src ! 1) \<noteq> Magic then Inl (Sentinel ErrBadMagic) else
      if src ! 2 \<noteq> Version then Inl (Sentinel ErrUnsupportedVersion) else
      let flags = src ! 3;
          algorithm = get16 (src ! 4) (src ! 5) in
      case validateSemanticHeader flags algorithm of Some err \<Rightarrow> Inl err | None \<Rightarrow>
      let len = get32 (src ! 6) (src ! 7) (src ! 8) (src ! 9) in
      if len > maxPayload c then Inl (Sentinel ErrFrameTooLarge) else
      if flags AND FlagEncrypted \<noteq> 0 \<and> codecCipher c = None
        then Inl (Sentinel ErrMissingCipher) else
      if flags AND FlagEncrypted \<noteq> 0 \<and> cAlgorithm (the (codecCipher c)) \<noteq> algorithm
        then Inl (Sentinel ErrAlgorithmMismatch) else
      if int (unat len) + int HeaderSize > max_int64 then Inl (Sentinel ErrFrameTooLarge) else
      let total = HeaderSize + unat len in
      if length src < total then Inl (Sentinel ErrNeedMore) else
      let kind = (if flags AND FlagText \<noteq> 0 then PayloadText else PayloadBinary) in
      case open_payload c flags algorithm kind (take (unat len) (drop HeaderSize src)) of
        Inl err \<Rightarrow> Inl err
      | Inr payload \<Rightarrow>
          if length payload > unat (maxPayload c) then Inl (Sentinel ErrFrameTooLarge) else
          let msg = \<lparr>msgType = kind, msgData = payload\<rparr> in
          (case Validate msg of Some err \<Rightarrow> Inl err | None \<Rightarrow> Inr (msg, total)))"

definition Decode :: "Codec \<Rightarrow> bytes \<Rightarrow> gerr + Message" where
  "Decode c src =
     (case DecodeOne c src of
        Inl err \<Rightarrow> Inl err
      | Inr (msg, n) \<Rightarrow> if n \<noteq> length src then Inl (Sentinel ErrTrailingData) else Inr msg)"

definition ParseHeader :: "bytes \<Rightarrow> gerr + Header" where
  "ParseHeader src =
     (if length src < HeaderSize then Inl (Sentinel ErrNeedMore) else
      let h = \<lparr>hMagic = get16 (src ! 0) (src ! 1), hVersion = src ! 2, hFlags = src ! 3,
               hAlgorithm = get16 (src ! 4) (src ! 5), hLength = get32 (src ! 6) (src ! 7) (src ! 8) (src ! 9)\<rparr> in
      if hMagic h \<noteq> Magic then Inl (Sentinel ErrBadMagic)
      else if hVersion h \<noteq> Version then Inl (Sentinel ErrUnsupportedVersion)
      else (case validateSemanticHeader (hFlags h) (hAlgorithm h) of
              Some err \<Rightarrow> Inl err | None \<Rightarrow> Inr h))"

section \<open>Reading what was written\<close>

lemma HeaderSize_put_frame [simp]: "length (put_frame f a p) = HeaderSize + length p"
  by (simp add: put_frame_def go_consts)

lemma put_frame_nth:
  "(put_frame f a p @ r) ! 2 = Version" "(put_frame f a p @ r) ! 3 = f"
  "get16 ((put_frame f a p @ r) ! 0) ((put_frame f a p @ r) ! 1) = Magic"
  "get16 ((put_frame f a p @ r) ! 4) ((put_frame f a p @ r) ! 5) = a"
  "get32 ((put_frame f a p @ r) ! 6) ((put_frame f a p @ r) ! 7) ((put_frame f a p @ r) ! 8)
     ((put_frame f a p @ r) ! 9) = of_nat (length p)"
  by (simp_all add: put_frame_def put16_def put32_def)

lemma put_frame_payload: "take (length p) (drop HeaderSize (put_frame f a p @ r)) = p"
  by (simp add: put_frame_def put16_def put32_def go_consts)

lemma unat_le_max32: "unat (w :: u32) \<le> 2 ^ 32 - 1"
proof -
  have "unat w < 2 ^ LENGTH(32)" by (rule unsigned_less)
  then show ?thesis by simp
qed

lemma length_le_word [simp]: "n \<le> unat (w :: u32) \<Longrightarrow> unat (of_nat n :: u32) = n"
  using unat_le_max32 [of w] by (simp add: unat_of_nat take_bit_nat_eq_self)

lemma length_gt_word: "n \<le> unat (w :: u32) \<Longrightarrow> \<not> (of_nat n :: u32) > w"
  by (simp add: word_less_nat_alt)

lemma frame_fits_int: "n \<le> unat (w :: u32) \<Longrightarrow> \<not> max_int64 < int n + int HeaderSize"
  using unat_le_max32 [of w] by (simp add: max_int64_def go_consts)

text \<open>The configured cipher, if any, is reversible.\<close>

definition codec_reversible :: "Codec \<Rightarrow> bool" where
  "codec_reversible c \<longleftrightarrow> (case codecCipher c of None \<Rightarrow> True | Some ci \<Rightarrow> reversible ci)"

text \<open>The checks on the header of a frame that the codec itself produced.\<close>

definition header_ok :: "Codec \<Rightarrow> byte \<Rightarrow> Algorithm \<Rightarrow> bool" where
  "header_ok c flags algorithm \<longleftrightarrow>
     validateSemanticHeader flags algorithm = None
     \<and> (flags AND FlagEncrypted = 0
        \<or> (case codecCipher c of None \<Rightarrow> False | Some ci \<Rightarrow> cAlgorithm ci = algorithm))"

abbreviation flag_kind :: "byte \<Rightarrow> PayloadType" where
  "flag_kind flags \<equiv> (if flags AND FlagText \<noteq> 0 then PayloadText else PayloadBinary)"

lemma decode_put_frame:
  assumes "header_ok c flags a" and "length p \<le> unat (maxPayload c)"
    and "open_payload c flags a (flag_kind flags) p = Inr d" and "length d \<le> unat (maxPayload c)"
    and "Validate \<lparr>msgType = flag_kind flags, msgData = d\<rparr> = None"
  shows "DecodeOne c (put_frame flags a p @ r) =
     Inr (\<lparr>msgType = flag_kind flags, msgData = d\<rparr>, length (put_frame flags a p))"
proof -
  have *: "\<not> (flags AND FlagEncrypted \<noteq> 0 \<and> codecCipher c = None)"
    "\<not> (flags AND FlagEncrypted \<noteq> 0 \<and> cAlgorithm (the (codecCipher c)) \<noteq> a)"
    "validateSemanticHeader flags a = None"
    using assms(1) by (auto simp: header_ok_def split: option.splits)
  have "\<not> length (put_frame flags a p @ r) < HeaderSize"
    "\<not> length (put_frame flags a p @ r) < HeaderSize + length p" by simp_all
  then show ?thesis
    unfolding DecodeOne_def Let_def put_frame_nth
    using * assms(3-5) length_le_word [OF assms(2)] length_gt_word [OF assms(2)] frame_fits_int [OF assms(2)]
    by (simp only: put_frame_payload if_False option.case sum.case HeaderSize_put_frame not_less
        simp_thms not_le)
       (simp add: not_less)
qed

text \<open>More input never changes a result other than \<^verbatim>\<open>ErrNeedMore\<close>.\<close>

lemma DecodeOne_short: "length src < HeaderSize \<Longrightarrow> DecodeOne c src = Inl (Sentinel ErrNeedMore)"
  by (simp add: DecodeOne_def)

lemma take_drop_extend: "n + m \<le> length s \<Longrightarrow> take m (drop n (s @ x)) = take m (drop n s)"
  by (cases "n \<le> length s") simp_all

lemma if_extend: "(if b then e else x) = r \<Longrightarrow> (x = r \<Longrightarrow> y = r) \<Longrightarrow> (if b then e else y) = r"
  by (simp split: if_splits)

lemma option_extend:
  "(case v of Some e \<Rightarrow> f e | None \<Rightarrow> x) = r \<Longrightarrow> (x = r \<Longrightarrow> y = r) \<Longrightarrow>
     (case v of Some e \<Rightarrow> f e | None \<Rightarrow> y) = r"
  by (cases v) simp_all

lemma DecodeOne_extend:
  assumes "DecodeOne c src = r" and "r \<noteq> Inl (Sentinel ErrNeedMore)"
  shows "DecodeOne c (src @ x) = r"
proof -
  have l: "\<not> length src < HeaderSize" using assms DecodeOne_short by metis
  define len where "len = get32 (src ! 6) (src ! 7) (src ! 8) (src ! 9)"
  have n: "(src @ x) ! 0 = src ! 0" "(src @ x) ! 1 = src ! 1" "(src @ x) ! 2 = src ! 2"
    "(src @ x) ! 3 = src ! 3" "(src @ x) ! 4 = src ! 4" "(src @ x) ! 5 = src ! 5"
    "(src @ x) ! 6 = src ! 6" "(src @ x) ! 7 = src ! 7" "(src @ x) ! 8 = src ! 8"
    "(src @ x) ! 9 = src ! 9" "(length (src @ x) < HeaderSize) = False" "(length src < HeaderSize) = False"
    using l by (auto simp: nth_append go_consts)
  show ?thesis
  proof (cases "length src < HeaderSize + unat len")
    case False
    then have "take (unat len) (drop HeaderSize (src @ x)) = take (unat len) (drop HeaderSize src)"
      "(length (src @ x) < HeaderSize + unat len) = False"
      "(length src < HeaderSize + unat len) = False"
      by (simp_all add: take_drop_extend)
    note this [unfolded len_def]
    with assms(1) show ?thesis
      unfolding DecodeOne_def Let_def n by (simp only:)
  next
    case True
    then have "(length src < HeaderSize + unat len) = True" by simp
    note this [unfolded len_def]
    with assms show ?thesis
      unfolding DecodeOne_def Let_def n
      by (simp only: if_True if_False) (elim if_extend option_extend, simp)
  qed
qed

lemma if_Inl_Inr: "(if b then Inl e else x) = Inr y \<longleftrightarrow> \<not> b \<and> x = Inr y"
  by simp

lemma option_Inl_Inr: "(case v of Some e \<Rightarrow> Inl e | None \<Rightarrow> x) = Inr y \<longleftrightarrow> v = None \<and> x = Inr y"
  by (cases v) simp_all

lemma sum_Inl_Inr: "(case v of Inl e \<Rightarrow> Inl e | Inr w \<Rightarrow> k w) = Inr y \<longleftrightarrow> (\<exists>w. v = Inr w \<and> k w = Inr y)"
  by (cases v) simp_all

lemmas result_Inr = if_Inl_Inr option_Inl_Inr sum_Inl_Inr

text \<open>Everything a successful \<^verbatim>\<open>DecodeOne\<close> has checked.\<close>

lemma DecodeOne_Inr_iff:
  "DecodeOne c src = Inr (m, n) \<longleftrightarrow>
     (\<exists>flags a len d.
        HeaderSize \<le> length src \<and> get16 (src ! 0) (src ! 1) = Magic \<and> src ! 2 = Version
        \<and> flags = src ! 3 \<and> a = get16 (src ! 4) (src ! 5) \<and> header_ok c flags a
        \<and> len = get32 (src ! 6) (src ! 7) (src ! 8) (src ! 9) \<and> len \<le> maxPayload c
        \<and> HeaderSize + unat len \<le> length src \<and> n = HeaderSize + unat len
        \<and> open_payload c flags a (flag_kind flags) (take (unat len) (drop HeaderSize src)) = Inr d
        \<and> length d \<le> unat (maxPayload c)
        \<and> m = \<lparr>msgType = flag_kind flags, msgData = d\<rparr> \<and> Validate m = None)"
  unfolding DecodeOne_def Let_def result_Inr header_ok_def
  using frame_fits_int [OF order_refl]
  by (cases "codecCipher c") (simp_all only: not_less simp_thms ex_simps, auto)

lemma DecodeOne_Inr:
  assumes "DecodeOne c src = Inr (m, n)"
  shows "HeaderSize \<le> n" and "n \<le> length src" and "Validate m = None"
    and "length (msgData m) \<le> unat (maxPayload c)" and "n \<le> HeaderSize + unat (maxPayload c)"
  using assms unfolding DecodeOne_Inr_iff by (auto simp: word_le_nat_alt)

section \<open>The codec as a framer\<close>

text \<open>
  What a stream reader relies on: \<^verbatim>\<open>Framer.DecodeOne\<close> consumes at least one byte and at most its input,
  returns valid messages, and only \<^verbatim>\<open>ErrNeedMore\<close> may change when more bytes arrive.
\<close>

locale framer_law =
  fixes dec :: "bytes \<Rightarrow> gerr + (Message \<times> nat)"
  assumes dec_bounds: "dec src = Inr (m, n) \<Longrightarrow> 0 < n \<and> n \<le> length src"
    and dec_valid: "dec src = Inr (m, n) \<Longrightarrow> Validate m = None"
    and dec_extend: "dec src = r \<Longrightarrow> r \<noteq> Inl (Sentinel ErrNeedMore) \<Longrightarrow> dec (src @ x) = r"
begin

lemma dec_drop_shorter: "dec src = Inr (m, n) \<Longrightarrow> length (drop n src) < length src"
  using dec_bounds by fastforce

end

text \<open>A framer with its encoder, as a relation because sealing is randomised.\<close>

locale framer_roundtrip = framer_law +
  fixes enc :: "Message \<Rightarrow> bytes \<Rightarrow> bool"
  assumes dec_enc: "enc m f \<Longrightarrow> dec f = Inr (m, length f)"
begin

lemma dec_enc_append: "enc m f \<Longrightarrow> dec (f @ rest) = Inr (m, length f)"
  using dec_enc dec_extend by blast

text \<open>A strict prefix of a frame never decodes to anything.\<close>

lemma dec_strict_prefix:
  assumes "enc m f" and "k < length f"
  shows "dec (take k f) = Inl (Sentinel ErrNeedMore)"
proof (rule ccontr)
  assume "dec (take k f) \<noteq> Inl (Sentinel ErrNeedMore)"
  then have "dec (take k f @ drop k f) = dec (take k f)" by (blast intro: dec_extend)
  with assms(1) have "dec (take k f) = Inr (m, length f)" by (simp add: dec_enc)
  with assms(2) show False by (auto dest!: dec_bounds)
qed

lemma enc_nonempty: "enc m f \<Longrightarrow> f \<noteq> []"
  using dec_enc dec_bounds by fastforce

lemma enc_inj: "enc m f \<Longrightarrow> enc m' f \<Longrightarrow> m = m'"
  using dec_enc [of m f] dec_enc [of m' f] by simp

end

interpretation codec: framer_law "DecodeOne c" for c
  by unfold_locales (auto simp: DecodeOne_extend dest: DecodeOne_Inr simp: go_consts)

section \<open>Round trip\<close>

lemma flag_facts:
  "validateSemanticHeader 0 0 = None" "validateSemanticHeader 1 0 = None"
  "validateSemanticHeader 2 a = None" "validateSemanticHeader 3 a = None"
  by (simp_all add: validateSemanticHeader_def go_consts)

lemma Validate_NoneD:
  "Validate m = None \<Longrightarrow> msgType m = PayloadText \<or> msgType m = PayloadBinary"
  by (simp add: Validate_def split: if_splits)

lemma Encode_InrE:
  assumes "Encode c rng m = Inr f"
  obtains flags a p where "f = put_frame flags a p" "header_ok c flags a"
    "length p \<le> unat (maxPayload c)" "flag_kind flags = msgType m" "Validate m = None"
    "length (msgData m) \<le> unat (maxPayload c)"
    "codec_reversible c \<Longrightarrow> rng_ok rng \<Longrightarrow>
       open_payload c flags a (flag_kind flags) p = Inr (msgData m)"
proof -
  from assms have v: "Validate m = None" "length (msgData m) \<le> unat (maxPayload c)"
    by (simp_all add: Encode_def result_Inr not_less)
  note e = assms [unfolded Encode_def result_Inr Let_def]
  show thesis
  proof (cases "codecCipher c")
    case None
    with e v show thesis
      by (intro that [of "if msgType m = PayloadText then FlagText else 0" AlgNone "msgData m"])
         (auto simp: flag_facts header_ok_def open_payload_def go_consts dest: Validate_NoneD split: if_splits)
  next
    case (Some ci)
    define flags where "flags = (if msgType m = PayloadText then FlagText else 0) OR FlagEncrypted"
    from e Some obtain ct where ct: "seal_with ci rng (msgData m) (semanticAAD flags (cAlgorithm ci)) = Inr ct"
      and f: "f = put_frame flags (cAlgorithm ci) (if msgType m = PayloadText then b64_encode ct else ct)"
      "length (if msgType m = PayloadText then b64_encode ct else ct) \<le> unat (maxPayload c)"
      by (auto simp: flags_def sum.case_distrib split: sum.splits if_splits)
    have "codec_reversible c \<Longrightarrow> rng_ok rng \<Longrightarrow> open_with ci ct (semanticAAD flags (cAlgorithm ci)) = Inr (msgData m)"
      using ct Some by (simp add: reversible_def codec_reversible_def)
    moreover have "flags = (if msgType m = PayloadText then 3 else 2)"
      by (simp add: flags_def go_consts)
    ultimately show thesis using Some f v
      by (intro that [of flags "cAlgorithm ci" "if msgType m = PayloadText then b64_encode ct else ct"])
         (auto simp: flag_facts header_ok_def open_payload_def go_consts dest!: Validate_NoneD split: if_splits)
  qed
qed

lemma Encode_roundtrip:
  assumes "codec_reversible c" and "rng_ok rng" and "Encode c rng m = Inr f"
  shows "DecodeOne c (f @ rest) = Inr (m, length f)"
proof -
  from assms(3) obtain flags a p where *: "f = put_frame flags a p" "header_ok c flags a"
    "length p \<le> unat (maxPayload c)" "flag_kind flags = msgType m" "Validate m = None"
    "length (msgData m) \<le> unat (maxPayload c)"
    "open_payload c flags a (flag_kind flags) p = Inr (msgData m)"
    using assms(1,2) by (elim Encode_InrE) blast
  then show ?thesis
    using decode_put_frame [of c flags a p "msgData m" rest] by (cases m) simp
qed

lemma codec_roundtrip:
  "codec_reversible c \<Longrightarrow>
     framer_roundtrip (DecodeOne c) (\<lambda>m f. \<exists>rng. rng_ok rng \<and> Encode c rng m = Inr f)"
  using Encode_roundtrip [where rest = "[]"] by unfold_locales auto

text \<open>The default codec, \<^verbatim>\<open>wire.New(nil)\<close>, and any other codec without a cipher.\<close>

definition plain_codec :: "u32 \<Rightarrow> Codec" where
  "plain_codec limit = \<lparr>codecCipher = None, MaxPayload = limit\<rparr>"

interpretation plain: framer_roundtrip "DecodeOne (plain_codec limit)"
    "\<lambda>m f. \<exists>rng. rng_ok rng \<and> Encode (plain_codec limit) rng m = Inr f" for limit
  by (rule codec_roundtrip) (simp add: plain_codec_def codec_reversible_def)

section \<open>The wire format is canonical\<close>

lemma plain_flags:
  assumes "flags AND NOT knownFlags = 0" and "flags AND FlagEncrypted = 0"
  shows "flags = 0 \<or> flags = FlagText"
proof -
  have b: "n = 0" if "bit flags n" for n
  proof -
    from that assms have "\<not> bit (NOT knownFlags) n" "\<not> bit FlagEncrypted n"
      by (metis bit_0_eq bit_and_iff bot_apply bot_bool_def)+
    moreover from that have "n < 8" using bit_imp_le_length [of flags n] by simp
    then have "n \<in> set [0..<8]" by simp
    ultimately show "n = 0"
      by (simp add: upt_rec go_consts) (elim disjE; simp add: bit_simps)
  qed
  have "flags AND 1 = flags"
    by (rule bit_word_eqI) (auto simp: bit_simps dest: b)
  then show ?thesis
    by (metis FlagText_def and_one_eq of_bool_def mod_2_eq_odd)
qed

lemma take_frame:
  assumes "HeaderSize + k \<le> length src"
  shows "take (HeaderSize + k) src =
     put16 (get16 (src ! 0) (src ! 1)) @ [src ! 2, src ! 3] @ put16 (get16 (src ! 4) (src ! 5))
     @ put32 (get32 (src ! 6) (src ! 7) (src ! 8) (src ! 9)) @ take k (drop HeaderSize src)"
proof -
  have "take (HeaderSize + k) src = take HeaderSize src @ take k (drop HeaderSize src)"
    by (simp add: take_add)
  moreover have "take HeaderSize src = map (nth src) [0..<10]"
    using assms by (intro nth_equalityI) (simp_all add: go_consts)
  moreover have "[0..<10] = [0, 1, 2, 3, 4, 5, 6, 7, 8, 9 :: nat]" by (simp add: upt_rec)
  ultimately show ?thesis by simp
qed

lemma decode_canonical:
  assumes "codecCipher c = None" and "DecodeOne c src = Inr (m, n)"
  shows "Encode c rng m = Inr (take n src)"
proof -
  from assms(2) obtain flags a len where h: "get16 (src ! 0) (src ! 1) = Magic" "src ! 2 = Version"
    "flags = src ! 3" "a = get16 (src ! 4) (src ! 5)" "header_ok c flags a"
    "len = get32 (src ! 6) (src ! 7) (src ! 8) (src ! 9)" "len \<le> maxPayload c"
    "HeaderSize + unat len \<le> length src" "n = HeaderSize + unat len"
    "m = \<lparr>msgType = flag_kind flags, msgData = take (unat len) (drop HeaderSize src)\<rparr>" "Validate m = None"
    using assms(1) unfolding DecodeOne_Inr_iff by (auto simp: header_ok_def open_payload_def)
  have f: "flags = 0 \<or> flags = FlagText" and a: "a = AlgNone"
    using h(5) assms(1) plain_flags [of flags]
    by (auto simp: header_ok_def validateSemanticHeader_def split: if_splits)
  have k: "length (msgData m) = unat len" using h(8,10) by simp
  then have l: "length (msgData m) \<le> unat (maxPayload c)" using h(7) by (simp add: word_le_nat_alt)
  have "take n src = put_frame flags a (msgData m)"
    unfolding h(9) take_frame [OF h(8)] using h(1-4,6,10) k by (simp add: put_frame_def)
  with f a l h(10,11) assms(1) unat_le_max32 [of "maxPayload c"] show ?thesis
    by (auto simp: Encode_def go_consts not_less)
qed

section \<open>AES-GCM, and an AEAD to instantiate it with\<close>

definition toy_aead :: AEAD where
  "toy_aead = \<lparr>NonceSize = 2, aeadSeal = (\<lambda>n p aad. map (\<lambda>b. b XOR 0x5A) p @ [of_nat (length aad)]),
     aeadOpen = (\<lambda>n ct aad.
        if ct \<noteq> [] \<and> last ct = of_nat (length aad) then Inr (map (\<lambda>b. b XOR 0x5A) (butlast ct))
        else Inl (ErrorString ''message authentication failed''))\<rparr>"

definition toy_rng :: rng where
  "toy_rng n = (if n = 2 then Inr [7, 7] else Inl (ErrorString ''no entropy''))"

lemma toy_aead_law: "aead_law toy_aead"
  by (simp add: aead_law_def toy_aead_def o_def xor.assoc)

lemma toy_rng_ok: "rng_ok toy_rng"
  by (simp add: rng_ok_def toy_rng_def split: if_splits)

lemma reversible_aesGCM: "aead_law a \<Longrightarrow> reversible (aesGCM a)"
  by (auto simp: reversible_def rng_ok_def seal_with_def open_with_def aesGCM_def aesGCM_SealAAD_def
      aesGCM_OpenAAD_def aead_law_def split: sum.splits)

text \<open>Facts for evaluating the codec on concrete bytes.\<close>

lemmas codec_eval = DecodeOne_def Encode_def New_def go_consts get16_def get32_def put_frame_def put16_def
  put32_def maxPayload_def validateSemanticHeader_def open_payload_def Validate_def Bin_def Text_def
  seq_len_def seal_with_def aesGCM_def aesGCM_SealAAD_def semanticAAD_def b64_encode_def b64_char_def

section \<open>Properties\<close>

text \<open>
  C2. Wire round trip: with a cipher that is reversible, or none, every frame \<^verbatim>\<open>Encode\<close> produces is
  decoded by \<^verbatim>\<open>DecodeOne\<close> to the same message and consumes exactly the frame, whatever bytes follow;
  \<^verbatim>\<open>Decode\<close> accepts the frame alone; and every strict prefix of it, at any cut, gives \<^verbatim>\<open>ErrNeedMore\<close>.
\<close>

theorem wire_roundtrip:
  assumes "codec_reversible c" and "rng_ok rng" and "Encode c rng m = Inr f"
  shows "DecodeOne c (f @ rest) = Inr (m, length f) \<and> Decode c f = Inr m
     \<and> (\<forall>k < length f. DecodeOne c (take k f) = Inl (Sentinel ErrNeedMore))"
proof -
  note rt = codec_roundtrip [OF assms(1)]
  have enc: "\<exists>rng. rng_ok rng \<and> Encode c rng m = Inr f" using assms by blast
  then have "DecodeOne c f = Inr (m, length f)" by (rule framer_roundtrip.dec_enc [OF rt])
  with enc show ?thesis
    by (auto simp: Decode_def framer_roundtrip.dec_enc_append [OF rt] framer_roundtrip.dec_strict_prefix [OF rt])
qed

theorem wire_roundtrip_witness:
  "let c = New (Some (aesGCM toy_aead)); m = Text [104, 105];
       f = [0x4f, 0x47, 1, 3, 0, 1, 0, 0, 0, 7, 66, 119, 99, 121, 77, 119, 89] in
     Encode c toy_rng m = Inr f \<and> DecodeOne c (f @ [1, 2]) = Inr (m, 17)"
proof -
  let ?c = "New (Some (aesGCM toy_aead))"
  have "codec_reversible ?c"
    using toy_aead_law by (simp add: codec_reversible_def New_def reversible_aesGCM)
  moreover have "Encode ?c toy_rng (Text [104, 105]) =
      Inr [0x4f, 0x47, 1, 3, 0, 1, 0, 0, 0, 7, 66, 119, 99, 121, 77, 119, 89]"
    by (simp add: codec_eval toy_aead_def toy_rng_def)
  ultimately show ?thesis
    using wire_roundtrip [of ?c toy_rng "Text [104, 105]" _ "[1, 2]"] toy_rng_ok by simp
qed

text \<open>
  \<^verbatim>\<open>aesGCM\<close> is a reversible cipher: over an AEAD whose \<^verbatim>\<open>Open\<close> inverts \<^verbatim>\<open>Seal\<close> for nonces of the AEAD's
  nonce size, opening \<^verbatim>\<open>nonce || ciphertext\<close> recovers the plaintext for every plaintext and associated
  data, whatever nonce the random source supplied.
\<close>

lemma aesGCM_reversible:
  assumes "aead_law a"
  shows "reversible (aesGCM a)"
  using assms by (rule reversible_aesGCM)

text \<open>
  C22. The wire format without a cipher is canonical: a buffer that \<^verbatim>\<open>DecodeOne\<close> accepts starts with
  exactly the bytes \<^verbatim>\<open>Encode\<close> writes for the decoded message, so no two encodings carry one message.
\<close>

theorem wire_canonical:
  assumes "codecCipher c = None" and "DecodeOne c src = Inr (m, n)"
  shows "Encode c rng m = Inr (take n src)"
  using assms by (rule decode_canonical)

theorem wire_canonical_witness:
  "let src = [0x4f, 0x47, 1, 1, 0, 0, 0, 0, 0, 2, 104, 105, 99] in
     DecodeOne (New None) src = Inr (Text [104, 105], 12)
     \<and> Encode (New None) toy_rng (Text [104, 105]) = Inr (take 12 src)"
proof -
  have "DecodeOne (New None) [0x4f, 0x47, 1, 1, 0, 0, 0, 0, 0, 2, 104, 105, 99] = Inr (Text [104, 105], 12)"
    by (simp add: codec_eval)
  with wire_canonical [OF _ this] show ?thesis by (simp add: New_def)
qed

text \<open>
  C21. A successful \<^verbatim>\<open>DecodeOne\<close> honours the \<^verbatim>\<open>Framer\<close> contract and the configured limit: it consumes at
  least the header and at most the input, never more than the header plus \<^verbatim>\<open>MaxPayload\<close>, the message is
  valid and its data within \<^verbatim>\<open>MaxPayload\<close>, \<^verbatim>\<open>ParseHeader\<close> accepts the same header with the length that
  was consumed, and appending any bytes to the input leaves the result unchanged.
\<close>

theorem wire_decode_contract:
  assumes "DecodeOne c src = Inr (m, n)"
  shows "HeaderSize \<le> n \<and> n \<le> length src \<and> n \<le> HeaderSize + unat (maxPayload c)
     \<and> Validate m = None \<and> length (msgData m) \<le> unat (maxPayload c)
     \<and> (\<exists>h. ParseHeader src = Inr h \<and> n = HeaderSize + unat (hLength h))
     \<and> DecodeOne c (src @ x) = Inr (m, n)"
  using DecodeOne_Inr [OF assms] DecodeOne_extend [OF assms]
    assms [unfolded DecodeOne_Inr_iff]
  by (auto simp: ParseHeader_def Let_def header_ok_def)

theorem wire_decode_contract_witness:
  "DecodeOne (New None) [0x4f, 0x47, 1, 0, 0, 0, 0, 0, 0, 1, 255] = Inr (Bin [255], 11)
   \<and> DecodeOne (New None) ([0x4f, 0x47, 1, 0, 0, 0, 0, 0, 0, 1, 255] @ [0]) = Inr (Bin [255], 11)"
proof -
  have "DecodeOne (New None) [0x4f, 0x47, 1, 0, 0, 0, 0, 0, 0, 1, 255] = Inr (Bin [255], 11)"
    by (simp add: codec_eval)
  with wire_decode_contract [OF this, of "[0]"] show ?thesis by simp
qed

end
