(* ===== verification/Quota.thy ===== *)
theory Quota
  imports Error_Model
begin

text \<open>
  The byte budgets of queued data: a session's \<^verbatim>\<open>byteQuota\<close> (\<^verbatim>\<open>transport/quota.go\<close>) with the Engine-wide
  \<^verbatim>\<open>globalByteQuota\<close> as its parent (\<^verbatim>\<open>transport/limits.go\<close>). Every critical section is one function. The
  step relation \<open>qstep\<close> interleaves the critical sections of any number of requests on any number
  of sessions, including waiting on the broadcast channel \<^verbatim>\<open>changed\<close>; its invariant gives exact
  accounting, the bounds, and that no waiter misses a wake-up.
\<close>

section \<open>State\<close>

text \<open>
  The channel \<^verbatim>\<open>changed\<close> is \<open>Some c\<close> for the channel numbered \<open>c\<close> and \<open>None\<close> for nil. Closing it moves
  to the next number, so a channel is open exactly while it is the current one.
\<close>

record byteQuota =
  qlimit :: int
  qused :: int
  qchanged :: "nat option"
  qgen :: nat

record globalByteQuota = byteQuota +
  qrejected :: nat

definition newByteQuota :: "int \<Rightarrow> byteQuota" where
  "newByteQuota limit = \<lparr>qlimit = limit, qused = 0, qchanged = None, qgen = 0\<rparr>"

definition newGlobalByteQuota :: "int \<Rightarrow> globalByteQuota" where
  "newGlobalByteQuota limit =
     \<lparr>qlimit = limit, qused = 0, qchanged = None, qgen = 0, qrejected = 0\<rparr>"

section \<open>Critical sections\<close>

text \<open>One round of a blocking acquire: it succeeds, is refused, or waits on a channel.\<close>

datatype attempt = Acquired | Refused gerr | Blocked nat

definition wait_channel :: "'a byteQuota_scheme \<Rightarrow> nat" where
  "wait_channel q = (case qchanged q of Some c \<Rightarrow> c | None \<Rightarrow> qgen q)"

definition acquireLocal :: "byteQuota \<Rightarrow> int \<Rightarrow> attempt \<times> byteQuota" where
  "acquireLocal q n =
     (if n > qlimit q then (Refused (Sentinel ErrFrameExceedsQueueBudget), q)
      else if add64 (qused q) n \<le> qlimit q then (Acquired, q\<lparr>qused := add64 (qused q) n\<rparr>)
      else (Blocked (wait_channel q), q\<lparr>qchanged := Some (wait_channel q)\<rparr>))"

definition tryAcquireLocal :: "byteQuota \<Rightarrow> int \<Rightarrow> gerr option \<times> byteQuota" where
  "tryAcquireLocal q n =
     (if n > qlimit q then (Some (Sentinel ErrFrameExceedsQueueBudget), q)
      else if add64 (qused q) n > qlimit q then (Some (Sentinel ErrWouldBlock), q)
      else (None, q\<lparr>qused := add64 (qused q) n\<rparr>))"

definition releaseUsed :: "'a byteQuota_scheme \<Rightarrow> int \<Rightarrow> 'a byteQuota_scheme" where
  "releaseUsed q n =
     (let used = sub64 (qused q) n in
      q\<lparr>qused := (if used < 0 then 0 else used), qchanged := None,
        qgen := (if qchanged q = None then qgen q else Suc (qgen q))\<rparr>)"

definition releaseLocal :: "byteQuota \<Rightarrow> int \<Rightarrow> byteQuota" where
  "releaseLocal q n = (if n \<le> 0 then q else releaseUsed q n)"

text \<open>The parent is \<open>None\<close> when the pointer is nil.\<close>

definition globalAcquire ::
  "globalByteQuota option \<Rightarrow> int \<Rightarrow> attempt \<times> globalByteQuota option"
where
  "globalAcquire p n =
     (case p of None \<Rightarrow> (Acquired, p) | Some q \<Rightarrow>
      if qlimit q = 0 \<or> n = 0 then (Acquired, p)
      else if n > qlimit q then
        (Refused (LimitErr LimitQueuedBytes (qlimit q)), Some (q\<lparr>qrejected := qrejected q + 1\<rparr>))
      else if add64 (qused q) n \<le> qlimit q then (Acquired, Some (q\<lparr>qused := add64 (qused q) n\<rparr>))
      else (Blocked (wait_channel q), Some (q\<lparr>qchanged := Some (wait_channel q)\<rparr>)))"

definition globalTryAcquire ::
  "globalByteQuota option \<Rightarrow> int \<Rightarrow> gerr option \<times> globalByteQuota option"
where
  "globalTryAcquire p n =
     (case p of None \<Rightarrow> (None, p) | Some q \<Rightarrow>
      if qlimit q = 0 \<or> n = 0 then (None, p)
      else if n > qlimit q then
        (Some (LimitErr LimitQueuedBytes (qlimit q)), Some (q\<lparr>qrejected := qrejected q + 1\<rparr>))
      else if add64 (qused q) n > qlimit q then
        (Some (ErrorsJoin [Sentinel ErrWouldBlock, LimitErr LimitQueuedBytes (qlimit q)]),
         Some (q\<lparr>qrejected := qrejected q + 1\<rparr>))
      else (None, Some (q\<lparr>qused := add64 (qused q) n\<rparr>)))"

definition globalRelease :: "globalByteQuota option \<Rightarrow> int \<Rightarrow> globalByteQuota option" where
  "globalRelease p n =
     (case p of None \<Rightarrow> None | Some q \<Rightarrow>
      if qlimit q = 0 \<or> n \<le> 0 then p else Some (releaseUsed q n))"

definition globalCurrent :: "globalByteQuota option \<Rightarrow> int" where
  "globalCurrent p =
     (case p of None \<Rightarrow> 0 | Some q \<Rightarrow> if qlimit q = 0 then 0 else qused q)"

section \<open>The two levels together\<close>

text \<open>
  \<^verbatim>\<open>byteQuota.tryAcquire\<close> and \<^verbatim>\<open>byteQuota.release\<close> when no other goroutine runs between the two levels.
\<close>

definition tryAcquire ::
  "byteQuota \<times> globalByteQuota option \<Rightarrow> int \<Rightarrow> gerr option \<times> byteQuota \<times> globalByteQuota option"
where
  "tryAcquire qp n =
     (case qp of (q, p) \<Rightarrow>
      case tryAcquireLocal q n of
        (Some err, q') \<Rightarrow> (Some err, q', p)
      | (None, q') \<Rightarrow>
          (case globalTryAcquire p n of
             (Some err, p') \<Rightarrow> (Some err, releaseLocal q' n, p')
           | (None, p') \<Rightarrow> (None, q', p')))"

definition release ::
  "byteQuota \<times> globalByteQuota option \<Rightarrow> int \<Rightarrow> byteQuota \<times> globalByteQuota option"
where
  "release qp n = (case qp of (q, p) \<Rightarrow> (releaseLocal q n, globalRelease p n))"

section \<open>Interleaved requests\<close>

text \<open>
  Where a goroutine is inside \<^verbatim>\<open>acquire\<close> or \<^verbatim>\<open>tryAcquire\<close> (the local level, the parent, waiting at
  either, undoing the local level after a failure at the parent), between a successful acquire and
  \<^verbatim>\<open>release\<close>, inside \<^verbatim>\<open>release\<close>, and after either has returned.
\<close>

datatype pc = AcqLocal | WaitLocal nat | AcqGlobal | WaitGlobal nat | Undo gerr
  | Holding | RelGlobal | Returned "gerr option"

record req =
  rsession :: nat
  rn :: int
  rtry :: bool
  rpc :: pc

record qsys =
  locals :: "byteQuota list"
  parent :: "globalByteQuota option"
  reqs :: "req list"

text \<open>The next critical section of a request: the new local quota, parent and position.\<close>

fun micro :: "byteQuota \<Rightarrow> globalByteQuota option \<Rightarrow> bool \<Rightarrow> int \<Rightarrow> pc
    \<Rightarrow> byteQuota \<times> globalByteQuota option \<times> pc"
where
  "micro q p nb n AcqLocal =
     (if nb then (case tryAcquireLocal q n of
          (Some e, q') \<Rightarrow> (q', p, Returned (Some e)) | (None, q') \<Rightarrow> (q', p, AcqGlobal))
      else (case acquireLocal q n of
          (Acquired, q') \<Rightarrow> (q', p, AcqGlobal)
        | (Refused e, q') \<Rightarrow> (q', p, Returned (Some e))
        | (Blocked c, q') \<Rightarrow> (q', p, WaitLocal c)))"
| "micro q p nb n (WaitLocal c) = (q, p, if qchanged q = Some c then WaitLocal c else AcqLocal)"
| "micro q p nb n AcqGlobal =
     (if nb then (case globalTryAcquire p n of
          (Some e, p') \<Rightarrow> (q, p', Undo e) | (None, p') \<Rightarrow> (q, p', Holding))
      else (case globalAcquire p n of
          (Acquired, p') \<Rightarrow> (q, p', Holding)
        | (Refused e, p') \<Rightarrow> (q, p', Undo e)
        | (Blocked c, p') \<Rightarrow> (q, p', WaitGlobal c)))"
| "micro q p nb n (WaitGlobal c) =
     (q, p, if Option.bind p qchanged = Some c then WaitGlobal c else AcqGlobal)"
| "micro q p nb n (Undo e) = (releaseLocal q n, p, Returned (Some e))"
| "micro q p nb n Holding = (releaseLocal q n, p, RelGlobal)"
| "micro q p nb n RelGlobal = (q, globalRelease p n, Returned None)"
| "micro q p nb n (Returned r) = (q, p, Returned r)"

text \<open>\<^verbatim>\<open><-ctx.Done()\<close> or \<^verbatim>\<open><-closing\<close> in a wait.\<close>

fun cancel :: "gerr \<Rightarrow> pc \<Rightarrow> pc" where
  "cancel e (WaitLocal c) = Returned (Some e)"
| "cancel e (WaitGlobal c) = Undo e"
| "cancel e pc = pc"

definition run_req :: "qsys \<Rightarrow> nat \<Rightarrow> qsys" where
  "run_req s r =
     (let rq = reqs s ! r; i = rsession rq in
      case micro (locals s ! i) (parent s) (rtry rq) (rn rq) (rpc rq) of
        (q', p', pc') \<Rightarrow>
          s\<lparr>locals := (locals s)[i := q'], parent := p', reqs := (reqs s)[r := rq\<lparr>rpc := pc'\<rparr>]\<rparr>)"

definition cancel_req :: "qsys \<Rightarrow> nat \<Rightarrow> gerr \<Rightarrow> qsys" where
  "cancel_req s r e =
     s\<lparr>reqs := (reqs s)[r := (reqs s ! r)\<lparr>rpc := cancel e (rpc (reqs s ! r))\<rparr>]\<rparr>"

inductive qstep :: "qsys \<Rightarrow> qsys \<Rightarrow> bool" where
  new: "0 \<le> n \<Longrightarrow> n \<le> max_int64 \<Longrightarrow> i < length (locals s) \<Longrightarrow>
     qstep s (s\<lparr>reqs := reqs s @ [\<lparr>rsession = i, rn = n, rtry = nb, rpc = AcqLocal\<rparr>]\<rparr>)"
| run: "r < length (reqs s) \<Longrightarrow> qstep s (run_req s r)"
| cancelled: "r < length (reqs s) \<Longrightarrow> qstep s (cancel_req s r e)"

text \<open>Fresh quotas with limits whose double is an \<^verbatim>\<open>int64\<close>.\<close>

definition qinit :: "qsys \<Rightarrow> bool" where
  "qinit s \<longleftrightarrow> (\<exists>ls g. locals s = map newByteQuota ls \<and> parent s = map_option newGlobalByteQuota g
     \<and> reqs s = [] \<and> (\<forall>l \<in> set ls. 0 \<le> l \<and> 2 * l \<le> max_int64)
     \<and> (case g of None \<Rightarrow> True | Some l \<Rightarrow> 0 \<le> l \<and> 2 * l \<le> max_int64))"

section \<open>One level\<close>

text \<open>
  A level with total holdings \<open>H\<close> and the requests \<open>W\<close> (channel, bytes) that wait on it: the
  accounting is exact and within the limit, and a request whose channel is still open does not fit.
\<close>

definition level_ok :: "'a byteQuota_scheme \<Rightarrow> int \<Rightarrow> (nat \<times> int) set \<Rightarrow> bool" where
  "level_ok q H W \<longleftrightarrow>
     0 \<le> H \<and> H \<le> qlimit q \<and> 2 * qlimit q \<le> max_int64 \<and> qused q = H
     \<and> (qchanged q \<noteq> None \<longrightarrow> qchanged q = Some (qgen q))
     \<and> (\<forall>(c, n) \<in> W. (if qchanged q = None then c < qgen q else c \<le> qgen q)
          \<and> (qchanged q = Some c \<longrightarrow> qlimit q < H + n))"

lemma level_ok_rejected [simp]: "level_ok (q\<lparr>qrejected := r\<rparr>) H W = level_ok q H W"
  by (simp add: level_ok_def cong: if_cong)

lemma releaseUsed_limit [simp]: "qlimit (releaseUsed q n) = qlimit q"
  by (simp add: releaseUsed_def Let_def)

lemma level_mono: "level_ok q H W \<Longrightarrow> W' \<subseteq> W \<Longrightarrow> level_ok q H W'"
  by (auto simp: level_ok_def)

lemma level_waiter:
  "level_ok q H W \<Longrightarrow> (c, n) \<in> W \<Longrightarrow> qchanged q = Some c \<Longrightarrow> qlimit q < qused q + n"
  by (auto simp: level_ok_def)

lemma level_fits:
  assumes "level_ok q H W" and "0 \<le> n" and "n \<le> qlimit q"
  shows "add64 (qused q) n = H + n"
  using assms by (intro trans [OF add64_exact]) (auto simp: level_ok_def i64_def max_int64_def)

lemma level_add:
  "level_ok q H W \<Longrightarrow> 0 \<le> n \<Longrightarrow> H + n \<le> qlimit q \<Longrightarrow> level_ok (q\<lparr>qused := H + n\<rparr>) (H + n) W"
  by (auto simp: level_ok_def split: if_splits)

lemma level_wait:
  "level_ok q H W \<Longrightarrow> qlimit q < H + n \<Longrightarrow>
     level_ok (q\<lparr>qchanged := Some (wait_channel q)\<rparr>) H (insert (wait_channel q, n) W)"
  by (auto simp: level_ok_def wait_channel_def split: if_splits option.splits)

lemma level_sub:
  assumes "level_ok q H W" and "0 < n" and "n \<le> H"
  shows "level_ok (releaseUsed q n) (H - n) W"
proof -
  have "sub64 (qused q) n = H - n"
    using assms by (intro trans [OF sub64_exact]) (auto simp: level_ok_def i64_def max_int64_def)
  with assms show ?thesis
    by (auto simp: level_ok_def releaseUsed_def Let_def less_Suc_eq_le split: if_splits)
qed

section \<open>One request at one level\<close>

fun held_local :: "pc \<Rightarrow> int \<Rightarrow> int" where
  "held_local AcqGlobal n = n"
| "held_local (WaitGlobal c) n = n"
| "held_local (Undo e) n = n"
| "held_local Holding n = n"
| "held_local pc n = 0"

fun held_global :: "pc \<Rightarrow> int \<Rightarrow> int" where
  "held_global Holding n = n"
| "held_global RelGlobal n = n"
| "held_global pc n = 0"

fun wait_local :: "pc \<Rightarrow> int \<Rightarrow> (nat \<times> int) set" where
  "wait_local (WaitLocal c) n = {(c, n)}"
| "wait_local pc n = {}"

fun wait_global :: "pc \<Rightarrow> int \<Rightarrow> (nat \<times> int) set" where
  "wait_global (WaitGlobal c) n = {(c, n)}"
| "wait_global pc n = {}"

definition parent_ok :: "globalByteQuota option \<Rightarrow> int \<Rightarrow> (nat \<times> int) set \<Rightarrow> bool" where
  "parent_ok p H W \<longleftrightarrow>
     (case p of None \<Rightarrow> W = {} | Some q \<Rightarrow> if qlimit q = 0 then qused q = 0 \<and> W = {} else level_ok q H W)"

lemma releaseLocal_ok: "level_ok q H W \<Longrightarrow> 0 \<le> n \<Longrightarrow> n \<le> H \<Longrightarrow> level_ok (releaseLocal q n) (H - n) W"
  by (cases "n = 0") (auto simp: releaseLocal_def level_sub)

fun attempt_held :: "attempt \<Rightarrow> int \<Rightarrow> int" where
  "attempt_held Acquired n = n"
| "attempt_held a n = 0"

fun attempt_wait :: "attempt \<Rightarrow> int \<Rightarrow> (nat \<times> int) set" where
  "attempt_wait (Blocked c) n = {(c, n)}"
| "attempt_wait a n = {}"

lemma acquireLocal_ok:
  assumes "level_ok q H W" and "0 \<le> n" and "acquireLocal q n = (a, q')"
  shows "level_ok q' (H + attempt_held a n) (W \<union> attempt_wait a n)"
  using assms level_fits [OF assms(1,2)]
  by (auto simp: acquireLocal_def level_add level_wait not_le not_less split: if_splits)

lemma tryAcquireLocal_ok:
  assumes "level_ok q H W" and "0 \<le> n" and "tryAcquireLocal q n = (e, q')"
  shows "level_ok q' (H + (if e = None then n else 0)) W"
  using assms level_fits [OF assms(1,2)]
  by (auto simp: tryAcquireLocal_def level_add not_less split: if_splits)

lemma globalAcquire_ok:
  assumes "parent_ok p H W" and "0 \<le> n" and "globalAcquire p n = (a, p')"
  shows "parent_ok p' (H + attempt_held a n) (W \<union> attempt_wait a n)"
proof (cases p)
  case (Some q)
  show ?thesis
  proof (cases "qlimit q = 0 \<or> n = 0")
    case False
    then have "level_ok q H W" using assms(1) Some by (simp add: parent_ok_def)
    with False assms(2,3) Some level_fits [of q H W n] show ?thesis
      by (auto simp: globalAcquire_def parent_ok_def level_add level_wait not_le not_less
          split: if_splits)
  qed (use assms Some in \<open>auto simp: globalAcquire_def parent_ok_def\<close>)
qed (use assms in \<open>auto simp: globalAcquire_def parent_ok_def\<close>)

lemma globalTryAcquire_ok:
  assumes "parent_ok p H W" and "0 \<le> n" and "globalTryAcquire p n = (e, p')"
  shows "parent_ok p' (H + (if e = None then n else 0)) W"
proof (cases p)
  case (Some q)
  show ?thesis
  proof (cases "qlimit q = 0 \<or> n = 0")
    case False
    then have "level_ok q H W" using assms(1) Some by (simp add: parent_ok_def)
    with False assms(2,3) Some level_fits [of q H W n] show ?thesis
      by (auto simp: globalTryAcquire_def parent_ok_def level_add not_le not_less
          split: if_splits)
  qed (use assms Some in \<open>auto simp: globalTryAcquire_def parent_ok_def\<close>)
qed (use assms in \<open>auto simp: globalTryAcquire_def parent_ok_def\<close>)

lemma globalRelease_ok:
  assumes "parent_ok p H W" and "0 \<le> n" and "n \<le> H"
  shows "parent_ok (globalRelease p n) (H - n) W"
  using assms by (cases "n = 0") 
    (auto simp: globalRelease_def parent_ok_def level_sub split: option.splits if_splits)

lemma micro_local:
  assumes "level_ok q H W" and "0 \<le> n" and "held_local pc n \<le> H" and "wait_local pc n \<subseteq> W"
    and "micro q p nb n pc = (q', p', pc')"
  shows "level_ok q' (H - held_local pc n + held_local pc' n) (W \<union> wait_local pc' n)"
proof (cases pc)
  case AcqLocal
  show ?thesis
  proof (cases nb)
    case True
    obtain e q1 where "tryAcquireLocal q n = (e, q1)" by fastforce
    with tryAcquireLocal_ok [OF assms(1,2) this] assms(5) AcqLocal True show ?thesis
      by (cases e) auto
  next
    case False
    obtain a q1 where "acquireLocal q n = (a, q1)" by fastforce
    with acquireLocal_ok [OF assms(1,2) this] assms(5) AcqLocal False show ?thesis
      by (cases a) auto
  qed
qed (use assms in \<open>auto simp: releaseLocal_ok insert_absorb split: if_splits prod.splits option.splits attempt.splits\<close>)

lemma micro_global:
  assumes "parent_ok p H W" and "0 \<le> n" and "held_global pc n \<le> H" and "wait_global pc n \<subseteq> W"
    and "micro q p nb n pc = (q', p', pc')"
  shows "parent_ok p' (H - held_global pc n + held_global pc' n) (W \<union> wait_global pc' n)"
proof (cases pc)
  case AcqGlobal
  show ?thesis
  proof (cases nb)
    case True
    obtain e p1 where "globalTryAcquire p n = (e, p1)" by fastforce
    with globalTryAcquire_ok [OF assms(1,2) this] assms(5) AcqGlobal True show ?thesis
      by (cases e) auto
  next
    case False
    obtain a p1 where "globalAcquire p n = (a, p1)" by fastforce
    with globalAcquire_ok [OF assms(1,2) this] assms(5) AcqGlobal False show ?thesis
      by (cases a) auto
  qed
qed (use assms in \<open>auto simp: globalRelease_ok insert_absorb split: if_splits prod.splits option.splits attempt.splits\<close>)

section \<open>The invariant\<close>

definition local_total :: "qsys \<Rightarrow> nat \<Rightarrow> int" where
  "local_total s i = sum_list (map (\<lambda>rq. if rsession rq = i then held_local (rpc rq) (rn rq) else 0) (reqs s))"

definition global_total :: "qsys \<Rightarrow> int" where
  "global_total s = sum_list (map (\<lambda>rq. held_global (rpc rq) (rn rq)) (reqs s))"

definition local_waiters :: "qsys \<Rightarrow> nat \<Rightarrow> (nat \<times> int) set" where
  "local_waiters s i = (\<Union>rq \<in> {rq \<in> set (reqs s). rsession rq = i}. wait_local (rpc rq) (rn rq))"

definition global_waiters :: "qsys \<Rightarrow> (nat \<times> int) set" where
  "global_waiters s = (\<Union>rq \<in> set (reqs s). wait_global (rpc rq) (rn rq))"

definition qinv :: "qsys \<Rightarrow> bool" where
  "qinv s \<longleftrightarrow>
     (\<forall>rq \<in> set (reqs s). 0 \<le> rn rq \<and> rsession rq < length (locals s))
     \<and> (\<forall>i < length (locals s). level_ok (locals s ! i) (local_total s i) (local_waiters s i))
     \<and> parent_ok (parent s) (global_total s) (global_waiters s)"

lemma held_nonneg: "0 \<le> n \<Longrightarrow> 0 \<le> held_local pc n" "0 \<le> n \<Longrightarrow> 0 \<le> held_global pc n"
  by (cases pc; simp)+

lemma totals_ge:
  assumes "\<forall>rq \<in> set (reqs s). 0 \<le> rn rq" and "r < length (reqs s)"
  shows "held_local (rpc (reqs s ! r)) (rn (reqs s ! r)) \<le> local_total s (rsession (reqs s ! r))"
    and "held_global (rpc (reqs s ! r)) (rn (reqs s ! r)) \<le> global_total s"
proof -
  show "held_global (rpc (reqs s ! r)) (rn (reqs s ! r)) \<le> global_total s"
    unfolding global_total_def using assms
    by (intro sum_list_map_ge [where f = "\<lambda>rq. held_global (rpc rq) (rn rq)"]) (auto simp: held_nonneg)
  let ?f = "\<lambda>rq. if rsession rq = rsession (reqs s ! r) then held_local (rpc rq) (rn rq) else 0"
  have "?f (reqs s ! r) \<le> sum_list (map ?f (reqs s))"
    using assms by (intro sum_list_map_ge) (auto simp: held_nonneg)
  then show "held_local (rpc (reqs s ! r)) (rn (reqs s ! r)) \<le> local_total s (rsession (reqs s ! r))"
    by (simp add: local_total_def)
qed

text \<open>Moving one request to a new position.\<close>

definition move :: "qsys \<Rightarrow> nat \<Rightarrow> pc \<Rightarrow> req list" where
  "move s r pc = (reqs s)[r := (reqs s ! r)\<lparr>rpc := pc\<rparr>]"

lemma move_totals:
  assumes "r < length (reqs s)" and "rq = reqs s ! r"
  shows "local_total (s\<lparr>reqs := move s r pc, locals := l, parent := p\<rparr>) i = local_total s i +
       (if rsession rq = i then held_local pc (rn rq) - held_local (rpc rq) (rn rq) else 0)"
    and "global_total (s\<lparr>reqs := move s r pc, locals := l, parent := p\<rparr>) = global_total s - held_global (rpc rq) (rn rq) + held_global pc (rn rq)"
  using assms by (simp_all add: local_total_def global_total_def move_def sum_list_map_update)

lemma move_waiters:
  assumes "r < length (reqs s)" and "rq = reqs s ! r"
  shows "local_waiters (s\<lparr>reqs := move s r pc, locals := l, parent := p\<rparr>) i \<subseteq>
       local_waiters s i \<union> (if rsession rq = i then wait_local pc (rn rq) else {})"
    and "global_waiters (s\<lparr>reqs := move s r pc, locals := l, parent := p\<rparr>) \<subseteq> global_waiters s \<union> wait_global pc (rn rq)"
  using assms set_update_subset_insert [of "reqs s" r "rq\<lparr>rpc := pc\<rparr>"]
  by (fastforce simp: local_waiters_def global_waiters_def move_def)+

lemma run_req_eq:
  assumes "rq = reqs s ! r" and "micro (locals s ! rsession rq) (parent s) (rtry rq) (rn rq) (rpc rq) = (q', p', pc')"
  shows "run_req s r = s\<lparr>reqs := move s r pc', locals := (locals s)[rsession rq := q'], parent := p'\<rparr>"
  using assms by (simp add: run_req_def move_def Let_def)

lemma req_waiters:
  assumes "r < length (reqs s)"
  shows "wait_local (rpc (reqs s ! r)) (rn (reqs s ! r)) \<subseteq> local_waiters s (rsession (reqs s ! r))"
    and "wait_global (rpc (reqs s ! r)) (rn (reqs s ! r)) \<subseteq> global_waiters s"
  using nth_mem [OF assms] by (fastforce simp: local_waiters_def global_waiters_def)+

lemma move_reqs_ok:
  assumes "\<forall>rq \<in> set (reqs s). 0 \<le> rn rq \<and> rsession rq < k" and "r < length (reqs s)"
  shows "\<forall>rq \<in> set (move s r pc). 0 \<le> rn rq \<and> rsession rq < k"
  using assms set_update_subset_insert [of "reqs s" r] by (fastforce simp: move_def)

lemma parent_mono: "parent_ok p H W \<Longrightarrow> W' \<subseteq> W \<Longrightarrow> parent_ok p H W'"
  by (auto simp: parent_ok_def level_mono split: option.splits if_splits)

lemma qinv_run:
  assumes "qinv s" and r: "r < length (reqs s)"
  shows "qinv (run_req s r)"
proof -
  define rq where "rq = reqs s ! r"
  let ?i = "rsession rq"
  obtain q' p' pc' where m: "micro (locals s ! ?i) (parent s) (rtry rq) (rn rq) (rpc rq) = (q', p', pc')"
    by (metis prod_cases3)
  have ok: "0 \<le> rn rq" "?i < length (locals s)" and nonneg: "\<forall>rq \<in> set (reqs s). 0 \<le> rn rq"
    using assms by (auto simp: qinv_def rq_def)
  let ?t = "s\<lparr>reqs := move s r pc', locals := (locals s)[?i := q'], parent := p'\<rparr>"
  have "level_ok ((locals s)[?i := q'] ! j) (local_total ?t j) (local_waiters ?t j)"
    if "j < length (locals s)" for j
  proof (cases "j = ?i")
    case True
    have "level_ok q' (local_total s ?i - held_local (rpc rq) (rn rq) + held_local pc' (rn rq))
        (local_waiters s ?i \<union> wait_local pc' (rn rq))"
      using assms(1) ok totals_ge [OF nonneg r] req_waiters [OF r] m
      by (intro micro_local) (auto simp: qinv_def rq_def)
    moreover have "local_waiters ?t ?i \<subseteq> local_waiters s ?i \<union> wait_local pc' (rn rq)"
      using move_waiters(1) [OF r rq_def, where pc = pc' and i = ?i] by simp
    ultimately show ?thesis
      using True ok(2) by (auto simp: move_totals [OF r rq_def] algebra_simps intro: level_mono)
  next
    case False
    then have "local_waiters ?t j \<subseteq> local_waiters s j" "local_total ?t j = local_total s j"
      using move_waiters(1) [OF r rq_def, where pc = pc' and l = "(locals s)[?i := q']" and p = p' and i = j]
      by (simp_all add: move_totals(1) [OF r rq_def])
    with False assms(1) that show ?thesis by (auto simp: qinv_def intro: level_mono)
  qed
  moreover have "parent_ok p' (global_total ?t) (global_waiters ?t)"
  proof -
    have "parent_ok p' (global_total s - held_global (rpc rq) (rn rq) + held_global pc' (rn rq))
        (global_waiters s \<union> wait_global pc' (rn rq))"
      using assms(1) ok totals_ge [OF nonneg r] req_waiters [OF r] m
      by (intro micro_global) (auto simp: qinv_def rq_def)
    then show ?thesis
      using move_waiters(2) [OF r rq_def, where pc = pc'] by (auto simp: move_totals [OF r rq_def] intro: parent_mono)
  qed
  moreover have "\<forall>rq \<in> set (move s r pc'). 0 \<le> rn rq \<and> rsession rq < length (locals s)"
    using assms by (intro move_reqs_ok) (auto simp: qinv_def)
  ultimately show ?thesis
    unfolding run_req_eq [OF rq_def m] qinv_def by simp
qed

lemma cancel_keeps:
  "held_local (cancel e pc) n = held_local pc n" "held_global (cancel e pc) n = held_global pc n"
  "wait_local (cancel e pc) n \<subseteq> wait_local pc n" "wait_global (cancel e pc) n \<subseteq> wait_global pc n"
  by (cases pc; simp)+

lemma cancel_req_eq:
  "cancel_req s r e = s\<lparr>reqs := move s r (cancel e (rpc (reqs s ! r))), locals := locals s, parent := parent s\<rparr>"
  by (simp add: cancel_req_def move_def)

lemma qinv_cancel:
  assumes "qinv s" and r: "r < length (reqs s)"
  shows "qinv (cancel_req s r e)"
proof -
  let ?rq = "reqs s ! r" and ?t = "cancel_req s r e"
  have "local_total ?t i = local_total s i" "global_total ?t = global_total s" for i
    unfolding cancel_req_eq move_totals [OF r refl] by (simp_all add: cancel_keeps)
  moreover have "local_waiters ?t i \<subseteq> local_waiters s i" "global_waiters ?t \<subseteq> global_waiters s" for i
    using move_waiters [OF r refl, where pc = "cancel e (rpc ?rq)" and l = "locals s" and p = "parent s"]
      req_waiters [OF r] cancel_keeps(3,4) [of e "rpc ?rq" "rn ?rq"]
    unfolding cancel_req_eq by (fastforce split: if_splits)+
  moreover have "\<forall>rq \<in> set (reqs ?t). 0 \<le> rn rq \<and> rsession rq < length (locals s)"
    unfolding cancel_req_eq using assms by (auto simp: qinv_def dest: move_reqs_ok [rotated])
  moreover have "locals ?t = locals s" "parent ?t = parent s" by (simp_all add: cancel_req_def)
  ultimately show ?thesis
    using assms(1) unfolding qinv_def by simp (blast intro: level_mono parent_mono)
qed

lemma qinv_new:
  assumes "qinv s" and "0 \<le> n" and "i < length (locals s)"
  shows "qinv (s\<lparr>reqs := reqs s @ [\<lparr>rsession = i, rn = n, rtry = nb, rpc = AcqLocal\<rparr>]\<rparr>)"
proof -
  let ?t = "s\<lparr>reqs := reqs s @ [\<lparr>rsession = i, rn = n, rtry = nb, rpc = AcqLocal\<rparr>]\<rparr>"
  have "local_total ?t j = local_total s j" "global_total ?t = global_total s"
    "local_waiters ?t j = local_waiters s j" "global_waiters ?t = global_waiters s" for j
    by (auto simp: local_total_def global_total_def local_waiters_def global_waiters_def)
  with assms show ?thesis by (auto simp: qinv_def)
qed

lemma level_ok_new:
  "0 \<le> l \<Longrightarrow> 2 * l \<le> max_int64 \<Longrightarrow> level_ok (newByteQuota l) 0 {}"
  "0 \<le> l \<Longrightarrow> 2 * l \<le> max_int64 \<Longrightarrow> parent_ok (Some (newGlobalByteQuota l)) 0 {}"
  by (simp_all add: level_ok_def parent_ok_def newByteQuota_def newGlobalByteQuota_def)

lemma qinv_init: "qinit s \<Longrightarrow> qinv s"
  unfolding qinit_def qinv_def local_total_def global_total_def local_waiters_def global_waiters_def
  by (elim exE conjE, rename_tac ls g, case_tac g) (simp_all add: level_ok_new parent_ok_def [of None])

lemma qinv_qstep: "qinv s \<Longrightarrow> qstep s t \<Longrightarrow> qinv t"
  by (auto elim!: qstep.cases intro: qinv_new qinv_run qinv_cancel)

interpretation quota: invariant_system qinit qstep qinv
  by unfold_locales (auto intro: qinv_init qinv_qstep)

section \<open>Properties\<close>

lemma total_returned:
  assumes "\<forall>rq \<in> set (reqs s). \<exists>x. rpc rq = Returned x"
  shows "local_total s i = 0" and "global_total s = 0"
proof -
  have "held_local (rpc rq) (rn rq) = 0" "held_global (rpc rq) (rn rq) = 0" if "rq \<in> set (reqs s)" for rq
    using assms that by fastforce+
  then show "local_total s i = 0" "global_total s = 0"
    unfolding local_total_def global_total_def by (simp_all add: sum_list_map_zero)
qed

text \<open>
  C4. Under every interleaving of blocking and non-blocking acquires, cancellations and releases on
  any number of sessions, each session's \<^verbatim>\<open>used\<close> is exactly the bytes its requests hold and stays
  within \<^verbatim>\<open>0..limit\<close>; so does the Engine-wide \<^verbatim>\<open>used\<close> when it has a limit; and when every request has
  returned, nothing is left accounted: no path leaks or double-releases budget.
\<close>

theorem quota_exact:
  assumes "reachable qinit qstep s"
  shows "(\<forall>i < length (locals s). qused (locals s ! i) = local_total s i
            \<and> 0 \<le> local_total s i \<and> local_total s i \<le> qlimit (locals s ! i))
     \<and> (case parent s of None \<Rightarrow> True | Some q \<Rightarrow>
          qlimit q \<noteq> 0 \<longrightarrow> qused q = global_total s \<and> 0 \<le> qused q \<and> qused q \<le> qlimit q)
     \<and> ((\<forall>rq \<in> set (reqs s). \<exists>x. rpc rq = Returned x) \<longrightarrow>
          (\<forall>i < length (locals s). qused (locals s ! i) = 0) \<and> globalCurrent (parent s) = 0)"
  using quota.reachable_inv [OF assms] total_returned [of s]
  by (auto simp: qinv_def level_ok_def parent_ok_def globalCurrent_def split: option.splits if_splits)

text \<open>
  C10. No lost wake-up: a request that waits on a channel which is still open could not be admitted,
  at the session level and at the Engine level. A release that makes room closes the channel.
\<close>

theorem quota_no_lost_wakeup:
  assumes "reachable qinit qstep s" and "r < length (reqs s)" and "rq = reqs s ! r"
  shows "(rpc rq = WaitLocal c \<and> qchanged (locals s ! rsession rq) = Some c \<longrightarrow>
            qlimit (locals s ! rsession rq) < qused (locals s ! rsession rq) + rn rq)
     \<and> (rpc rq = WaitGlobal c \<and> parent s = Some g \<and> qchanged g = Some c \<longrightarrow>
            qlimit g < qused g + rn rq)"
proof -
  have inv: "qinv s" by (rule quota.reachable_inv [OF assms(1)])
  then have "rsession rq < length (locals s)" using assms(2,3) by (auto simp: qinv_def)
  moreover have "rpc rq = WaitLocal c \<Longrightarrow> (c, rn rq) \<in> local_waiters s (rsession rq)"
    "rpc rq = WaitGlobal c \<Longrightarrow> (c, rn rq) \<in> global_waiters s"
    using req_waiters [OF assms(2)] assms(3) by auto
  ultimately show ?thesis
    using inv by (auto simp: qinv_def parent_ok_def split: if_splits intro: level_waiter)
qed

text \<open>A run with one session of limit 10 under an Engine limit of 8 that reaches a waiting request.\<close>

definition qdemo :: "pc \<Rightarrow> pc \<Rightarrow> qsys" where
  "qdemo a b =
     \<lparr>locals = [\<lparr>qlimit = 10, qused = 6, qchanged = (if b = WaitLocal 0 then Some 0 else None), qgen = 0\<rparr>],
      parent = Some (newGlobalByteQuota 8\<lparr>qused := (if a = Holding then 6 else 0)\<rparr>),
      reqs = [\<lparr>rsession = 0, rn = 6, rtry = False, rpc = a\<rparr>, \<lparr>rsession = 0, rn = 7, rtry = False, rpc = b\<rparr>]\<rparr>"

lemma qdemo_reachable: "reachable qinit qstep (qdemo Holding (WaitLocal 0))"
proof -
  let ?s0 = "\<lparr>locals = [newByteQuota 10], parent = Some (newGlobalByteQuota 8), reqs = []\<rparr>"
  let ?s1 = "?s0\<lparr>reqs := [\<lparr>rsession = 0, rn = 6, rtry = False, rpc = AcqLocal\<rparr>]\<rparr>"
  let ?s2 = "?s0\<lparr>reqs := reqs ?s1 @ [\<lparr>rsession = 0, rn = 7, rtry = False, rpc = AcqLocal\<rparr>]\<rparr>"
  note eval = run_req_def qdemo_def acquireLocal_def globalAcquire_def newByteQuota_def
    newGlobalByteQuota_def add64_def wrap64_def wait_channel_def
  have "qinit ?s0"
    unfolding qinit_def by (intro exI [of _ "[10]"] exI [of _ "Some 8"]) (simp add: max_int64_def)
  then have r0: "reachable qinit qstep ?s0" by (rule reach_init)
  have "qstep ?s0 ?s1" using qstep.new [of 6 0 ?s0 False] by (simp add: max_int64_def)
  note r1 = reach_step [OF r0 this]
  have "qstep ?s1 ?s2" using qstep.new [of 7 0 ?s1 False] by (simp add: max_int64_def)
  note r2 = reach_step [OF r1 this]
  have "qstep ?s2 (qdemo AcqGlobal AcqLocal)" using qstep.run [of 0 ?s2] by (simp add: eval)
  note r3 = reach_step [OF r2 this]
  have "qstep (qdemo AcqGlobal AcqLocal) (qdemo Holding AcqLocal)"
    using qstep.run [of 0 "qdemo AcqGlobal AcqLocal"] by (simp add: eval)
  note r4 = reach_step [OF r3 this]
  have "qstep (qdemo Holding AcqLocal) (qdemo Holding (WaitLocal 0))"
    using qstep.run [of 1 "qdemo Holding AcqLocal"] by (simp add: eval)
  then show ?thesis by (rule reach_step [OF r4])
qed

theorem quota_exact_witness:
  "\<exists>s. reachable qinit qstep s \<and> local_total s 0 = 6 \<and> qused (locals s ! 0) = 6 \<and> globalCurrent (parent s) = 6"
  using quota_exact [OF qdemo_reachable] qdemo_reachable
  by (intro exI [of _ "qdemo Holding (WaitLocal 0)"])
     (simp add: qdemo_def local_total_def globalCurrent_def newGlobalByteQuota_def)

theorem quota_no_lost_wakeup_witness:
  "\<exists>s. reachable qinit qstep s \<and> rpc (reqs s ! 1) = WaitLocal 0 \<and> qchanged (locals s ! 0) = Some 0
     \<and> qlimit (locals s ! 0) < qused (locals s ! 0) + rn (reqs s ! 1)"
  using quota_no_lost_wakeup [OF qdemo_reachable, of 1 _ 0] qdemo_reachable
  by (intro exI [of _ "qdemo Holding (WaitLocal 0)"]) (simp add: qdemo_def)

end
