(* ===== verification/Session_State.thy ===== *)
theory Session_State
  imports Ogre_Prelude
begin

text \<open>
  The two small state machines every session owns: the send gate (\<^verbatim>\<open>transport/gate.go\<close>) that counts
  senders and closes its drained channel once, and the lifecycle (\<^verbatim>\<open>transport/lifecycle.go\<close>) that
  serialises close goals, elects the one terminal owner and signals it through six channels. Each
  mutex section and each \<^verbatim>\<open>Once.Do\<close> is a step; any number of goroutines interleave.
\<close>

section \<open>The send gate\<close>

text \<open>\<open>drained\<close> is whether the channel of that name is closed.\<close>

record sendGate =
  gclosed :: bool
  gactive :: int
  gdrained :: bool

definition newSendGate :: sendGate where
  "newSendGate = \<lparr>gclosed = False, gactive = 0, gdrained = False\<rparr>"

definition gate_enter :: "sendGate \<Rightarrow> bool \<times> sendGate" where
  "gate_enter g = (if gclosed g then (False, g) else (True, g\<lparr>gactive := gactive g + 1\<rparr>))"

text \<open>Closing a closed channel panics: \<open>None\<close>.\<close>

definition close_drained :: "sendGate \<Rightarrow> sendGate option" where
  "close_drained g = (if gdrained g then None else Some (g\<lparr>gdrained := True\<rparr>))"

definition gate_leave :: "sendGate \<Rightarrow> sendGate option" where
  "gate_leave g =
     (let g' = g\<lparr>gactive := gactive g - 1\<rparr> in
      if gclosed g' \<and> gactive g' = 0 then close_drained g' else Some g')"

definition gate_close :: "sendGate \<Rightarrow> sendGate option" where
  "gate_close g =
     (if gclosed g then Some g
      else let g' = g\<lparr>gclosed := True\<rparr> in
        if gactive g' = 0 then close_drained g' else Some g')"

text \<open>
  Any number of goroutines: \<open>inside\<close> of them have entered and not left. \<open>gpanic\<close> records a panic.
\<close>

record gsys =
  ggate :: sendGate
  inside :: nat
  gpanic :: bool

definition ginit :: "gsys \<Rightarrow> bool" where
  "ginit s \<longleftrightarrow> s = \<lparr>ggate = newSendGate, inside = 0, gpanic = False\<rparr>"

definition gate_result :: "gsys \<Rightarrow> nat \<Rightarrow> sendGate option \<Rightarrow> gsys" where
  "gate_result s k r =
     (case r of None \<Rightarrow> s\<lparr>gpanic := True\<rparr> | Some g \<Rightarrow> s\<lparr>ggate := g, inside := k\<rparr>)"

inductive gstep :: "gsys \<Rightarrow> gsys \<Rightarrow> bool" where
  enter: "gate_enter (ggate s) = (ok, g) \<Longrightarrow>
     gstep s (s\<lparr>ggate := g, inside := (if ok then inside s + 1 else inside s)\<rparr>)"
| leave: "0 < inside s \<Longrightarrow> gstep s (gate_result s (inside s - 1) (gate_leave (ggate s)))"
| close: "gstep s (gate_result s (inside s) (gate_close (ggate s)))"

section \<open>The session lifecycle\<close>

datatype closeGoal = closeGoalRunning | closeGoalWrite | closeGoalFull | closeGoalAbort

datatype abortReason = abortNone | abortExplicit | abortCaller | abortFailure

text \<open>The order of the constants of \<^verbatim>\<open>closeGoal\<close>.\<close>

fun goal_rank :: "closeGoal \<Rightarrow> nat" where
  "goal_rank closeGoalRunning = 0"
| "goal_rank closeGoalWrite = 1"
| "goal_rank closeGoalFull = 2"
| "goal_rank closeGoalAbort = 3"

lemma goal_rank_inject [simp]: "goal_rank a = goal_rank b \<longleftrightarrow> a = b"
  by (cases a; cases b) simp_all

instantiation closeGoal :: linorder
begin

definition less_eq_closeGoal :: "closeGoal \<Rightarrow> closeGoal \<Rightarrow> bool" where
  "a \<le> b \<longleftrightarrow> goal_rank a \<le> goal_rank b"

definition less_closeGoal :: "closeGoal \<Rightarrow> closeGoal \<Rightarrow> bool" where
  "a < b \<longleftrightarrow> goal_rank a < goal_rank b"

instance
  by standard (auto simp: less_eq_closeGoal_def less_closeGoal_def)

end

lemmas goal_order = less_eq_closeGoal_def less_closeGoal_def

lemma goal_le_abort [simp]: "g \<le> closeGoalAbort"
  by (cases g) (simp_all add: goal_order)

datatype signal = writeReq | fullReq | abortCh | readCh | writeCh | termCh

text \<open>\<open>signalled c\<close> is whether the channel \<open>c\<close> is closed; its \<^verbatim>\<open>Once\<close> makes closing idempotent.\<close>

record sessionLifecycle =
  goal :: closeGoal
  why :: abortReason
  terminal :: bool
  signalled :: "signal \<Rightarrow> bool"

definition newSessionLifecycle :: sessionLifecycle where
  "newSessionLifecycle =
     \<lparr>goal = closeGoalRunning, why = abortNone, terminal = False, signalled = (\<lambda>_. False)\<rparr>"

definition close_once :: "signal \<Rightarrow> sessionLifecycle \<Rightarrow> sessionLifecycle" where
  "close_once c l = l\<lparr>signalled := (signalled l)(c := True)\<rparr>"

text \<open>
  Each operation is its mutex section, giving the result, the new state and the channels it closes
  after unlocking, in order.
\<close>

definition requestWithPrevious_locked ::
  "sessionLifecycle \<Rightarrow> closeGoal \<Rightarrow> (bool \<times> closeGoal) \<times> sessionLifecycle \<times> signal list"
where
  "requestWithPrevious_locked l g =
     (if g \<le> closeGoalRunning \<or> g \<ge> closeGoalAbort then ((False, closeGoalRunning), l, [])
      else if terminal l \<or> goal l \<ge> g then ((False, goal l), l, [])
      else ((True, goal l), l\<lparr>goal := g\<rparr>, writeReq # (if g \<ge> closeGoalFull then [fullReq] else [])))"

definition abortWith_locked ::
  "sessionLifecycle \<Rightarrow> abortReason \<Rightarrow> bool \<times> sessionLifecycle \<times> signal list"
where
  "abortWith_locked l reason =
     (if terminal l \<or> goal l = closeGoalAbort then (False, l, [])
      else (True, l\<lparr>goal := closeGoalAbort, why := reason\<rparr>, [writeReq, fullReq, abortCh, readCh, writeCh]))"

definition markTerminalChannels :: "signal list" where
  "markTerminalChannels = [readCh, writeCh, termCh]"

definition tryMarkTerminal_locked :: "sessionLifecycle \<Rightarrow> bool \<times> sessionLifecycle \<times> signal list" where
  "tryMarkTerminal_locked l =
     (if terminal l \<or> goal l = closeGoalAbort then (False, l, [])
      else (True, l\<lparr>terminal := True\<rparr>, markTerminalChannels))"

definition markTerminal_locked :: "sessionLifecycle \<Rightarrow> sessionLifecycle \<times> signal list" where
  "markTerminal_locked l = (l\<lparr>terminal := True\<rparr>, markTerminalChannels)"

text \<open>The whole operations, when nothing interleaves after the mutex section.\<close>

definition close_all :: "signal list \<Rightarrow> sessionLifecycle \<Rightarrow> sessionLifecycle" where
  "close_all cs l = fold close_once cs l"

definition requestWithPrevious :: "sessionLifecycle \<Rightarrow> closeGoal \<Rightarrow> (bool \<times> closeGoal) \<times> sessionLifecycle" where
  "requestWithPrevious l g =
     (case requestWithPrevious_locked l g of (r, l', cs) \<Rightarrow> (r, close_all cs l'))"

definition request :: "sessionLifecycle \<Rightarrow> closeGoal \<Rightarrow> bool \<times> sessionLifecycle" where
  "request l g = (case requestWithPrevious l g of ((owner, _), l') \<Rightarrow> (owner, l'))"

definition life_abort :: "sessionLifecycle \<Rightarrow> abortReason \<Rightarrow> bool \<times> sessionLifecycle" where
  "life_abort l reason = (case abortWith_locked l reason of (won, l', cs) \<Rightarrow> (won, close_all cs l'))"

definition markReadClosed :: "sessionLifecycle \<Rightarrow> sessionLifecycle" where
  "markReadClosed = close_once readCh"

definition markWriteClosed :: "sessionLifecycle \<Rightarrow> sessionLifecycle" where
  "markWriteClosed = close_once writeCh"

definition tryMarkTerminal :: "sessionLifecycle \<Rightarrow> bool \<times> sessionLifecycle" where
  "tryMarkTerminal l = (case tryMarkTerminal_locked l of (won, l', cs) \<Rightarrow> (won, close_all cs l'))"

definition markTerminal :: "sessionLifecycle \<Rightarrow> sessionLifecycle" where
  "markTerminal l = (case markTerminal_locked l of (l', cs) \<Rightarrow> close_all cs l')"

text \<open>
  Goroutines that still have channels to close are the lists in \<open>todo\<close>. \<open>owners\<close> lists the goals
  granted, in order, and \<open>winners\<close> the calls that won the terminal decision.
\<close>

datatype winner = AbortWon abortReason | GracefulWon

record lsys =
  life :: sessionLifecycle
  todo :: "signal list list"
  owners :: "closeGoal list"
  winners :: "winner list"

definition linit :: "lsys \<Rightarrow> bool" where
  "linit s \<longleftrightarrow> s = \<lparr>life = newSessionLifecycle, todo = [], owners = [], winners = []\<rparr>"

inductive lstep :: "lsys \<Rightarrow> lsys \<Rightarrow> bool" where
  request: "requestWithPrevious_locked (life s) g = ((owner, prev), l, cs) \<Longrightarrow>
     lstep s (s\<lparr>life := l, todo := todo s @ [cs], owners := owners s @ (if owner then [g] else [])\<rparr>)"
| abort: "abortWith_locked (life s) reason = (won, l, cs) \<Longrightarrow>
     lstep s (s\<lparr>life := l, todo := todo s @ [cs],
       winners := winners s @ (if won then [AbortWon reason] else [])\<rparr>)"
| try_terminal: "tryMarkTerminal_locked (life s) = (won, l, cs) \<Longrightarrow>
     lstep s (s\<lparr>life := l, todo := todo s @ [cs],
       winners := winners s @ (if won then [GracefulWon] else [])\<rparr>)"
| mark_terminal: "markTerminal_locked (life s) = (l, cs) \<Longrightarrow>
     lstep s (s\<lparr>life := l, todo := todo s @ [cs]\<rparr>)"
| mark_read: "lstep s (s\<lparr>life := markReadClosed (life s)\<rparr>)"
| mark_write: "lstep s (s\<lparr>life := markWriteClosed (life s)\<rparr>)"
| signal: "k < length (todo s) \<Longrightarrow> todo s ! k = c # cs \<Longrightarrow>
     lstep s (s\<lparr>life := close_once c (life s), todo := (todo s)[k := cs]\<rparr>)"

section \<open>Gate: exactly one drain, no panic\<close>

definition ginv :: "gsys \<Rightarrow> bool" where
  "ginv s \<longleftrightarrow> \<not> gpanic s \<and> gactive (ggate s) = int (inside s)
     \<and> (gdrained (ggate s) \<longleftrightarrow> gclosed (ggate s) \<and> inside s = 0)"

lemmas gate_defs = gate_enter_def gate_leave_def gate_close_def close_drained_def gate_result_def Let_def

interpretation gate: invariant_system ginit gstep ginv
proof
  show "ginv s" if "ginit s" for s
    using that by (simp add: ginit_def ginv_def newSendGate_def)
  show "ginv t" if "ginv s" "gstep s t" for s t
    using that(2,1) by cases (auto simp: ginv_def gate_defs split: if_splits)
qed

text \<open>
  C12. Send gate: under every interleaving of \<^verbatim>\<open>enter\<close>, \<^verbatim>\<open>leave\<close> and \<^verbatim>\<open>close\<close>, the drained channel is closed
  at most once (no call panics), it is closed exactly when the gate is closed and no sender is
  inside, and from then on no sender ever gets in again.
\<close>

theorem gate_drains_once:
  assumes "reachable ginit gstep s"
  shows "\<not> gpanic s \<and> (gdrained (ggate s) \<longleftrightarrow> gclosed (ggate s) \<and> inside s = 0)
     \<and> (gdrained (ggate s) \<longrightarrow> gstep s t \<longrightarrow> inside t = 0 \<and> gdrained (ggate t))"
  using gate.reachable_inv [OF assms]
  by (auto simp: ginv_def gate_defs elim!: gstep.cases split: if_splits)

theorem gate_drains_once_witness:
  "\<exists>s t. reachable ginit gstep s \<and> gstep s t \<and> gdrained (ggate s) \<and> inside t = 0"
proof -
  let ?s0 = "\<lparr>ggate = newSendGate, inside = 0, gpanic = False\<rparr>"
  let ?g = "newSendGate\<lparr>gclosed := True, gdrained := True\<rparr>"
  let ?s1 = "\<lparr>ggate = ?g, inside = 0, gpanic = False\<rparr>"
  have "reachable ginit gstep ?s0" by (rule reach_init) (simp add: ginit_def)
  moreover have "gstep ?s0 ?s1"
    using gstep.close [of ?s0] by (simp add: gate_defs newSendGate_def)
  ultimately have r: "reachable ginit gstep ?s1" by (rule reach_step)
  moreover have "gstep ?s1 ?s1"
    using gstep.enter [of ?s1 False ?g] by (simp add: gate_enter_def)
  ultimately show ?thesis
    using gate_drains_once [OF r, of ?s1] by (intro exI [of _ ?s1]) simp
qed

section \<open>Lifecycle: one owner per goal, one terminal decision\<close>

text \<open>A channel is announced when it is closed or some goroutine is about to close it.\<close>

definition announced :: "lsys \<Rightarrow> signal \<Rightarrow> bool" where
  "announced s c \<longleftrightarrow> signalled (life s) c \<or> (\<exists>cs \<in> set (todo s). c \<in> set cs)"

definition announced_ok :: "lsys \<Rightarrow> bool" where
  "announced_ok s \<longleftrightarrow>
     (announced s writeReq \<longleftrightarrow> goal (life s) \<noteq> closeGoalRunning)
     \<and> (announced s fullReq \<longleftrightarrow> goal (life s) = closeGoalFull \<or> goal (life s) = closeGoalAbort)
     \<and> (announced s abortCh \<longleftrightarrow> goal (life s) = closeGoalAbort)
     \<and> (announced s termCh \<longleftrightarrow> terminal (life s))
     \<and> (goal (life s) = closeGoalAbort \<or> terminal (life s) \<longrightarrow> announced s readCh \<and> announced s writeCh)"

definition winners_ok :: "lsys \<Rightarrow> bool" where
  "winners_ok s \<longleftrightarrow>
     (if goal (life s) = closeGoalAbort then winners s = [AbortWon (why (life s))]
      else winners s = [] \<and> why (life s) = abortNone
        \<or> winners s = [GracefulWon] \<and> why (life s) = abortNone \<and> terminal (life s))"

definition owners_ok :: "lsys \<Rightarrow> bool" where
  "owners_ok s \<longleftrightarrow> sorted_wrt (<) (owners s)
     \<and> (\<forall>g \<in> set (owners s). closeGoalRunning < g \<and> g < closeGoalAbort \<and> g \<le> goal (life s))"

definition linv :: "lsys \<Rightarrow> bool" where
  "linv s \<longleftrightarrow> announced_ok s \<and> winners_ok s \<and> owners_ok s"

lemma bex_update:
  "k < length xs \<Longrightarrow> (\<exists>x \<in> set (xs[k := y]). P x) \<or> P (xs ! k) \<longleftrightarrow> (\<exists>x \<in> set xs. P x) \<or> P y"
proof (induction xs arbitrary: k)
  case (Cons a xs)
  then show ?case by (cases k) auto
qed simp

lemma announced_signal:
  assumes "k < length (todo s)" and "todo s ! k = c # cs"
  shows "announced (s\<lparr>life := close_once c (life s), todo := (todo s)[k := cs]\<rparr>) d = announced s d"
proof (cases "d = c")
  case True
  with nth_mem [OF assms(1)] assms(2) show ?thesis by (force simp: announced_def close_once_def)
next
  case False
  have "d \<in> set cs \<Longrightarrow> \<exists>x \<in> set ((todo s)[k := cs]). d \<in> set x"
    using set_update_memI [OF assms(1), of cs] by blast
  moreover have "d \<in> set cs \<Longrightarrow> \<exists>x \<in> set (todo s). d \<in> set x"
    using nth_mem [OF assms(1)] unfolding assms(2) by (metis list.set_intros(2))
  ultimately have "(\<exists>x \<in> set ((todo s)[k := cs]). d \<in> set x) \<longleftrightarrow> (\<exists>x \<in> set (todo s). d \<in> set x)"
    using bex_update [OF assms(1), of cs "\<lambda>x. d \<in> set x"] assms(2) False by auto
  with False show ?thesis by (simp add: announced_def close_once_def)
qed

lemmas life_defs = requestWithPrevious_locked_def abortWith_locked_def tryMarkTerminal_locked_def
  markTerminal_locked_def markTerminalChannels_def markReadClosed_def markWriteClosed_def

lemma announced_more:
  "signalled (life t) = signalled (life s) \<Longrightarrow> todo t = todo s @ [cs] \<Longrightarrow>
     announced t = (\<lambda>c. announced s c \<or> c \<in> set cs)"
  by (auto simp: announced_def fun_eq_iff)

lemma announced_mark:
  "announced (s\<lparr>life := close_once d (life s)\<rparr>) = (\<lambda>c. announced s c \<or> c = d)"
  by (auto simp: announced_def close_once_def fun_eq_iff)

lemma announced_ok_lstep:
  assumes "lstep s t" and "announced_ok s"
  shows "announced_ok t"
  using assms(1)
proof cases
  case (request g owner prev l cs)
  then have "announced t = (\<lambda>c. announced s c \<or> c \<in> set cs)"
    by (intro announced_more) (auto simp: life_defs split: if_splits)
  with request assms(2) show ?thesis
    by (cases g; cases "goal (life s)") (auto simp: announced_ok_def life_defs goal_order split: if_splits)
next
  case (abort reason won l cs)
  then have "announced t = (\<lambda>c. announced s c \<or> c \<in> set cs)"
    by (intro announced_more) (auto simp: life_defs split: if_splits)
  with abort assms(2) show ?thesis by (auto simp: announced_ok_def life_defs split: if_splits)
next
  case (try_terminal won l cs)
  then have "announced t = (\<lambda>c. announced s c \<or> c \<in> set cs)"
    by (intro announced_more) (auto simp: life_defs split: if_splits)
  with try_terminal assms(2) show ?thesis by (auto simp: announced_ok_def life_defs split: if_splits)
next
  case (mark_terminal l cs)
  then have "announced t = (\<lambda>c. announced s c \<or> c \<in> set cs)"
    by (intro announced_more) (auto simp: life_defs)
  moreover have "goal (life t) = goal (life s)" "terminal (life t)" "cs = [readCh, writeCh, termCh]"
    using mark_terminal by (auto simp: life_defs)
  ultimately show ?thesis using assms(2) by (simp add: announced_ok_def)
next
  case (signal k c cs)
  then show ?thesis
    using assms(2) announced_signal [of k s c cs] by (simp add: announced_ok_def close_once_def)
qed (use assms(2) in \<open>simp_all add: announced_ok_def life_defs announced_mark\<close>, simp_all add: close_once_def)

lemma winners_ok_lstep: "lstep s t \<Longrightarrow> winners_ok s \<Longrightarrow> winners_ok t"
  by (erule lstep.cases) (auto simp: winners_ok_def life_defs close_once_def split: if_splits)

lemma owners_ok_lstep:
  assumes "lstep s t" and "owners_ok s"
  shows "owners_ok t"
  using assms(1)
proof cases
  case (request g owner prev l cs)
  show ?thesis
  proof (cases owner)
    case True
    then have g: "goal (life s) < g" "closeGoalRunning < g" "g < closeGoalAbort" "goal l = g"
      using request by (auto simp: life_defs split: if_splits)
    then have "\<forall>x \<in> set (owners s). x < g" using assms(2) by (auto simp: owners_ok_def)
    with True g request assms(2) show ?thesis by (auto simp: owners_ok_def sorted_wrt_append)
  qed (use request assms(2) in \<open>auto simp: owners_ok_def life_defs split: if_splits\<close>)
next
  case (abort reason won l cs)
  then have "goal l = closeGoalAbort \<or> l = life s" by (auto simp: life_defs split: if_splits)
  with abort assms(2) show ?thesis by (auto simp: owners_ok_def)
qed (use assms(2) in \<open>auto simp: owners_ok_def life_defs close_once_def split: if_splits\<close>)

interpretation lifecycle: invariant_system linit lstep linv
proof
  show "linv s" if "linit s" for s
    using that
    by (simp add: linit_def linv_def announced_ok_def announced_def winners_ok_def owners_ok_def newSessionLifecycle_def)
  show "linv t" if "linv s" "lstep s t" for s t
    using that by (auto simp: linv_def announced_ok_lstep winners_ok_lstep owners_ok_lstep)
qed

text \<open>
  C13. Lifecycle: under every interleaving of close requests, aborts and terminal marks, each goal is
  granted to at most one requester and only upwards (the granted goals are strictly increasing);
  at most one caller ever wins the terminal decision, by abort or by graceful completion; and once
  an abort has won, the recorded reason is its reason and never changes.
\<close>

theorem lifecycle_single_winner:
  assumes "reachable linit lstep s"
  shows "sorted_wrt (<) (owners s) \<and> length (winners s) \<le> 1
     \<and> (goal (life s) = closeGoalAbort \<longleftrightarrow> winners s = [AbortWon (why (life s))])
     \<and> (lstep s t \<longrightarrow> goal (life s) \<le> goal (life t) \<and> (terminal (life s) \<longrightarrow> terminal (life t))
          \<and> (goal (life s) = closeGoalAbort \<longrightarrow> why (life t) = why (life s)))"
proof -
  have "linv s" by (rule lifecycle.reachable_inv [OF assms])
  moreover have "goal (life s) \<le> goal (life t) \<and> (terminal (life s) \<longrightarrow> terminal (life t))
      \<and> (goal (life s) = closeGoalAbort \<longrightarrow> why (life t) = why (life s))" if "lstep s t"
    using that by cases (auto simp: life_defs close_once_def split: if_splits)
  ultimately show ?thesis
    by (auto simp: linv_def owners_ok_def winners_ok_def split: if_splits)
qed

text \<open>
  C14. Lifecycle signals: a closed channel always implies the state it announces (\<^verbatim>\<open>writeReq\<close> a close
  goal, \<^verbatim>\<open>fullReq\<close> a full close or abort, \<^verbatim>\<open>abortCh\<close> an abort, \<^verbatim>\<open>termCh\<close> the terminal flag), and once no
  goroutine is between its mutex section and its last \<^verbatim>\<open>Once.Do\<close>, the channels are exactly the state.
\<close>

theorem lifecycle_signals:
  assumes "reachable linit lstep s"
  shows "(signalled (life s) writeReq \<longrightarrow> closeGoalWrite \<le> goal (life s))
     \<and> (signalled (life s) fullReq \<longrightarrow> closeGoalFull \<le> goal (life s))
     \<and> (signalled (life s) abortCh \<longrightarrow> goal (life s) = closeGoalAbort)
     \<and> (signalled (life s) termCh \<longrightarrow> terminal (life s))
     \<and> ((\<forall>cs \<in> set (todo s). cs = []) \<longrightarrow>
          (signalled (life s) writeReq \<longleftrightarrow> closeGoalWrite \<le> goal (life s))
          \<and> (signalled (life s) fullReq \<longleftrightarrow> closeGoalFull \<le> goal (life s))
          \<and> (signalled (life s) abortCh \<longleftrightarrow> goal (life s) = closeGoalAbort)
          \<and> (signalled (life s) termCh \<longleftrightarrow> terminal (life s))
          \<and> (goal (life s) = closeGoalAbort \<or> terminal (life s) \<longrightarrow>
               signalled (life s) readCh \<and> signalled (life s) writeCh))"
proof -
  have a: "announced_ok s" using lifecycle.reachable_inv [OF assms] by (simp add: linv_def)
  have "announced s c \<longleftrightarrow> signalled (life s) c" if "\<forall>cs \<in> set (todo s). cs = []" for c
    using that by (auto simp: announced_def)
  with a show ?thesis
    by (cases "goal (life s)") (auto simp: announced_ok_def announced_def goal_order)
qed

text \<open>A run: a full close is granted and signalled, then an explicit abort wins.\<close>

lemma lifecycle_run:
  "\<exists>s. reachable linit lstep s \<and> owners s = [closeGoalFull] \<and> winners s = [AbortWon abortExplicit]
     \<and> signalled (life s) writeReq"
proof -
  let ?l0 = newSessionLifecycle
  let ?l1 = "?l0\<lparr>goal := closeGoalFull\<rparr>"
  let ?l2 = "close_once writeReq ?l1"
  let ?l3 = "?l2\<lparr>goal := closeGoalAbort, why := abortExplicit\<rparr>"
  let ?cs = "[writeReq, fullReq, abortCh, readCh, writeCh]"
  let ?s = "\<lambda>l td ow wn. \<lparr>life = l, todo = td, owners = ow, winners = wn\<rparr>"
  have r0: "reachable linit lstep (?s ?l0 [] [] [])"
    by (rule reach_init) (simp add: linit_def)
  have "lstep (?s ?l0 [] [] []) (?s ?l1 [[writeReq, fullReq]] [closeGoalFull] [])"
    using lstep.request [of "?s ?l0 [] [] []" closeGoalFull True closeGoalRunning ?l1 "[writeReq, fullReq]"]
    by (simp add: life_defs newSessionLifecycle_def goal_order)
  note r1 = reach_step [OF r0 this]
  have "lstep (?s ?l1 [[writeReq, fullReq]] [closeGoalFull] []) (?s ?l2 [[fullReq]] [closeGoalFull] [])"
    using lstep.signal [of 0 "?s ?l1 [[writeReq, fullReq]] [closeGoalFull] []" writeReq "[fullReq]"] by simp
  note r2 = reach_step [OF r1 this]
  have "abortWith_locked ?l2 abortExplicit = (True, ?l3, ?cs)"
    by (simp add: life_defs newSessionLifecycle_def close_once_def)
  then have "lstep (?s ?l2 [[fullReq]] [closeGoalFull] [])
      (?s ?l3 [[fullReq], ?cs] [closeGoalFull] [AbortWon abortExplicit])"
    using lstep.abort [of "?s ?l2 [[fullReq]] [closeGoalFull] []" abortExplicit True ?l3 ?cs] by simp
  note r3 = reach_step [OF r2 this]
  show ?thesis by (rule exI, intro conjI, rule r3) (simp_all add: close_once_def)
qed

theorem lifecycle_single_winner_witness:
  "\<exists>s. reachable linit lstep s \<and> goal (life s) = closeGoalAbort \<and> why (life s) = abortExplicit"
proof -
  obtain s where "reachable linit lstep s" "winners s = [AbortWon abortExplicit]"
    using lifecycle_run by blast
  moreover from this have "winners_ok s" using lifecycle.reachable_inv by (auto simp: linv_def)
  ultimately show ?thesis
    using lifecycle_single_winner [of s s]
    by (intro exI [of _ s]) (auto simp: winners_ok_def split: if_splits)
qed

theorem lifecycle_signals_witness:
  "\<exists>s. reachable linit lstep s \<and> signalled (life s) writeReq \<and> closeGoalWrite \<le> goal (life s)"
  using lifecycle_run lifecycle_signals by blast

end
