(* ===== verification/Limits.thy ===== *)
theory Limits
  imports Quota
begin

text \<open>
  Connection admission (\<^verbatim>\<open>transport/limits.go\<close>): the per-listener capacity with its compare-and-swap
  loops, the Engine's \<^verbatim>\<open>admissionController\<close>, connection leases (opening, active, draining, released) and
  handshake or upgrade leases. Every critical section and every atomic operation is one step of
  \<open>astep\<close>; counters are unbounded integers, since each counts live objects. The invariant gives that
  the counters are exactly the leases, that the configured limits hold, and that a lease is
  released once.
\<close>

section \<open>Configuration\<close>

record Limits =
  MaxConnections :: int
  MaxConnectionsPerPeer :: int
  MaxConnectionsPerListener :: int
  MaxConcurrentHandshakes :: int
  MaxPendingUpgrades :: int
  MaxQueuedBytesTotal :: int

definition Limits_validate :: "Limits \<Rightarrow> gerr option" where
  "Limits_validate l =
     (if MaxConnections l < 0 \<or> MaxConnectionsPerPeer l < 0 \<or> MaxConnectionsPerListener l < 0
         \<or> MaxConcurrentHandshakes l < 0 \<or> MaxPendingUpgrades l < 0 \<or> MaxQueuedBytesTotal l < 0
      then Some (Sentinel ErrInvalidLimits) else None)"

section \<open>Listener capacity\<close>

record listenerCapacity =
  clim :: int
  cused :: int
  crejected :: nat

definition newListenerCapacity :: "int \<Rightarrow> listenerCapacity" where
  "newListenerCapacity limit = \<lparr>clim = limit, cused = 0, crejected = 0\<rparr>"

text \<open>
  One iteration of the loops: the load, which may decide, and the compare and swap, which fails when
  another goroutine came between.
\<close>

definition cap_full :: "listenerCapacity \<Rightarrow> int \<Rightarrow> bool" where
  "cap_full c n \<longleftrightarrow> clim c > 0 \<and> n \<ge> clim c"

definition cap_cas :: "listenerCapacity \<Rightarrow> int \<Rightarrow> int \<Rightarrow> bool \<times> listenerCapacity" where
  "cap_cas c old new = (if cused c = old then (True, c\<lparr>cused := new\<rparr>) else (False, c))"

text \<open>The loops as one step, when no other goroutine interferes; \<open>None\<close> is the nil capacity.\<close>

definition cap_acquire :: "listenerCapacity option \<Rightarrow> bool \<times> listenerCapacity option" where
  "cap_acquire lc =
     (case lc of None \<Rightarrow> (True, None) | Some c \<Rightarrow>
      if cap_full c (cused c) then (False, Some (c\<lparr>crejected := crejected c + 1\<rparr>))
      else (case cap_cas c (cused c) (cused c + 1) of (ok, c') \<Rightarrow> (ok, Some c')))"

definition cap_release :: "listenerCapacity option \<Rightarrow> listenerCapacity option" where
  "cap_release lc =
     (case lc of None \<Rightarrow> None | Some c \<Rightarrow>
      if cused c \<le> 0 then Some c else Some (snd (cap_cas c (cused c) (cused c - 1))))"

section \<open>The controller\<close>

record admissionController =
  limits :: Limits
  nopening :: int
  nactive :: int
  ndraining :: int
  handshakes :: int
  upgrades :: int
  perPeer :: "string \<rightharpoonup> int"
  rejectedConnections :: nat
  rejectedPeers :: nat
  rejectedListeners :: nat
  rejectedHandshakes :: nat
  rejectedUpgrades :: nat
  qbytes :: globalByteQuota

definition newAdmissionController :: "Limits \<Rightarrow> admissionController" where
  "newAdmissionController l =
     \<lparr>limits = l, nopening = 0, nactive = 0, ndraining = 0, handshakes = 0, upgrades = 0,
      perPeer = Map.empty, rejectedConnections = 0, rejectedPeers = 0, rejectedListeners = 0,
      rejectedHandshakes = 0, rejectedUpgrades = 0,
      qbytes = newGlobalByteQuota (MaxQueuedBytesTotal l)\<rparr>"

text \<open>Reading a missing key of a Go map gives 0.\<close>

definition peer_count :: "(string \<rightharpoonup> int) \<Rightarrow> string \<Rightarrow> int" where
  "peer_count m p = (case m p of None \<Rightarrow> 0 | Some n \<Rightarrow> n)"

text \<open>The critical section of \<^verbatim>\<open>acquireOpeningWithListener\<close>.\<close>

definition acquireOpening_locked ::
  "admissionController \<Rightarrow> string \<Rightarrow> gerr option \<times> admissionController"
where
  "acquireOpening_locked a peer =
     (if MaxConnections (limits a) > 0
         \<and> nopening a + nactive a + ndraining a \<ge> MaxConnections (limits a)
      then (Some (LimitErr LimitConnections (MaxConnections (limits a))),
            a\<lparr>rejectedConnections := rejectedConnections a + 1\<rparr>)
      else if peer \<noteq> [] \<and> MaxConnectionsPerPeer (limits a) > 0
         \<and> peer_count (perPeer a) peer \<ge> MaxConnectionsPerPeer (limits a)
      then (Some (LimitErr LimitConnectionsPerPeer (MaxConnectionsPerPeer (limits a))),
            a\<lparr>rejectedPeers := rejectedPeers a + 1\<rparr>)
      else (None, a\<lparr>nopening := nopening a + 1,
              perPeer := (if peer \<noteq> [] then (perPeer a)(peer \<mapsto> peer_count (perPeer a) peer + 1)
                          else perPeer a)\<rparr>))"

datatype connectionLeaseState = connectionOpening | connectionActive | connectionDraining
  | connectionReleased

definition dec_pos :: "int \<Rightarrow> int" where
  "dec_pos n = (if n > 0 then n - 1 else n)"

definition activate ::
  "admissionController \<Rightarrow> connectionLeaseState \<Rightarrow> bool \<times> admissionController \<times> connectionLeaseState"
where
  "activate a st =
     (case st of
        connectionActive \<Rightarrow> (True, a, st)
      | connectionDraining \<Rightarrow> (False, a, st)
      | connectionReleased \<Rightarrow> (False, a, st)
      | connectionOpening \<Rightarrow>
          (True, a\<lparr>nopening := dec_pos (nopening a), nactive := nactive a + 1\<rparr>, connectionActive))"

definition beginDrain ::
  "admissionController \<Rightarrow> connectionLeaseState \<Rightarrow> bool \<times> admissionController \<times> connectionLeaseState"
where
  "beginDrain a st =
     (if st \<noteq> connectionActive then (False, a, st)
      else (True, a\<lparr>nactive := dec_pos (nactive a), ndraining := ndraining a + 1\<rparr>, connectionDraining))"

text \<open>The controller's section of \<^verbatim>\<open>connectionLease.release\<close>, for the state it found.\<close>

definition release_state :: "admissionController \<Rightarrow> connectionLeaseState \<Rightarrow> admissionController" where
  "release_state a st =
     (case st of
        connectionOpening \<Rightarrow> a\<lparr>nopening := dec_pos (nopening a)\<rparr>
      | connectionActive \<Rightarrow> a\<lparr>nactive := dec_pos (nactive a)\<rparr>
      | connectionDraining \<Rightarrow> a\<lparr>ndraining := dec_pos (ndraining a)\<rparr>
      | connectionReleased \<Rightarrow> a)"

definition release_peer :: "admissionController \<Rightarrow> string \<Rightarrow> admissionController" where
  "release_peer a peer =
     (if peer = [] then a
      else let n = peer_count (perPeer a) peer in
        a\<lparr>perPeer := (if n \<le> 1 then (perPeer a)(peer := None) else (perPeer a)(peer \<mapsto> n - 1))\<rparr>)"

definition release_locked ::
  "admissionController \<Rightarrow> string \<Rightarrow> connectionLeaseState \<Rightarrow> admissionController"
where
  "release_locked a peer st = release_peer (release_state a st) peer"

section \<open>Handshake and upgrade leases\<close>

datatype activity = Handshake | Upgrade

fun activity_kind :: "activity \<Rightarrow> LimitKind" where
  "activity_kind Handshake = LimitHandshakes"
| "activity_kind Upgrade = LimitUpgrades"

definition acquireHandshake :: "admissionController \<Rightarrow> gerr option \<times> admissionController" where
  "acquireHandshake a =
     (if MaxConcurrentHandshakes (limits a) > 0 \<and> handshakes a \<ge> MaxConcurrentHandshakes (limits a)
      then (Some (LimitErr LimitHandshakes (MaxConcurrentHandshakes (limits a))),
            a\<lparr>rejectedHandshakes := rejectedHandshakes a + 1\<rparr>)
      else (None, a\<lparr>handshakes := handshakes a + 1\<rparr>))"

definition acquireUpgrade :: "admissionController \<Rightarrow> gerr option \<times> admissionController" where
  "acquireUpgrade a =
     (if MaxPendingUpgrades (limits a) > 0 \<and> upgrades a \<ge> MaxPendingUpgrades (limits a)
      then (Some (LimitErr LimitUpgrades (MaxPendingUpgrades (limits a))),
            a\<lparr>rejectedUpgrades := rejectedUpgrades a + 1\<rparr>)
      else (None, a\<lparr>upgrades := upgrades a + 1\<rparr>))"

definition activity_acquire :: "activity \<Rightarrow> admissionController \<Rightarrow> gerr option \<times> admissionController" where
  "activity_acquire k a = (case k of Handshake \<Rightarrow> acquireHandshake a | Upgrade \<Rightarrow> acquireUpgrade a)"

text \<open>The controller's section of \<^verbatim>\<open>activityLease.release\<close>, after its compare and swap has won.\<close>

definition activity_release_locked :: "activity \<Rightarrow> admissionController \<Rightarrow> admissionController" where
  "activity_release_locked k a =
     (case k of
        Handshake \<Rightarrow> a\<lparr>handshakes := dec_pos (handshakes a)\<rparr>
      | Upgrade \<Rightarrow> a\<lparr>upgrades := dec_pos (upgrades a)\<rparr>)"

section \<open>Snapshot and idleness\<close>

record admissionSnapshot =
  OpeningConnections :: int
  ActiveConnections :: int
  DrainingConnections :: int
  ActiveHandshakes :: int
  PendingUpgrades :: int
  GlobalQueuedBytes :: int
  RejectedConnections :: nat
  RejectedPeers :: nat
  RejectedListeners :: nat
  RejectedHandshakes :: nat
  RejectedUpgrades :: nat
  RejectedQueuedBytes :: nat

definition snapshot :: "admissionController \<Rightarrow> admissionSnapshot" where
  "snapshot a =
     \<lparr>OpeningConnections = nopening a, ActiveConnections = nactive a, DrainingConnections = ndraining a,
      ActiveHandshakes = handshakes a, PendingUpgrades = upgrades a,
      GlobalQueuedBytes = globalCurrent (Some (qbytes a)),
      RejectedConnections = rejectedConnections a, RejectedPeers = rejectedPeers a,
      RejectedListeners = rejectedListeners a, RejectedHandshakes = rejectedHandshakes a,
      RejectedUpgrades = rejectedUpgrades a, RejectedQueuedBytes = qrejected (qbytes a)\<rparr>"

definition idle :: "admissionController \<Rightarrow> bool" where
  "idle a \<longleftrightarrow> nopening a = 0 \<and> nactive a = 0 \<and> ndraining a = 0 \<and> handshakes a = 0 \<and> upgrades a = 0"

section \<open>Interleaved leases\<close>

text \<open>
  Where a connection lease is: in \<^verbatim>\<open>acquireOpeningWithListener\<close> (the listener loop, the controller's
  section, giving the listener slot back after a refusal), live in a state, in \<^verbatim>\<open>release\<close> (the
  controller's section, the listener loop), or gone.
\<close>

datatype phase = CapLoad | CapCas int | AcqLock | RejLoad gerr | RejCas gerr int | Failed gerr
  | Live connectionLeaseState | RelLock connectionLeaseState | RelLoad | RelCas int | Gone

record lease =
  lpeer :: string
  llistener :: "nat option"
  lphase :: phase

text \<open>The next atomic action of the goroutine that acquires or releases.\<close>

fun lease_run :: "admissionController \<Rightarrow> listenerCapacity option \<Rightarrow> string \<Rightarrow> phase
    \<Rightarrow> admissionController \<times> listenerCapacity option \<times> phase"
where
  "lease_run a None peer CapLoad = (a, None, AcqLock)"
| "lease_run a (Some c) peer CapLoad =
     (if cap_full c (cused c)
      then (a\<lparr>rejectedListeners := rejectedListeners a + 1\<rparr>, Some (c\<lparr>crejected := crejected c + 1\<rparr>),
            Failed (LimitErr LimitConnectionsPerListener (clim c)))
      else (a, Some c, CapCas (cused c)))"
| "lease_run a (Some c) peer (CapCas n) =
     (case cap_cas c n (n + 1) of (ok, c') \<Rightarrow> (a, Some c', if ok then AcqLock else CapLoad))"
| "lease_run a lc peer AcqLock =
     (case acquireOpening_locked a peer of
        (Some e, a') \<Rightarrow> (a', lc, RejLoad e) | (None, a') \<Rightarrow> (a', lc, Live connectionOpening))"
| "lease_run a None peer (RejLoad e) = (a, None, Failed e)"
| "lease_run a (Some c) peer (RejLoad e) =
     (a, Some c, if cused c \<le> 0 then Failed e else RejCas e (cused c))"
| "lease_run a (Some c) peer (RejCas e n) =
     (case cap_cas c n (n - 1) of (ok, c') \<Rightarrow> (a, Some c', if ok then Failed e else RejLoad e))"
| "lease_run a lc peer (RelLock st) = (release_locked a peer st, lc, RelLoad)"
| "lease_run a None peer RelLoad = (a, None, Gone)"
| "lease_run a (Some c) peer RelLoad = (a, Some c, if cused c \<le> 0 then Gone else RelCas (cused c))"
| "lease_run a (Some c) peer (RelCas n) =
     (case cap_cas c n (n - 1) of (ok, c') \<Rightarrow> (a, Some c', if ok then Gone else RelLoad))"
| "lease_run a lc peer ph = (a, lc, ph)"

text \<open>
  The calls on a live lease. \<^verbatim>\<open>release\<close> moves the state to released under the lease's mutex and goes
  on to the controller with the state it found. On a released lease all three do nothing.
\<close>

datatype lease_call = CallActivate | CallBeginDrain | CallRelease

fun lease_do :: "admissionController \<Rightarrow> phase \<Rightarrow> lease_call \<Rightarrow> admissionController \<times> phase" where
  "lease_do a (Live st) CallActivate = (case activate a st of (_, a', st') \<Rightarrow> (a', Live st'))"
| "lease_do a (Live st) CallBeginDrain = (case beginDrain a st of (_, a', st') \<Rightarrow> (a', Live st'))"
| "lease_do a (Live st) CallRelease = (a, RelLock st)"
| "lease_do a ph call = (a, ph)"

text \<open>Handshake and upgrade leases: held, past the compare and swap of \<^verbatim>\<open>release\<close>, released.\<close>

datatype act_phase = ActHeld | ActReleasing | ActReleased

record asys =
  adm :: admissionController
  caps :: "listenerCapacity list"
  leases :: "lease list"
  acts :: "(activity \<times> act_phase) list"

definition lease_cap :: "asys \<Rightarrow> lease \<Rightarrow> listenerCapacity option" where
  "lease_cap s l = map_option (\<lambda>j. caps s ! j) (llistener l)"

definition put_cap :: "asys \<Rightarrow> lease \<Rightarrow> listenerCapacity option \<Rightarrow> listenerCapacity list" where
  "put_cap s l lc =
     (case (llistener l, lc) of (Some j, Some c) \<Rightarrow> (caps s)[j := c] | _ \<Rightarrow> caps s)"

definition run_lease :: "asys \<Rightarrow> nat \<Rightarrow> asys" where
  "run_lease s r =
     (let l = leases s ! r in
      case lease_run (adm s) (lease_cap s l) (lpeer l) (lphase l) of
        (a', lc', ph') \<Rightarrow>
          s\<lparr>adm := a', caps := put_cap s l lc', leases := (leases s)[r := l\<lparr>lphase := ph'\<rparr>]\<rparr>)"

definition call_lease :: "asys \<Rightarrow> nat \<Rightarrow> lease_call \<Rightarrow> asys" where
  "call_lease s r call =
     (let l = leases s ! r in
      case lease_do (adm s) (lphase l) call of
        (a', ph') \<Rightarrow> s\<lparr>adm := a', leases := (leases s)[r := l\<lparr>lphase := ph'\<rparr>]\<rparr>)"

definition run_act :: "asys \<Rightarrow> nat \<Rightarrow> asys" where
  "run_act s r =
     (case acts s ! r of
        (k, ActHeld) \<Rightarrow> s\<lparr>acts := (acts s)[r := (k, ActReleasing)]\<rparr>
      | (k, ActReleasing) \<Rightarrow>
          s\<lparr>adm := activity_release_locked k (adm s), acts := (acts s)[r := (k, ActReleased)]\<rparr>
      | (k, ActReleased) \<Rightarrow> s)"

inductive astep :: "asys \<Rightarrow> asys \<Rightarrow> bool" where
  new_lease: "(case lst of None \<Rightarrow> True | Some j \<Rightarrow> j < length (caps s)) \<Longrightarrow>
     astep s (s\<lparr>leases := leases s @ [\<lparr>lpeer = peer, llistener = lst, lphase = CapLoad\<rparr>]\<rparr>)"
| new_listener: "astep s (s\<lparr>caps := caps s @ [newListenerCapacity (MaxConnectionsPerListener (limits (adm s)))]\<rparr>)"
| run_lease: "r < length (leases s) \<Longrightarrow> astep s (run_lease s r)"
| call_lease: "r < length (leases s) \<Longrightarrow> astep s (call_lease s r call)"
| new_act: "activity_acquire k (adm s) = (e, a) \<Longrightarrow>
     astep s (s\<lparr>adm := a, acts := acts s @ (if e = None then [(k, ActHeld)] else [])\<rparr>)"
| run_act: "r < length (acts s) \<Longrightarrow> astep s (run_act s r)"

definition ainit :: "asys \<Rightarrow> bool" where
  "ainit s \<longleftrightarrow> (\<exists>l. s = \<lparr>adm = newAdmissionController l, caps = [], leases = [], acts = []\<rparr>)"

section \<open>Contributions of a lease to the counters\<close>

fun in_state :: "connectionLeaseState \<Rightarrow> phase \<Rightarrow> int" where
  "in_state st (Live s) = of_bool (s = st)"
| "in_state st (RelLock s) = of_bool (s = st)"
| "in_state st ph = 0"

fun connected :: "phase \<Rightarrow> int" where
  "connected (Live s) = 1"
| "connected (RelLock s) = 1"
| "connected ph = 0"

fun has_slot :: "phase \<Rightarrow> int" where
  "has_slot CapLoad = 0"
| "has_slot (CapCas n) = 0"
| "has_slot (Failed e) = 0"
| "has_slot Gone = 0"
| "has_slot ph = 1"

definition adm_ok :: "admissionController \<Rightarrow> int \<Rightarrow> int \<Rightarrow> int \<Rightarrow> (string \<Rightarrow> int) \<Rightarrow> bool" where
  "adm_ok a O1 A D P \<longleftrightarrow>
     nopening a = O1 \<and> nactive a = A \<and> ndraining a = D
     \<and> (\<forall>p. p \<noteq> [] \<longrightarrow> peer_count (perPeer a) p = P p)
     \<and> (0 < MaxConnections (limits a) \<longrightarrow> O1 + A + D \<le> MaxConnections (limits a))
     \<and> (0 < MaxConnectionsPerPeer (limits a) \<longrightarrow> (\<forall>p. p \<noteq> [] \<longrightarrow> P p \<le> MaxConnectionsPerPeer (limits a)))"

definition cap_ok :: "listenerCapacity \<Rightarrow> int \<Rightarrow> bool" where
  "cap_ok c U \<longleftrightarrow> cused c = U \<and> (0 < clim c \<longrightarrow> U \<le> clim c)"

text \<open>A value loaded by the acquire loop was below the limit.\<close>

fun cas_ok :: "listenerCapacity option \<Rightarrow> phase \<Rightarrow> bool" where
  "cas_ok (Some c) (CapCas n) = (\<not> cap_full c n)"
| "cas_ok lc ph = True"

definition live_ok :: "phase \<Rightarrow> bool" where
  "live_ok ph \<longleftrightarrow> ph \<noteq> Live connectionReleased \<and> ph \<noteq> RelLock connectionReleased"

definition phase_cap :: "listenerCapacity option \<Rightarrow> phase \<Rightarrow> bool" where
  "phase_cap lc ph \<longleftrightarrow> lc \<noteq> None \<or> (\<forall>n e. ph \<noteq> CapCas n \<and> ph \<noteq> RejCas e n \<and> ph \<noteq> RelCas n)"

lemma peer_count_update [simp]:
  "peer_count (m(p \<mapsto> n)) q = (if q = p then n else peer_count m q)"
  "peer_count (m(p := None)) q = (if q = p then 0 else peer_count m q)"
  by (simp_all add: peer_count_def)

lemma dec_pos_eq [simp]: "0 < n \<Longrightarrow> dec_pos n = n - 1"
  by (simp add: dec_pos_def)

abbreviation shift :: "(string \<Rightarrow> int) \<Rightarrow> string \<Rightarrow> int \<Rightarrow> string \<Rightarrow> int" where
  "shift P p d \<equiv> P(p := P p + d)"

lemma acquireOpening_ok:
  assumes "adm_ok a O1 A D P" and "acquireOpening_locked a peer = (e, a')"
  shows "adm_ok a' (O1 + of_bool (e = None)) A D (shift P peer (of_bool (e = None)))"
  using assms by (auto simp: acquireOpening_locked_def adm_ok_def split: if_splits)

lemma release_locked_ok:
  assumes "adm_ok a O1 A D P" and "in_state connectionOpening (RelLock st) \<le> O1"
    and "in_state connectionActive (RelLock st) \<le> A" and "in_state connectionDraining (RelLock st) \<le> D"
    and "peer \<noteq> [] \<longrightarrow> 1 \<le> P peer" and "st \<noteq> connectionReleased"
  shows "adm_ok (release_locked a peer st) (O1 - in_state connectionOpening (RelLock st))
     (A - in_state connectionActive (RelLock st)) (D - in_state connectionDraining (RelLock st)) (shift P peer (- 1))"
  using assms
  by (cases st) (auto simp: release_locked_def release_state_def release_peer_def adm_ok_def Let_def split: if_splits)

lemma lease_run_adm:
  assumes "adm_ok a O1 A D P" and "lease_run a lc peer ph = (a', lc', ph')" and "live_ok ph"
    and "in_state connectionOpening ph \<le> O1" and "in_state connectionActive ph \<le> A"
    and "in_state connectionDraining ph \<le> D" and "peer \<noteq> [] \<longrightarrow> connected ph \<le> P peer"
  shows "adm_ok a' (O1 - in_state connectionOpening ph + in_state connectionOpening ph')
      (A - in_state connectionActive ph + in_state connectionActive ph')
      (D - in_state connectionDraining ph + in_state connectionDraining ph')
      (shift P peer (connected ph' - connected ph)) \<and> live_ok ph'"
proof (cases ph)
  case AcqLock
  obtain e a1 where ea: "acquireOpening_locked a peer = (e, a1)" by fastforce
  from acquireOpening_ok [OF assms(1) this] ea assms(2) AcqLock show ?thesis
    by (cases e) (auto simp: live_ok_def)
next
  case (RelLock st)
  with assms release_locked_ok [OF assms(1), of st peer] show ?thesis
    by (auto simp: live_ok_def)
next
  case CapLoad
  with assms(1,2) show ?thesis
    by (cases lc) (auto simp: live_ok_def adm_ok_def split: if_splits)
qed (use assms(1-3) in \<open>cases lc; auto simp: live_ok_def split: if_splits prod.splits\<close>)+

lemma cap_cas_ok:
  assumes "cap_ok c U" and "cap_cas c n (n + d) = (ok, c')" and "d \<le> 0 \<or> \<not> cap_full c n" and "d \<le> 1"
  shows "cap_ok c' (if ok then U + d else U)"
  using assms by (auto simp: cap_ok_def cap_cas_def cap_full_def split: if_splits)

lemma lease_run_cap:
  assumes "cap_ok c U" and "lease_run a (Some c) peer ph = (a', lc', ph')" and "has_slot ph \<le> U"
    and "cas_ok (Some c) ph"
  shows "\<exists>c'. lc' = Some c' \<and> cap_ok c' (U - has_slot ph + has_slot ph') \<and> clim c' = clim c
     \<and> cas_ok (Some c') ph'"
proof (cases ph)
  case (CapCas n)
  obtain ok c1 where "cap_cas c n (n + 1) = (ok, c1)" by fastforce
  with cap_cas_ok [OF assms(1) this] CapCas assms(2,4) show ?thesis
    by (auto simp: cap_cas_def split: if_splits)
next
  case (RejCas e n)
  obtain ok c1 where "cap_cas c n (n + - 1) = (ok, c1)" by fastforce
  with cap_cas_ok [OF assms(1) this] RejCas assms(2) show ?thesis
    by (auto simp: cap_cas_def split: if_splits)
next
  case (RelCas n)
  obtain ok c1 where "cap_cas c n (n + - 1) = (ok, c1)" by fastforce
  with cap_cas_ok [OF assms(1) this] RelCas assms(2) show ?thesis
    by (auto simp: cap_cas_def split: if_splits)
qed (use assms in \<open>auto simp: cap_ok_def cap_full_def split: if_splits prod.splits option.splits\<close>)

lemma lease_run_None:
  assumes "lease_run a None peer ph = (a', lc', ph')" and "phase_cap None ph"
  shows "lc' = None \<and> phase_cap None ph'"
  using assms by (cases ph) (auto simp: phase_cap_def split: prod.splits option.splits)

lemma lease_do_ok:
  assumes "adm_ok a O1 A D P" and "lease_do a ph call = (a', ph')" and "live_ok ph"
    and "in_state connectionOpening ph \<le> O1" and "in_state connectionActive ph \<le> A"
    and "in_state connectionDraining ph \<le> D"
  shows "adm_ok a' (O1 - in_state connectionOpening ph + in_state connectionOpening ph')
      (A - in_state connectionActive ph + in_state connectionActive ph')
      (D - in_state connectionDraining ph + in_state connectionDraining ph') P
     \<and> live_ok ph' \<and> connected ph' = connected ph \<and> has_slot ph' = has_slot ph
     \<and> (\<forall>lc. cas_ok lc ph \<longrightarrow> cas_ok lc ph') \<and> (phase_cap lc ph \<longrightarrow> phase_cap lc ph')"
proof (cases ph)
  case (Live st)
  with assms show ?thesis
    by (cases call; cases st)
       (auto simp: live_ok_def activate_def beginDrain_def adm_ok_def phase_cap_def)
qed (use assms in auto)

section \<open>The invariant\<close>

definition total :: "(lease \<Rightarrow> int) \<Rightarrow> asys \<Rightarrow> int" where
  "total f s = sum_list (map f (leases s))"

abbreviation state_total :: "connectionLeaseState \<Rightarrow> asys \<Rightarrow> int" where
  "state_total st \<equiv> total (\<lambda>l. in_state st (lphase l))"

abbreviation peer_total :: "asys \<Rightarrow> string \<Rightarrow> int" where
  "peer_total s p \<equiv> total (\<lambda>l. if lpeer l = p then connected (lphase l) else 0) s"

abbreviation slot_total :: "asys \<Rightarrow> nat \<Rightarrow> int" where
  "slot_total s j \<equiv> total (\<lambda>l. if llistener l = Some j then has_slot (lphase l) else 0) s"

definition act_total :: "activity \<Rightarrow> asys \<Rightarrow> int" where
  "act_total k s = sum_list (map (\<lambda>(k', ph). of_bool (k' = k \<and> ph \<noteq> ActReleased)) (acts s))"

definition lease_ok :: "asys \<Rightarrow> lease \<Rightarrow> bool" where
  "lease_ok s l \<longleftrightarrow> live_ok (lphase l) \<and> (\<forall>j. llistener l = Some j \<longrightarrow> j < length (caps s))
     \<and> cas_ok (lease_cap s l) (lphase l) \<and> phase_cap (lease_cap s l) (lphase l)"

definition acts_ok :: "asys \<Rightarrow> bool" where
  "acts_ok s \<longleftrightarrow>
     handshakes (adm s) = act_total Handshake s \<and> upgrades (adm s) = act_total Upgrade s
     \<and> (0 < MaxConcurrentHandshakes (limits (adm s)) \<longrightarrow>
          handshakes (adm s) \<le> MaxConcurrentHandshakes (limits (adm s)))
     \<and> (0 < MaxPendingUpgrades (limits (adm s)) \<longrightarrow>
          upgrades (adm s) \<le> MaxPendingUpgrades (limits (adm s)))"

definition ainv :: "asys \<Rightarrow> bool" where
  "ainv s \<longleftrightarrow>
     adm_ok (adm s) (state_total connectionOpening s) (state_total connectionActive s)
       (state_total connectionDraining s) (peer_total s)
     \<and> (\<forall>j < length (caps s). cap_ok (caps s ! j) (slot_total s j)
          \<and> clim (caps s ! j) = MaxConnectionsPerListener (limits (adm s)))
     \<and> (\<forall>l \<in> set (leases s). lease_ok s l)
     \<and> acts_ok s"

lemma contribution_nonneg: "0 \<le> in_state st ph" "0 \<le> connected ph" "0 \<le> has_slot ph"
  by (cases ph; simp)+

lemma total_ge:
  assumes "r < length (leases s)" and "\<And>l. 0 \<le> f l"
  shows "f (leases s ! r) \<le> total f s"
  unfolding total_def using assms by (intro sum_list_map_ge) auto

lemma total_update:
  assumes "r < length (leases s)" and "leases t = (leases s)[r := l]"
  shows "total f t = total f s - f (leases s ! r) + f l"
  using assms by (simp add: total_def sum_list_map_update)

lemma lease_run_frame:
  assumes "lease_run a lc peer ph = (a', lc', ph')"
  shows "limits a' = limits a" and "handshakes a' = handshakes a" and "upgrades a' = upgrades a"
  using assms
  by (cases ph; cases lc; auto simp: acquireOpening_locked_def release_locked_def release_state_def
      release_peer_def Let_def split: if_splits prod.splits connectionLeaseState.splits)+

lemma cas_ok_clim: "clim c' = clim c \<Longrightarrow> cas_ok (Some c') ph = cas_ok (Some c) ph"
  by (cases ph) (auto simp: cap_full_def)

lemma lease_ok_caps:
  assumes "lease_ok s x" and "length (caps t) = length (caps s)"
    and "\<forall>j < length (caps s). clim (caps t ! j) = clim (caps s ! j)"
  shows "lease_ok t x"
proof (cases "llistener x")
  case (Some j)
  then have "cas_ok (Some (caps t ! j)) (lphase x) = cas_ok (Some (caps s ! j)) (lphase x)"
    using assms by (intro cas_ok_clim) (simp add: lease_ok_def)
  with Some assms show ?thesis by (simp add: lease_ok_def lease_cap_def phase_cap_def)
qed (use assms in \<open>simp add: lease_ok_def lease_cap_def\<close>)

text \<open>The listener side of one atomic action.\<close>

lemma run_lease_caps:
  assumes "ainv s" and "lease_ok s l" and "lease_run (adm s) (lease_cap s l) (lpeer l) (lphase l) = (a', lc', ph')"
    and r: "r < length (leases s)" and l: "leases s ! r = l"
    and "\<And>j. llistener l = Some j \<Longrightarrow> has_slot (lphase l) \<le> slot_total s j"
    and t: "leases t = (leases s)[r := l\<lparr>lphase := ph'\<rparr>]" "caps t = put_cap s l lc'"
  shows "(\<forall>j < length (caps t). cap_ok (caps t ! j) (slot_total t j)
        \<and> clim (caps t ! j) = MaxConnectionsPerListener (limits (adm s)))
     \<and> cas_ok (lease_cap t l) ph' \<and> phase_cap (lease_cap t l) ph' \<and> length (caps t) = length (caps s)
     \<and> (\<forall>j < length (caps s). clim (caps t ! j) = clim (caps s ! j))"
proof -
  have tot: "slot_total t j = slot_total s j
      + (if llistener l = Some j then has_slot ph' - has_slot (lphase l) else 0)" for j
    using l by (simp add: total_update [OF r t(1)])
  have caps: "\<forall>j < length (caps s). cap_ok (caps s ! j) (slot_total s j)
      \<and> clim (caps s ! j) = MaxConnectionsPerListener (limits (adm s))"
    using assms(1) by (simp add: ainv_def)
  show ?thesis
  proof (cases "llistener l")
    case None
    with assms(2,3) lease_run_None [of "adm s" "lpeer l" "lphase l"] have "lc' = None \<and> phase_cap None ph'"
      by (auto simp: lease_cap_def lease_ok_def)
    with None caps show ?thesis
      by (simp add: tot t(2) put_cap_def lease_cap_def)
  next
    case (Some i)
    then have i: "i < length (caps s)" using assms(2) by (simp add: lease_ok_def)
    have "\<exists>c'. lc' = Some c' \<and> cap_ok c' (slot_total s i - has_slot (lphase l) + has_slot ph')
        \<and> clim c' = clim (caps s ! i) \<and> cas_ok (Some c') ph'"
      using assms(2,3,6) caps Some i
      by (intro lease_run_cap [of "caps s ! i" _ "adm s" "lpeer l"]) (simp_all add: lease_cap_def lease_ok_def)
    then obtain c' where "lc' = Some c'" "cap_ok c' (slot_total s i - has_slot (lphase l) + has_slot ph')"
      "clim c' = clim (caps s ! i)" "cas_ok (Some c') ph'" by blast
    with Some i caps show ?thesis
      by (simp add: tot t(2) put_cap_def lease_cap_def phase_cap_def nth_list_update algebra_simps)
  qed
qed

lemma lease_do_frame:
  assumes "lease_do a ph call = (a', ph')"
  shows "limits a' = limits a" and "handshakes a' = handshakes a" and "upgrades a' = upgrades a"
  using assms
  by (cases ph; cases call; auto simp: activate_def beginDrain_def split: if_splits connectionLeaseState.splits)+

lemma acts_ok_frame:
  "acts t = acts s \<Longrightarrow> limits (adm t) = limits (adm s) \<Longrightarrow> handshakes (adm t) = handshakes (adm s) \<Longrightarrow>
     upgrades (adm t) = upgrades (adm s) \<Longrightarrow> acts_ok t = acts_ok s"
  by (simp add: acts_ok_def act_total_def)

lemma lease_ok_update:
  assumes "ainv s" "lease_ok t y" "length (caps t) = length (caps s)"
    and "\<forall>j < length (caps s). clim (caps t ! j) = clim (caps s ! j)" "x \<in> set ((leases s)[r := y])"
  shows "lease_ok t x"
proof (cases "x = y")
  case False
  then have "x \<in> set (leases s)" using assms(5) set_update_subset_insert [of "leases s" r y] by blast
  then have "lease_ok s x" using assms(1) by (auto simp: ainv_def)
  then show ?thesis using assms(3,4) by (rule lease_ok_caps)
qed (use assms(2) in simp)

lemma ainv_run_lease:
  assumes inv: "ainv s" and r: "r < length (leases s)"
  shows "ainv (run_lease s r)"
proof -
  define l where "l = leases s ! r"
  obtain a' lc' ph' where m: "lease_run (adm s) (lease_cap s l) (lpeer l) (lphase l) = (a', lc', ph')"
    by (metis prod_cases3)
  let ?t = "s\<lparr>adm := a', caps := put_cap s l lc', leases := (leases s)[r := l\<lparr>lphase := ph'\<rparr>]\<rparr>"
  have t: "run_lease s r = ?t" using m by (simp add: run_lease_def l_def Let_def)
  have lok: "lease_ok s l" using inv r by (auto simp: ainv_def l_def)
  have ge: "in_state st (lphase l) \<le> state_total st s" "connected (lphase l) \<le> peer_total s (lpeer l)" for st
    using total_ge [OF r, of "\<lambda>x. in_state st (lphase x)"]
      total_ge [OF r, of "\<lambda>x. if lpeer x = lpeer l then connected (lphase x) else 0"]
    by (auto simp: l_def contribution_nonneg)
  have slot: "llistener l = Some j \<Longrightarrow> has_slot (lphase l) \<le> slot_total s j" for j
    using total_ge [OF r, of "\<lambda>x. if llistener x = Some j then has_slot (lphase x) else 0"]
    by (auto simp: l_def contribution_nonneg)
  have adm: "adm_ok a' (state_total connectionOpening s - in_state connectionOpening (lphase l) + in_state connectionOpening ph')
      (state_total connectionActive s - in_state connectionActive (lphase l) + in_state connectionActive ph')
      (state_total connectionDraining s - in_state connectionDraining (lphase l) + in_state connectionDraining ph')
      (shift (peer_total s) (lpeer l) (connected ph' - connected (lphase l))) \<and> live_ok ph'"
    using inv lok ge by (intro lease_run_adm [OF _ m]) (auto simp: ainv_def lease_ok_def)
  have tu: "total f ?t = total f s - f l + f (l\<lparr>lphase := ph'\<rparr>)" for f
    unfolding l_def by (rule total_update [OF r]) simp
  have peers: "peer_total ?t = shift (peer_total s) (lpeer l) (connected ph' - connected (lphase l))"
    by (rule ext) (simp add: tu)
  have lim: "limits a' = limits (adm s)" and acts: "handshakes a' = handshakes (adm s)" "upgrades a' = upgrades (adm s)"
    using m by (rule lease_run_frame)+
  have caps: "\<forall>j < length (caps ?t). cap_ok (caps ?t ! j) (slot_total ?t j)
      \<and> clim (caps ?t ! j) = MaxConnectionsPerListener (limits a')"
    and cs: "cas_ok (lease_cap ?t l) ph' \<and> phase_cap (lease_cap ?t l) ph' \<and> length (caps ?t) = length (caps s)
      \<and> (\<forall>j < length (caps s). clim (caps ?t ! j) = clim (caps s ! j))"
    using run_lease_caps [OF inv lok m r l_def [symmetric] slot, of ?t] lim by auto
  have y: "lease_ok ?t (l\<lparr>lphase := ph'\<rparr>)" using adm cs lok by (auto simp: lease_ok_def lease_cap_def)
  have "lease_ok ?t x" if "x \<in> set (leases ?t)" for x
    by (rule lease_ok_update [OF inv y]) (use cs that in simp_all)
  moreover have "state_total st ?t = state_total st s - in_state st (lphase l) + in_state st ph'" for st
    by (simp add: tu)
  moreover have "acts_ok ?t" using inv acts lim by (subst acts_ok_frame [of _ s]) (simp_all add: ainv_def)
  ultimately show ?thesis
    using adm caps unfolding t ainv_def peers by simp
qed

lemma ainv_call_lease:
  assumes inv: "ainv s" and r: "r < length (leases s)"
  shows "ainv (call_lease s r call)"
proof -
  define l where "l = leases s ! r"
  obtain a' ph' where m: "lease_do (adm s) (lphase l) call = (a', ph')" by fastforce
  let ?t = "s\<lparr>adm := a', leases := (leases s)[r := l\<lparr>lphase := ph'\<rparr>]\<rparr>"
  have t: "call_lease s r call = ?t" using m by (simp add: call_lease_def l_def Let_def)
  have lok: "lease_ok s l" using inv r by (auto simp: ainv_def l_def)
  have ge: "in_state st (lphase l) \<le> state_total st s" for st
    using total_ge [OF r, of "\<lambda>x. in_state st (lphase x)"] by (auto simp: l_def contribution_nonneg)
  have tu: "total f ?t = total f s - f l + f (l\<lparr>lphase := ph'\<rparr>)" for f
    unfolding l_def by (rule total_update [OF r]) simp
  have d: "adm_ok a' (state_total connectionOpening s - in_state connectionOpening (lphase l) + in_state connectionOpening ph')
      (state_total connectionActive s - in_state connectionActive (lphase l) + in_state connectionActive ph')
      (state_total connectionDraining s - in_state connectionDraining (lphase l) + in_state connectionDraining ph') (peer_total s)
     \<and> live_ok ph' \<and> connected ph' = connected (lphase l) \<and> has_slot ph' = has_slot (lphase l)
     \<and> (\<forall>lc. cas_ok lc (lphase l) \<longrightarrow> cas_ok lc ph') \<and> (phase_cap (lease_cap s l) (lphase l) \<longrightarrow> phase_cap (lease_cap s l) ph')"
    using inv lok ge by (intro lease_do_ok [OF _ m]) (simp_all add: ainv_def lease_ok_def)
  have fr: "limits a' = limits (adm s)" "handshakes a' = handshakes (adm s)" "upgrades a' = upgrades (adm s)"
    using m by (rule lease_do_frame)+
  have "lease_ok ?t x" if "x \<in> set (leases ?t)" for x
  proof -
    have "x = l\<lparr>lphase := ph'\<rparr> \<or> x \<in> set (leases s)"
      using that set_update_subset_insert [of "leases s" r] by fastforce
    then show ?thesis using d lok inv by (auto simp: lease_ok_def lease_cap_def ainv_def)
  qed
  moreover have "slot_total ?t j = slot_total s j" "peer_total ?t = peer_total s"
    "state_total st ?t = state_total st s - in_state st (lphase l) + in_state st ph'" for j st
    using d by (simp_all add: tu fun_eq_iff)
  moreover have "acts_ok ?t" using inv fr by (subst acts_ok_frame [of _ s]) (simp_all add: ainv_def)
  ultimately show ?thesis
    using d inv fr unfolding t ainv_def by simp
qed

lemma act_total_update:
  assumes "r < length (acts s)" and "acts s ! r = (k, ph)"
  shows "act_total k' (s\<lparr>adm := a, acts := (acts s)[r := (k, ph')]\<rparr>) =
     act_total k' s - of_bool (k = k' \<and> ph \<noteq> ActReleased) + of_bool (k = k' \<and> ph' \<noteq> ActReleased)"
  using assms by (simp add: act_total_def sum_list_map_update)

lemma act_total_ge:
  assumes "r < length (acts s)" and "acts s ! r = (k, ph)" and "ph \<noteq> ActReleased"
  shows "1 \<le> act_total k s"
proof -
  let ?f = "\<lambda>(k', ph). of_bool (k' = k \<and> ph \<noteq> ActReleased) :: int"
  have "?f (acts s ! r) \<le> act_total k s"
    unfolding act_total_def using assms(1) by (intro sum_list_map_ge) auto
  with assms show ?thesis by simp
qed

lemma ainv_frame:
  assumes "ainv s" and "leases t = leases s" and "caps t = caps s" and "acts_ok t"
    and "nopening (adm t) = nopening (adm s)" and "nactive (adm t) = nactive (adm s)"
    and "ndraining (adm t) = ndraining (adm s)" and "perPeer (adm t) = perPeer (adm s)"
    and "limits (adm t) = limits (adm s)"
  shows "ainv t"
proof -
  have "total f t = total f s" for f using assms(2) by (simp add: total_def)
  moreover have "adm_ok (adm t) = adm_ok (adm s)" by (intro ext) (simp add: adm_ok_def assms(5-9))
  moreover have "lease_ok t = lease_ok s" using assms by (simp add: lease_ok_def lease_cap_def fun_eq_iff)
  ultimately show ?thesis using assms by (simp add: ainv_def)
qed

lemma ainv_run_act:
  assumes inv: "ainv s" and r: "r < length (acts s)"
  shows "ainv (run_act s r)"
proof -
  obtain k ph where kp: "acts s ! r = (k, ph)" by fastforce
  have a: "acts_ok s" using inv by (simp add: ainv_def)
  show ?thesis
  proof (cases ph)
    case ActHeld
    then have t: "run_act s r = s\<lparr>adm := adm s, acts := (acts s)[r := (k, ActReleasing)]\<rparr>"
      using kp by (simp add: run_act_def)
    have "acts_ok (run_act s r)"
      using a unfolding t acts_ok_def act_total_update [OF r kp] by (auto simp: ActHeld)
    then show ?thesis by (intro ainv_frame [OF inv]) (simp_all add: t)
  next
    case ActReleasing
    then have t: "run_act s r = s\<lparr>adm := activity_release_locked k (adm s), acts := (acts s)[r := (k, ActReleased)]\<rparr>"
      using kp by (simp add: run_act_def)
    have "1 \<le> act_total k s" using act_total_ge [OF r kp] ActReleasing by simp
    then have "acts_ok (run_act s r)"
      using a unfolding t acts_ok_def act_total_update [OF r kp]
      by (cases k) (auto simp: ActReleasing activity_release_locked_def)
    then show ?thesis
      by (intro ainv_frame [OF inv]) (simp_all add: t activity_release_locked_def split: activity.splits)
  next
    case ActReleased
    with kp inv show ?thesis by (simp add: run_act_def)
  qed
qed

lemma ainv_new_act:
  assumes inv: "ainv s" and "activity_acquire k (adm s) = (e, a)"
  shows "ainv (s\<lparr>adm := a, acts := acts s @ (if e = None then [(k, ActHeld)] else [])\<rparr>)"
proof -
  let ?t = "s\<lparr>adm := a, acts := acts s @ (if e = None then [(k, ActHeld)] else [])\<rparr>"
  have tot: "act_total k' ?t = act_total k' s + of_bool (e = None \<and> k = k')" for k'
    by (simp add: act_total_def)
  have "acts_ok s" using inv by (simp add: ainv_def)
  then have "acts_ok ?t"
    using assms(2) unfolding acts_ok_def tot
    by (cases k) (auto simp: activity_acquire_def acquireHandshake_def acquireUpgrade_def split: if_splits)
  then show ?thesis
    using assms(2)
    by (intro ainv_frame [OF inv])
       (auto simp: activity_acquire_def acquireHandshake_def acquireUpgrade_def split: if_splits activity.splits)
qed

lemma ainv_new_lease:
  assumes inv: "ainv s" and "case lst of None \<Rightarrow> True | Some j \<Rightarrow> j < length (caps s)"
  shows "ainv (s\<lparr>leases := leases s @ [\<lparr>lpeer = peer, llistener = lst, lphase = CapLoad\<rparr>]\<rparr>)"
proof -
  let ?l = "\<lparr>lpeer = peer, llistener = lst, lphase = CapLoad\<rparr>"
  let ?t = "s\<lparr>leases := leases s @ [?l]\<rparr>"
  have "state_total st ?t = state_total st s" "peer_total ?t = peer_total s" "slot_total ?t j = slot_total s j" for st j
    by (auto simp: total_def fun_eq_iff)
  moreover have "lease_ok ?t = lease_ok s" by (simp add: lease_ok_def lease_cap_def fun_eq_iff)
  moreover have "lease_ok s ?l"
    using assms(2) by (auto simp: lease_ok_def live_ok_def phase_cap_def split: option.splits)
  moreover have "acts_ok ?t" using inv by (subst acts_ok_frame [of _ s]) (simp_all add: ainv_def)
  ultimately show ?thesis using inv by (simp add: ainv_def)
qed

lemma ainv_new_listener:
  assumes inv: "ainv s"
  shows "ainv (s\<lparr>caps := caps s @ [newListenerCapacity (MaxConnectionsPerListener (limits (adm s)))]\<rparr>)"
proof -
  let ?t = "s\<lparr>caps := caps s @ [newListenerCapacity (MaxConnectionsPerListener (limits (adm s)))]\<rparr>"
  have "total f ?t = total f s" for f by (simp add: total_def)
  moreover have "slot_total s (length (caps s)) = 0"
    unfolding total_def using inv
    by (intro sum_list_map_zero) (auto simp: ainv_def lease_ok_def)
  moreover have "lease_ok ?t l" if "lease_ok s l" for l
    using that by (cases "llistener l") (simp_all add: lease_ok_def lease_cap_def nth_append)
  moreover have "acts_ok ?t" using inv by (subst acts_ok_frame [of _ s]) (simp_all add: ainv_def)
  ultimately show ?thesis
    using inv by (auto simp: ainv_def nth_append less_Suc_eq cap_ok_def newListenerCapacity_def)
qed

lemma ainv_init: "ainit s \<Longrightarrow> ainv s"
  by (auto simp: ainit_def ainv_def adm_ok_def newAdmissionController_def total_def acts_ok_def act_total_def
      peer_count_def)

interpretation admission: invariant_system ainit astep ainv
proof
  show "ainv s" if "ainit s" for s using that by (rule ainv_init)
  show "ainv t" if "ainv s" "astep s t" for s t
    using that(2,1)
    by cases (simp_all add: ainv_run_lease ainv_call_lease ainv_run_act ainv_new_act ainv_new_lease ainv_new_listener)
qed

section \<open>Properties\<close>

lemma total_nonneg: "(\<And>l. 0 \<le> f l) \<Longrightarrow> 0 \<le> total f s"
  unfolding total_def by (intro sum_list_nonneg) auto

lemma total_le: "(\<And>l. f l \<le> g l) \<Longrightarrow> total f s \<le> total g s"
  unfolding total_def by (rule sum_list_mono) auto

lemma total_zero_imp:
  assumes "total f s = 0" and "\<And>l. 0 \<le> f l" and "l \<in> set (leases s)"
  shows "f l = 0"
proof -
  obtain r where "r < length (leases s)" "leases s ! r = l" using assms(3) by (auto simp: in_set_conv_nth)
  with total_ge [of r s f] assms show ?thesis by (metis order_antisym)
qed

text \<open>
  C9. Admission accounting: under every interleaving of acquisitions, activations, drains and
  releases (including lost compare-and-swap races on the listener counter), the opening, active,
  draining and per-peer counters equal the leases in those states, each listener's counter equals
  the slots its leases hold, and no counter exceeds its configured limit.
\<close>

theorem admission_counts:
  assumes "reachable ainit astep s"
  shows "nopening (adm s) = state_total connectionOpening s
     \<and> nactive (adm s) = state_total connectionActive s
     \<and> ndraining (adm s) = state_total connectionDraining s
     \<and> (\<forall>p. p \<noteq> [] \<longrightarrow> peer_count (perPeer (adm s)) p = peer_total s p)
     \<and> (\<forall>j < length (caps s). cused (caps s ! j) = slot_total s j)
     \<and> (0 < MaxConnections (limits (adm s)) \<longrightarrow>
          nopening (adm s) + nactive (adm s) + ndraining (adm s) \<le> MaxConnections (limits (adm s)))
     \<and> (0 < MaxConnectionsPerPeer (limits (adm s)) \<longrightarrow>
          (\<forall>p. p \<noteq> [] \<longrightarrow> peer_total s p \<le> MaxConnectionsPerPeer (limits (adm s))))
     \<and> (0 < MaxConnectionsPerListener (limits (adm s)) \<longrightarrow>
          (\<forall>j < length (caps s). slot_total s j \<le> MaxConnectionsPerListener (limits (adm s))))
     \<and> handshakes (adm s) = act_total Handshake s \<and> upgrades (adm s) = act_total Upgrade s
     \<and> (0 < MaxConcurrentHandshakes (limits (adm s)) \<longrightarrow>
          handshakes (adm s) \<le> MaxConcurrentHandshakes (limits (adm s)))
     \<and> (0 < MaxPendingUpgrades (limits (adm s)) \<longrightarrow>
          upgrades (adm s) \<le> MaxPendingUpgrades (limits (adm s)))"
  using admission.reachable_inv [OF assms] by (auto simp: ainv_def adm_ok_def cap_ok_def acts_ok_def)

text \<open>
  \<^verbatim>\<open>idle\<close> is exact: when it returns true, no connection lease is live or between the two sections
  of its release, and every handshake and upgrade lease has been released.
\<close>

lemma admission_idle:
  assumes "reachable ainit astep s" and "idle (adm s)"
  shows "(\<forall>l \<in> set (leases s). connected (lphase l) = 0) \<and> (\<forall>(k, ph) \<in> set (acts s). ph = ActReleased)"
proof -
  have inv: "ainv s" by (rule admission.reachable_inv [OF assms(1)])
  have "connected (lphase l) = 0" if l: "l \<in> set (leases s)" for l
  proof -
    have "state_total st s = 0" if "st \<noteq> connectionReleased" for st
      using that inv assms(2) by (cases st) (auto simp: ainv_def adm_ok_def idle_def)
    then have "in_state st (lphase l) = 0" if "st \<noteq> connectionReleased" for st
      using that l by (intro total_zero_imp [where f = "\<lambda>l. in_state st (lphase l)"]) (auto simp: contribution_nonneg)
    moreover have "live_ok (lphase l)" using inv l by (auto simp: ainv_def lease_ok_def)
    ultimately show ?thesis by (cases "lphase l") (auto simp: live_ok_def)
  qed
  moreover have "ph = ActReleased" if "(k, ph) \<in> set (acts s)" for k ph
  proof (rule ccontr)
    assume "ph \<noteq> ActReleased"
    then have "1 \<le> act_total k s"
      using that act_total_ge by (metis in_set_conv_nth)
    with inv assms(2) show False by (cases k) (auto simp: ainv_def acts_ok_def idle_def)
  qed
  ultimately show ?thesis by auto
qed

text \<open>A run that admits and activates one connection of a peer under a limit of two.\<close>

definition demo_limits :: Limits where
  "demo_limits = \<lparr>MaxConnections = 2, MaxConnectionsPerPeer = 1, MaxConnectionsPerListener = 0,
     MaxConcurrentHandshakes = 1, MaxPendingUpgrades = 0, MaxQueuedBytesTotal = 0\<rparr>"

definition demo_adm :: "int \<Rightarrow> int \<Rightarrow> phase \<Rightarrow> asys" where
  "demo_adm o1 a1 ph =
     \<lparr>adm = (newAdmissionController demo_limits)\<lparr>nopening := o1, nactive := a1,
        perPeer := (if o1 + a1 = 0 then Map.empty else [''p'' \<mapsto> 1])\<rparr>,
      caps = [], leases = [\<lparr>lpeer = ''p'', llistener = None, lphase = ph\<rparr>], acts = []\<rparr>"

lemma demo_adm_reachable: "reachable ainit astep (demo_adm 0 1 (Live connectionActive))"
proof -
  let ?s0 = "\<lparr>adm = newAdmissionController demo_limits, caps = [], leases = [], acts = []\<rparr>"
  note eval = demo_adm_def newAdmissionController_def demo_limits_def run_lease_def call_lease_def
    lease_cap_def put_cap_def acquireOpening_locked_def peer_count_def activate_def Let_def
  have r0: "reachable ainit astep ?s0" by (rule reach_init) (auto simp: ainit_def)
  have "astep ?s0 (demo_adm 0 0 CapLoad)"
    using astep.new_lease [where s = ?s0 and lst = None and peer = "''p''"] by (simp add: eval)
  note r1 = reach_step [OF r0 this]
  have "astep (demo_adm 0 0 CapLoad) (demo_adm 0 0 AcqLock)"
    using astep.run_lease [of 0 "demo_adm 0 0 CapLoad"] by (simp add: eval)
  note r2 = reach_step [OF r1 this]
  have "astep (demo_adm 0 0 AcqLock) (demo_adm 1 0 (Live connectionOpening))"
    using astep.run_lease [of 0 "demo_adm 0 0 AcqLock"] by (simp add: eval)
  note r3 = reach_step [OF r2 this]
  have "astep (demo_adm 1 0 (Live connectionOpening)) (demo_adm 0 1 (Live connectionActive))"
    using astep.call_lease [of 0 "demo_adm 1 0 (Live connectionOpening)" CallActivate] by (simp add: eval)
  then show ?thesis by (rule reach_step [OF r3])
qed

theorem admission_counts_witness:
  "\<exists>s. reachable ainit astep s \<and> nactive (adm s) = 1 \<and> peer_total s ''p'' = 1
     \<and> 0 < MaxConnectionsPerPeer (limits (adm s))"
  using admission_counts [OF demo_adm_reachable] demo_adm_reachable
  by (intro exI [of _ "demo_adm 0 1 (Live connectionActive)"])
     (simp add: demo_adm_def newAdmissionController_def demo_limits_def total_def)

end
