(* ===== verification/Engine.thy ===== *)
theory Engine
  imports Limits Session_State
begin

text \<open>
  The Engine's tracking and shutdown (\<^verbatim>\<open>transport/engine.go\<close>, \<^verbatim>\<open>engine_tracking_add.go\<close>,
  \<^verbatim>\<open>engine_tracking_remove.go\<close>, \<^verbatim>\<open>engine_admission.go\<close>, \<^verbatim>\<open>engine_shutdown.go\<close>) on top of the admission
  controller of \<open>Limits\<close>. Each function is a critical section of \<^verbatim>\<open>Engine.mu\<close>. The step relation
  \<open>estep\<close> interleaves operations (dials, accepts), handshake and upgrade leases, tracked sessions and
  listeners, shutdown and abort; leases held by the HTTP connection tracker
  (\<^verbatim>\<open>websocket_server_admission.go\<close>) are steps of their own that an argument switches on.
\<close>

section \<open>State\<close>

datatype engineState = engineRunning | engineDraining | engineAborting | engineDone

text \<open>
  The Go code keeps one map per kind of listener and of session, and one lease map per kind of
  session; here a key is a kind with an identifier.
\<close>

datatype listenerKind = KListener | KWSListener

datatype sessionKind = KStream | KWebSocket | KPacket

type_synonym lkey = "listenerKind \<times> nat"
type_synonym skey = "sessionKind \<times> nat"

record connectionLease =
  cpeer :: string
  cstate :: connectionLeaseState

record engine =
  estate :: engineState
  eadm :: admissionController
  shutdownReason :: abortReason
  shutdownErr :: "gerr option"
  activeOps :: int
  listeners :: "lkey list"
  sessions :: "skey list"
  sleases :: "skey \<rightharpoonup> connectionLease"
  edone :: bool
  observerStops :: nat

definition newEngine :: "Limits \<Rightarrow> engine" where
  "newEngine l =
     \<lparr>estate = engineRunning, eadm = newAdmissionController l, shutdownReason = abortNone,
      shutdownErr = None, activeOps = 0, listeners = [], sessions = [], sleases = Map.empty,
      edone = False, observerStops = 0\<rparr>"

section \<open>Tracking\<close>

text \<open>\<open>doneOnce\<close> runs its body once: while \<^verbatim>\<open>done\<close> is open.\<close>

definition ready_done :: "engine \<Rightarrow> bool" where
  "ready_done e \<longleftrightarrow> activeOps e = 0 \<and> listeners e = [] \<and> sessions e = [] \<and> idle (eadm e)"

definition maybeDoneLocked :: "engine \<Rightarrow> engine" where
  "maybeDoneLocked e =
     (if estate e \<noteq> engineRunning \<and> ready_done e
      then e\<lparr>estate := engineDone, edone := True,
             observerStops := (if edone e then observerStops e else observerStops e + 1)\<rparr>
      else e)"

definition beginOp :: "engine \<Rightarrow> gerr option \<times> engine" where
  "beginOp e =
     (if estate e \<noteq> engineRunning then (Some (Sentinel ErrClosed), e)
      else (None, e\<lparr>activeOps := activeOps e + 1\<rparr>))"

definition endOp :: "engine \<Rightarrow> engine" where
  "endOp e =
     (let n = activeOps e - 1 in maybeDoneLocked (e\<lparr>activeOps := (if n < 0 then 0 else n)\<rparr>))"

definition addTracked :: "engine \<Rightarrow> lkey \<Rightarrow> gerr option \<times> engine" where
  "addTracked e k =
     (if estate e \<noteq> engineRunning then (Some (Sentinel ErrClosed), e)
      else (None, e\<lparr>listeners := List.insert k (listeners e)\<rparr>))"

definition acquireConnection ::
  "admissionController \<Rightarrow> string \<Rightarrow> (gerr + connectionLease) \<times> admissionController"
where
  "acquireConnection a peer =
     (case acquireOpening_locked a peer of
        (Some err, a') \<Rightarrow> (Inl err, a')
      | (None, a') \<Rightarrow>
          (case activate a' connectionOpening of
             (_, a'', st) \<Rightarrow> (Inr \<lparr>cpeer = peer, cstate = st\<rparr>, a'')))"

definition track :: "engine \<Rightarrow> skey \<Rightarrow> connectionLease \<Rightarrow> admissionController \<Rightarrow> engine" where
  "track e k l a =
     e\<lparr>eadm := a, sessions := List.insert k (sessions e), sleases := (sleases e)(k \<mapsto> l)\<rparr>"

text \<open>
  \<^verbatim>\<open>addStreamWithLease\<close>, \<^verbatim>\<open>addWebSocketWithLease\<close>, and with no lease \<^verbatim>\<open>addPacket\<close>: \<open>peer\<close> is the key of
  the remote address.
\<close>

definition addWithLease ::
  "engine \<Rightarrow> skey \<Rightarrow> string \<Rightarrow> connectionLease option \<Rightarrow> gerr option \<times> engine"
where
  "addWithLease e k peer lease =
     (if estate e \<noteq> engineRunning then (Some (Sentinel ErrClosed), e) else
      case lease of
        None \<Rightarrow>
          (case acquireConnection (eadm e) peer of
             (Inl err, a) \<Rightarrow> (Some err, e\<lparr>eadm := a\<rparr>)
           | (Inr l, a) \<Rightarrow> (None, track e k l a))
      | Some l \<Rightarrow>
          (case activate (eadm e) (cstate l) of
             (False, a, st) \<Rightarrow> (Some (Sentinel ErrClosed), e\<lparr>eadm := a\<rparr>)
           | (True, a, st) \<Rightarrow> (None, track e k (l\<lparr>cstate := st\<rparr>) a)))"

text \<open>\<^verbatim>\<open>lease.release()\<close> of a lease that nobody else holds; \<open>None\<close> is the nil lease.\<close>

definition release_lease :: "admissionController \<Rightarrow> connectionLease option \<Rightarrow> admissionController" where
  "release_lease a lease =
     (case lease of None \<Rightarrow> a | Some l \<Rightarrow>
      if cstate l = connectionReleased then a else release_locked a (cpeer l) (cstate l))"

text \<open>\<^verbatim>\<open>removeStream\<close>, \<^verbatim>\<open>removeWebSocket\<close>, \<^verbatim>\<open>removePacket\<close>.\<close>

definition removeSession :: "engine \<Rightarrow> skey \<Rightarrow> engine" where
  "removeSession e k =
     maybeDoneLocked
       (e\<lparr>sessions := removeAll k (sessions e), sleases := (sleases e)(k := None),
          eadm := release_lease (eadm e) (sleases e k)\<rparr>)"

definition removeTracked :: "engine \<Rightarrow> lkey \<Rightarrow> engine" where
  "removeTracked e k = maybeDoneLocked (e\<lparr>listeners := removeAll k (listeners e)\<rparr>)"

section \<open>Handshake and upgrade leases of the Engine\<close>

definition engine_acquire :: "activity \<Rightarrow> engine \<Rightarrow> gerr option \<times> engine" where
  "engine_acquire k e =
     (if estate e \<noteq> engineRunning then (Some (Sentinel ErrClosed), e)
      else (case activity_acquire k (eadm e) of (err, a) \<Rightarrow> (err, e\<lparr>eadm := a\<rparr>)))"

text \<open>
  \<^verbatim>\<open>engineActivityLease.release\<close>: the admission part, then \<^verbatim>\<open>maybeDone\<close>. Other goroutines may run
  between the two.
\<close>

definition engine_release_activity :: "activity \<Rightarrow> engine \<Rightarrow> engine" where
  "engine_release_activity k e = e\<lparr>eadm := activity_release_locked k (eadm e)\<rparr>"

section \<open>Shutdown\<close>

record engineShutdownSet =
  setListeners :: "lkey list"
  setSessions :: "skey list"

definition snapshotShutdownSetLocked :: "engine \<Rightarrow> engineShutdownSet" where
  "snapshotShutdownSetLocked e = \<lparr>setListeners = listeners e, setSessions = sessions e\<rparr>"

definition emptySet :: engineShutdownSet where
  "emptySet = \<lparr>setListeners = [], setSessions = []\<rparr>"

definition drain_one :: "skey \<Rightarrow> engine \<Rightarrow> engine" where
  "drain_one k e =
     (case sleases e k of None \<Rightarrow> e | Some l \<Rightarrow>
      (case beginDrain (eadm e) (cstate l) of
         (_, a, st) \<Rightarrow> e\<lparr>eadm := a, sleases := (sleases e)(k \<mapsto> l\<lparr>cstate := st\<rparr>)\<rparr>))"

definition beginGracefulShutdown :: "engine \<Rightarrow> (bool \<times> engineShutdownSet) \<times> engine" where
  "beginGracefulShutdown e =
     (if estate e \<noteq> engineRunning then ((False, emptySet), e)
      else ((True, snapshotShutdownSetLocked e),
            maybeDoneLocked (fold drain_one (sessions e) (e\<lparr>estate := engineDraining\<rparr>))))"

definition beginAbort :: "abortReason \<Rightarrow> engine \<Rightarrow> (engineShutdownSet \<times> bool) \<times> engine" where
  "beginAbort reason e =
     (if estate e = engineDone \<or> estate e = engineAborting then ((emptySet, False), e)
      else let e' = e\<lparr>estate := engineAborting,
                 shutdownReason := (if shutdownReason e = abortNone then reason else shutdownReason e)\<rparr>
        in ((snapshotShutdownSetLocked e', True), maybeDoneLocked e'))"

text \<open>\<^verbatim>\<open>errors.Join\<close> drops nil errors and is nil when none is left.\<close>

definition errors_Join :: "gerr option list \<Rightarrow> gerr option" where
  "errors_Join es = (let xs = map the (filter (\<lambda>e. e \<noteq> None) es) in if xs = [] then None else Some (ErrorsJoin xs))"

definition appendCloseErr :: "gerr list \<Rightarrow> gerr option \<Rightarrow> gerr list" where
  "appendCloseErr dst err = (case err of Some e \<Rightarrow> dst @ [e] | None \<Rightarrow> dst)"

text \<open>
  \<open>closeL\<close> and \<open>closeS\<close> are the results of \<^verbatim>\<open>Close\<close> on the listeners and sessions of the set.
  \<^verbatim>\<open>requestGracefulShutdown\<close> closes the listeners and only requests the sessions to drain.
\<close>

definition join_collected :: "gerr list \<Rightarrow> gerr option" where
  "join_collected errs = errors_Join (map Some errs)"

definition requestGracefulShutdown :: "(lkey \<Rightarrow> gerr option) \<Rightarrow> engineShutdownSet \<Rightarrow> gerr option" where
  "requestGracefulShutdown closeL st =
     join_collected (foldl appendCloseErr [] (map closeL (setListeners st)))"

definition closeSet ::
  "(lkey \<Rightarrow> gerr option) \<Rightarrow> (skey \<Rightarrow> gerr option) \<Rightarrow> engineShutdownSet \<Rightarrow> gerr option"
where
  "closeSet closeL closeS st =
     join_collected (foldl appendCloseErr (foldl appendCloseErr [] (map closeL (setListeners st)))
       (map closeS (setSessions st)))"

definition recordShutdownError :: "gerr option \<Rightarrow> engine \<Rightarrow> engine" where
  "recordShutdownError err e =
     (case err of None \<Rightarrow> e | Some x \<Rightarrow>
      e\<lparr>shutdownErr := (case shutdownErr e of None \<Rightarrow> Some x | Some y \<Rightarrow> Some (ErrorsJoin [y, x]))\<rparr>)"

definition shutdownResult :: "engine \<Rightarrow> gerr option" where
  "shutdownResult e =
     (case shutdownErr e of Some x \<Rightarrow> Some x | None \<Rightarrow>
      if shutdownReason e = abortNone then None else Some (Sentinel ErrClosed))"

definition abortRemaining ::
  "(lkey \<Rightarrow> gerr option) \<Rightarrow> (skey \<Rightarrow> gerr option) \<Rightarrow> abortReason \<Rightarrow> engine \<Rightarrow> engine"
where
  "abortRemaining closeL closeS reason e =
     (case beginAbort reason e of
        ((st, False), e') \<Rightarrow> e'
      | ((st, True), e') \<Rightarrow> recordShutdownError (closeSet closeL closeS st) e')"

definition Close ::
  "(lkey \<Rightarrow> gerr option) \<Rightarrow> (skey \<Rightarrow> gerr option) \<Rightarrow> engine \<Rightarrow> gerr option \<times> engine"
where
  "Close closeL closeS e =
     (case beginAbort abortExplicit e of
        ((st, False), e') \<Rightarrow> (None, e')
      | ((st, True), e') \<Rightarrow> (closeSet closeL closeS st, e'))"

text \<open>
  \<^verbatim>\<open>Shutdown\<close> up to its \<^verbatim>\<open>select\<close>: \<open>None\<close> is a nil context and \<open>Some c\<close> a context whose cause at the
  call is \<open>c\<close>. The result is an early return, or whether this call owns the shutdown.
\<close>

definition Shutdown_begin ::
  "(lkey \<Rightarrow> gerr option) \<Rightarrow> (skey \<Rightarrow> gerr option) \<Rightarrow> gerr option option \<Rightarrow> engine \<Rightarrow> (gerr + bool) \<times> engine"
where
  "Shutdown_begin closeL closeS ctx e =
     (case ctx of
        None \<Rightarrow> (Inl (Sentinel ErrNilContext), e)
      | Some (Some cause) \<Rightarrow> (Inl cause, e)
      | Some None \<Rightarrow>
          (case beginGracefulShutdown e of
             ((owner, st), e') \<Rightarrow>
               if owner then
                 (case requestGracefulShutdown closeL st of
                    None \<Rightarrow> (Inr True, e')
                  | Some err \<Rightarrow>
                      (Inr True, abortRemaining closeL closeS abortFailure (recordShutdownError (Some err) e')))
               else (Inr False, e')))"

datatype shutdown_wake = DoneClosed | CtxDone gerr

definition Shutdown_finish ::
  "(lkey \<Rightarrow> gerr option) \<Rightarrow> (skey \<Rightarrow> gerr option) \<Rightarrow> bool \<Rightarrow> shutdown_wake \<Rightarrow> engine \<Rightarrow> gerr option \<times> engine"
where
  "Shutdown_finish closeL closeS owner wake e =
     (case wake of
        DoneClosed \<Rightarrow> (shutdownResult e, e)
      | CtxDone cause \<Rightarrow> (Some cause, if owner then abortRemaining closeL closeS abortCaller e else e))"

section \<open>Interleaved operations\<close>

text \<open>
  A goroutine inside an operation (\<^verbatim>\<open>beginOp\<close> to \<^verbatim>\<open>endOp\<close>), holding an opening lease for a peer or none;
  one that holds a handshake or upgrade lease; one that has released it and is about to call
  \<^verbatim>\<open>maybeDone\<close>; an opening lease owned by the HTTP connection tracker; a finished one.
\<close>

datatype ethread = InOp "string option" | InAct activity | MustCheck | HttpHeld string | Finished

record esys =
  eng :: engine
  thr :: "ethread list"

abbreviation set_eng :: "esys \<Rightarrow> engine \<Rightarrow> nat \<Rightarrow> ethread \<Rightarrow> esys" where
  "set_eng s e i t \<equiv> s\<lparr>eng := e, thr := (thr s)[i := t]\<rparr>"

abbreviation open_lease :: "string \<Rightarrow> connectionLease" where
  "open_lease p \<equiv> \<lparr>cpeer = p, cstate = connectionOpening\<rparr>"

inductive estep :: "bool \<Rightarrow> esys \<Rightarrow> esys \<Rightarrow> bool" for http :: bool where
  begin_op: "beginOp (eng s) = (None, e) \<Longrightarrow> estep http s (s\<lparr>eng := e, thr := thr s @ [InOp None]\<rparr>)"
| acquire: "i < length (thr s) \<Longrightarrow> thr s ! i = InOp None \<Longrightarrow>
     acquireOpening_locked (eadm (eng s)) p = (r, a) \<Longrightarrow>
     estep http s (set_eng s ((eng s)\<lparr>eadm := a\<rparr>) i (InOp (if r = None then Some p else None)))"
| adopt: "i < length (thr s) \<Longrightarrow> thr s ! i = InOp (Some p) \<Longrightarrow> k \<notin> set (sessions (eng s)) \<Longrightarrow>
     addWithLease (eng s) k p (Some (open_lease p)) = (r, e) \<Longrightarrow>
     estep http s (set_eng s e i (InOp (if r = None then None else Some p)))"
| adopt_new: "i < length (thr s) \<Longrightarrow> thr s ! i = InOp x \<Longrightarrow> k \<notin> set (sessions (eng s)) \<Longrightarrow>
     addWithLease (eng s) k p None = (r, e) \<Longrightarrow> estep http s (s\<lparr>eng := e\<rparr>)"
| listen: "i < length (thr s) \<Longrightarrow> thr s ! i = InOp x \<Longrightarrow> addTracked (eng s) k = (r, e) \<Longrightarrow>
     estep http s (s\<lparr>eng := e\<rparr>)"
| drop_lease: "i < length (thr s) \<Longrightarrow> thr s ! i = InOp (Some p) \<Longrightarrow>
     estep http s (set_eng s ((eng s)\<lparr>eadm := release_lease (eadm (eng s)) (Some (open_lease p))\<rparr>) i (InOp None))"
| end_op: "i < length (thr s) \<Longrightarrow> thr s ! i = InOp None \<Longrightarrow>
     estep http s (set_eng s (endOp (eng s)) i Finished)"
| new_act: "engine_acquire k (eng s) = (r, e) \<Longrightarrow>
     estep http s (s\<lparr>eng := e, thr := thr s @ (if r = None then [InAct k] else [])\<rparr>)"
| act_release: "i < length (thr s) \<Longrightarrow> thr s ! i = InAct k \<Longrightarrow>
     estep http s (set_eng s (engine_release_activity k (eng s)) i MustCheck)"
| check: "i < length (thr s) \<Longrightarrow> thr s ! i = MustCheck \<Longrightarrow>
     estep http s (set_eng s (maybeDoneLocked (eng s)) i Finished)"
| session_gone: "k \<in> set (sessions (eng s)) \<Longrightarrow> estep http s (s\<lparr>eng := removeSession (eng s) k\<rparr>)"
| listener_gone: "estep http s (s\<lparr>eng := removeTracked (eng s) lk\<rparr>)"
| graceful: "estep http s (s\<lparr>eng := snd (beginGracefulShutdown (eng s))\<rparr>)"
| abort: "estep http s (s\<lparr>eng := snd (beginAbort reason (eng s))\<rparr>)"
| record_err: "estep http s (s\<lparr>eng := recordShutdownError x (eng s)\<rparr>)"
| http_register: "http \<Longrightarrow> i < length (thr s) \<Longrightarrow> thr s ! i = InOp (Some p) \<Longrightarrow>
     estep http s (s\<lparr>thr := (thr s)[i := InOp None] @ [HttpHeld p]\<rparr>)"
| http_take: "http \<Longrightarrow> i < length (thr s) \<Longrightarrow> j < length (thr s) \<Longrightarrow> thr s ! i = HttpHeld p \<Longrightarrow>
     thr s ! j = InOp None \<Longrightarrow> estep http s (s\<lparr>thr := (thr s)[i := Finished, j := InOp (Some p)]\<rparr>)"
| http_release: "http \<Longrightarrow> i < length (thr s) \<Longrightarrow> thr s ! i = HttpHeld p \<Longrightarrow>
     estep http s (set_eng s ((eng s)\<lparr>eadm := release_lease (eadm (eng s)) (Some (open_lease p))\<rparr>) i Finished)"

definition einit :: "esys \<Rightarrow> bool" where
  "einit s \<longleftrightarrow> (\<exists>l. s = \<lparr>eng = newEngine l, thr = []\<rparr>)"

section \<open>Counting\<close>

fun t_op :: "ethread \<Rightarrow> int" where
  "t_op (InOp x) = 1"
| "t_op t = 0"

fun t_open :: "ethread \<Rightarrow> int" where
  "t_open (InOp (Some p)) = 1"
| "t_open (HttpHeld p) = 1"
| "t_open t = 0"

fun t_act :: "activity \<Rightarrow> ethread \<Rightarrow> int" where
  "t_act k (InAct k') = of_bool (k' = k)"
| "t_act k t = 0"

abbreviation tsum :: "(ethread \<Rightarrow> int) \<Rightarrow> ethread list \<Rightarrow> int" where
  "tsum f ts \<equiv> sum_list (map f ts)"

definition lease_in :: "connectionLeaseState \<Rightarrow> (skey \<rightharpoonup> connectionLease) \<Rightarrow> skey \<Rightarrow> int" where
  "lease_in st m k = (case m k of None \<Rightarrow> 0 | Some l \<Rightarrow> of_bool (cstate l = st))"

definition ssum :: "connectionLeaseState \<Rightarrow> engine \<Rightarrow> int" where
  "ssum st e = sum_list (map (lease_in st (sleases e)) (sessions e))"

text \<open>The session leases and what the controller counts for them.\<close>

definition leases_ok :: "engine \<Rightarrow> bool" where
  "leases_ok e \<longleftrightarrow> distinct (sessions e) \<and> dom (sleases e) = set (sessions e)
     \<and> (\<forall>k l. sleases e k = Some l \<longrightarrow> cstate l = connectionActive \<or> cstate l = connectionDraining)
     \<and> nactive (eadm e) = ssum connectionActive e \<and> ndraining (eadm e) = ssum connectionDraining e"

definition done_ok :: "engine \<Rightarrow> bool" where
  "done_ok e \<longleftrightarrow> (edone e \<longleftrightarrow> estate e = engineDone) \<and> observerStops e = of_bool (edone e)
     \<and> (edone e \<longrightarrow> ready_done e)"

definition einv :: "esys \<Rightarrow> bool" where
  "einv s \<longleftrightarrow>
     activeOps (eng s) = tsum t_op (thr s)
     \<and> nopening (eadm (eng s)) = tsum t_open (thr s)
     \<and> handshakes (eadm (eng s)) = tsum (t_act Handshake) (thr s)
     \<and> upgrades (eadm (eng s)) = tsum (t_act Upgrade) (thr s)
     \<and> leases_ok (eng s) \<and> done_ok (eng s)"

lemma thread_nonneg: "0 \<le> t_op t" "0 \<le> t_open t" "0 \<le> t_act k t"
proof -
  show "0 \<le> t_op t" by (cases t) simp_all
  show "0 \<le> t_open t" by (cases t rule: t_open.cases) simp_all
  show "0 \<le> t_act k t" by (cases t) simp_all
qed

lemma tsum_ge: "i < length ts \<Longrightarrow> (\<And>t. 0 \<le> f t) \<Longrightarrow> f (ts ! i) \<le> tsum f ts"
  by (rule sum_list_map_ge)

lemmas tsum_update = sum_list_map_update [where 'a = ethread]

lemma sum_list_fun_upd:
  "distinct xs \<Longrightarrow> k \<in> set xs \<Longrightarrow>
     sum_list (map (f(k := v)) xs) = sum_list (map f xs) - f k + (v :: int)"
proof (induction xs)
  case (Cons x xs)
  then show ?case
    by (cases "x = k") (auto simp: map_fun_upd simp del: fun_upd_apply, auto)
qed simp

lemma sum_list_removeAll:
  "distinct xs \<Longrightarrow> k \<in> set xs \<Longrightarrow> sum_list (map f (removeAll k xs)) = sum_list (map f xs) - (f k :: int)"
  by (induction xs) auto

lemma lease_in_upd: "lease_in st (m(k \<mapsto> l)) = (lease_in st m)(k := of_bool (cstate l = st))"
  by (auto simp: lease_in_def fun_eq_iff)

lemma maybeDone_frame [simp]:
  "activeOps (maybeDoneLocked e) = activeOps e" "eadm (maybeDoneLocked e) = eadm e"
  "sessions (maybeDoneLocked e) = sessions e" "sleases (maybeDoneLocked e) = sleases e"
  "listeners (maybeDoneLocked e) = listeners e"
  by (simp_all add: maybeDoneLocked_def)

lemma leases_ok_maybeDone [simp]: "leases_ok (maybeDoneLocked e) = leases_ok e"
  by (simp add: leases_ok_def ssum_def)

lemma done_ok_maybeDone:
  assumes "edone e \<longleftrightarrow> estate e = engineDone" and "observerStops e = of_bool (edone e)"
    and "edone e \<longrightarrow> ready_done e"
  shows "done_ok (maybeDoneLocked e)"
  using assms by (auto simp: done_ok_def maybeDoneLocked_def ready_done_def)

section \<open>What the operations do to the counters\<close>

definition same_conn :: "admissionController \<Rightarrow> admissionController \<Rightarrow> bool" where
  "same_conn a b \<longleftrightarrow> nactive a = nactive b \<and> ndraining a = ndraining b
     \<and> handshakes a = handshakes b \<and> upgrades a = upgrades b"

lemma acquireOpening_counts:
  assumes "acquireOpening_locked a p = (r, a')"
  shows "same_conn a' a" and "nopening a' = nopening a + of_bool (r = None)"
  using assms by (auto simp: acquireOpening_locked_def same_conn_def split: if_splits)

lemma release_open_counts:
  assumes "1 \<le> nopening a"
  shows "same_conn (release_lease a (Some (open_lease p))) a"
    and "nopening (release_lease a (Some (open_lease p))) = nopening a - 1"
  using assms
  by (simp_all add: release_lease_def release_locked_def release_state_def release_peer_def same_conn_def Let_def)

lemma activity_counts:
  assumes "activity_acquire k a = (r, a')"
  shows "nopening a' = nopening a" "nactive a' = nactive a" "ndraining a' = ndraining a"
    "handshakes a' = handshakes a + of_bool (r = None \<and> k = Handshake)"
    "upgrades a' = upgrades a + of_bool (r = None \<and> k = Upgrade)"
  using assms
  by (cases k; auto simp: activity_acquire_def acquireHandshake_def acquireUpgrade_def split: if_splits)+

lemma leases_ok_frame:
  assumes "leases_ok e" and "sessions e' = sessions e" and "sleases e' = sleases e"
    and "nactive (eadm e') = nactive (eadm e)" and "ndraining (eadm e') = ndraining (eadm e)"
  shows "leases_ok e'"
  using assms by (simp add: leases_ok_def ssum_def)

lemma leases_ok_track:
  assumes "leases_ok e" and k: "k \<notin> set (sessions e)" and "cstate l = connectionActive"
    and "nactive a = nactive (eadm e) + 1" and "ndraining a = ndraining (eadm e)"
  shows "leases_ok (track e k l a)"
proof -
  have "map (lease_in st ((sleases e)(k \<mapsto> l))) (sessions e) = map (lease_in st (sleases e)) (sessions e)" for st
    using k by (auto simp: lease_in_def)
  moreover have "lease_in st ((sleases e)(k \<mapsto> l)) k = of_bool (st = connectionActive)" for st
    using assms(3) by (auto simp: lease_in_def)
  ultimately have "ssum st (track e k l a) = ssum st e + of_bool (st = connectionActive)" for st
    using k by (simp add: ssum_def track_def del: map_eq_conv)
  with assms show ?thesis by (auto simp: leases_ok_def track_def)
qed

lemma addWithLease_ok:
  assumes "leases_ok e" and "k \<notin> set (sessions e)" and "addWithLease e k p lease = (r, e')"
    and "case lease of None \<Rightarrow> 0 \<le> nopening (eadm e) | Some l \<Rightarrow> cstate l = connectionOpening \<and> 1 \<le> nopening (eadm e)"
  shows "leases_ok e' \<and> activeOps e' = activeOps e \<and> handshakes (eadm e') = handshakes (eadm e)
     \<and> upgrades (eadm e') = upgrades (eadm e) \<and> estate e' = estate e \<and> edone e' = edone e
     \<and> observerStops e' = observerStops e \<and> (r = None \<longrightarrow> estate e = engineRunning)
     \<and> nopening (eadm e') = nopening (eadm e) - of_bool (r = None \<and> lease \<noteq> None)
     \<and> (r \<noteq> None \<longrightarrow> sessions e' = sessions e) \<and> listeners e' = listeners e
     \<and> (estate e \<noteq> engineRunning \<longrightarrow> e' = e)"
proof (cases "estate e = engineRunning")
  case run: True
  show ?thesis
  proof (cases lease)
    case None
    obtain x a where x: "acquireOpening_locked (eadm e) p = (x, a)" by fastforce
    note c = acquireOpening_counts [OF x]
    show ?thesis
    proof (cases x)
      case (Some err)
      with assms(3) x None run have "e' = e\<lparr>eadm := a\<rparr>" "r = Some err"
        by (auto simp: addWithLease_def acquireConnection_def)
      with c Some run None assms(1) show ?thesis by (auto simp: same_conn_def intro: leases_ok_frame)
    next
      case None': None
      let ?l = "\<lparr>cpeer = p, cstate = connectionActive\<rparr>"
      let ?a = "a\<lparr>nopening := dec_pos (nopening a), nactive := nactive a + 1\<rparr>"
      from assms(3) x None None' run have e': "e' = track e k ?l ?a" "r = None"
        by (auto simp: addWithLease_def acquireConnection_def activate_def)
      moreover have "leases_ok (track e k ?l ?a)"
        using c by (intro leases_ok_track assms) (auto simp: same_conn_def)
      ultimately show ?thesis
        using c None None' run assms(4) by (simp add: track_def same_conn_def)
    qed
  next
    case (Some l)
    let ?a = "(eadm e)\<lparr>nopening := dec_pos (nopening (eadm e)), nactive := nactive (eadm e) + 1\<rparr>"
    from assms(3,4) Some run have e': "e' = track e k (l\<lparr>cstate := connectionActive\<rparr>) ?a" "r = None"
      by (auto simp: addWithLease_def activate_def)
    moreover have "leases_ok (track e k (l\<lparr>cstate := connectionActive\<rparr>) ?a)"
      by (intro leases_ok_track assms) auto
    ultimately show ?thesis using Some run assms(4) by (simp add: track_def)
  qed
next
  case False
  with assms show ?thesis by (auto simp: addWithLease_def)
qed

lemma leases_ok_lookup:
  assumes "leases_ok e" and "k \<in> set (sessions e)"
  obtains l where "sleases e k = Some l"
proof -
  from assms have "k \<in> dom (sleases e)" by (simp add: leases_ok_def)
  then show ?thesis using that by (auto simp: dom_def)
qed

lemma ssum_ge:
  assumes "k \<in> set (sessions e)"
  shows "lease_in st (sleases e) k \<le> ssum st e"
proof -
  obtain i where "i < length (sessions e)" "sessions e ! i = k" using assms by (auto simp: in_set_conv_nth)
  then show ?thesis
    unfolding ssum_def
    using sum_list_map_ge [of i "sessions e" "lease_in st (sleases e)"] by (auto simp: lease_in_def split: option.splits)
qed

lemma removeSession_ok:
  assumes "leases_ok e" and k: "k \<in> set (sessions e)"
  shows "leases_ok (removeSession e k) \<and> nopening (eadm (removeSession e k)) = nopening (eadm e)
     \<and> handshakes (eadm (removeSession e k)) = handshakes (eadm e)
     \<and> upgrades (eadm (removeSession e k)) = upgrades (eadm e)"
proof -
  obtain l where l: "sleases e k = Some l" using leases_ok_lookup [OF assms] .
  let ?m = "(sleases e)(k := None)"
  have d: "distinct (sessions e)" using assms(1) by (simp add: leases_ok_def)
  have "map (lease_in st ?m) (removeAll k (sessions e)) = map (lease_in st (sleases e)) (removeAll k (sessions e))" for st
    by (auto simp: lease_in_def)
  then have s: "sum_list (map (lease_in st ?m) (removeAll k (sessions e))) = ssum st e - lease_in st (sleases e) k" for st
    using sum_list_removeAll [OF d k, of "lease_in st (sleases e)"] by (simp add: ssum_def del: map_eq_conv)
  have st: "cstate l = connectionActive \<or> cstate l = connectionDraining"
    using assms(1) l unfolding leases_ok_def by blast
  have ge: "of_bool (cstate l = st) \<le> ssum st e" for st using ssum_ge [OF k, of st] l by (simp add: lease_in_def)
  have "nactive (release_lease (eadm e) (Some l)) = ssum connectionActive e - of_bool (cstate l = connectionActive)"
    "ndraining (release_lease (eadm e) (Some l)) = ssum connectionDraining e - of_bool (cstate l = connectionDraining)"
    "nopening (release_lease (eadm e) (Some l)) = nopening (eadm e)"
    "handshakes (release_lease (eadm e) (Some l)) = handshakes (eadm e)"
    "upgrades (release_lease (eadm e) (Some l)) = upgrades (eadm e)"
    using st ge [of connectionActive] ge [of connectionDraining] assms(1)
    by (auto simp: release_lease_def release_locked_def release_state_def release_peer_def leases_ok_def Let_def
        split: connectionLeaseState.splits)
  note r = this
  let ?e = "e\<lparr>sessions := removeAll k (sessions e), sleases := ?m, eadm := release_lease (eadm e) (Some l)\<rparr>"
  have "ssum st ?e = ssum st e - of_bool (cstate l = st)" for st
    using s [of st] l by (simp add: ssum_def lease_in_def [of _ "sleases e"])
  moreover have "distinct (removeAll k (sessions e))" using d by (simp add: distinct_removeAll)
  moreover have "dom ?m = set (removeAll k (sessions e))" using assms(1) by (auto simp: leases_ok_def)
  moreover have "\<forall>k' l'. ?m k' = Some l' \<longrightarrow> cstate l' = connectionActive \<or> cstate l' = connectionDraining"
    using assms(1) unfolding leases_ok_def by (metis fun_upd_apply option.discI)
  ultimately have "leases_ok ?e" using r by (simp add: leases_ok_def)
  with r l show ?thesis by (simp add: removeSession_def)
qed

lemma drain_one_ok:
  assumes "leases_ok e" and k: "k \<in> set (sessions e)"
  shows "leases_ok (drain_one k e) \<and> nopening (eadm (drain_one k e)) = nopening (eadm e)
     \<and> handshakes (eadm (drain_one k e)) = handshakes (eadm e)
     \<and> upgrades (eadm (drain_one k e)) = upgrades (eadm e) \<and> sessions (drain_one k e) = sessions e
     \<and> listeners (drain_one k e) = listeners e \<and> activeOps (drain_one k e) = activeOps e
     \<and> estate (drain_one k e) = estate e \<and> edone (drain_one k e) = edone e
     \<and> observerStops (drain_one k e) = observerStops e"
proof -
  obtain l where l: "sleases e k = Some l" using leases_ok_lookup [OF assms] .
  have st: "cstate l = connectionActive \<or> cstate l = connectionDraining"
    using assms(1) l unfolding leases_ok_def by blast
  have d: "distinct (sessions e)" using assms(1) by (simp add: leases_ok_def)
  show ?thesis
  proof (cases "cstate l = connectionActive")
    case True
    then have ge: "1 \<le> ssum connectionActive e" using ssum_ge [OF k, of connectionActive] l by (simp add: lease_in_def)
    define e' where "e' = drain_one k e"
    have e': "e' = e\<lparr>eadm := (eadm e)\<lparr>nactive := dec_pos (nactive (eadm e)), ndraining := ndraining (eadm e) + 1\<rparr>,
        sleases := (sleases e)(k \<mapsto> l\<lparr>cstate := connectionDraining\<rparr>)\<rparr>"
      using l True by (simp add: e'_def drain_one_def beginDrain_def)
    have "ssum st e' = ssum st e - of_bool (st = connectionActive) + of_bool (st = connectionDraining)" for st
      using sum_list_fun_upd [OF d k, of "lease_in st (sleases e)" "of_bool (connectionDraining = st)"] l True
      by (auto simp: ssum_def e' lease_in_upd) (auto simp: lease_in_def)
    with assms l ge have "leases_ok e'" by (auto simp: leases_ok_def e' split: if_splits)
    then show ?thesis unfolding e'_def [symmetric] by (simp add: e')
  next
    case False
    then have "drain_one k e = e" using l by (auto simp: drain_one_def beginDrain_def fun_upd_idem)
    with assms show ?thesis by simp
  qed
qed

lemma fold_drain_ok:
  assumes "leases_ok e" and "set ks \<subseteq> set (sessions e)"
  shows "leases_ok (fold drain_one ks e) \<and> nopening (eadm (fold drain_one ks e)) = nopening (eadm e)
     \<and> handshakes (eadm (fold drain_one ks e)) = handshakes (eadm e)
     \<and> upgrades (eadm (fold drain_one ks e)) = upgrades (eadm e) \<and> sessions (fold drain_one ks e) = sessions e
     \<and> listeners (fold drain_one ks e) = listeners e \<and> activeOps (fold drain_one ks e) = activeOps e
     \<and> estate (fold drain_one ks e) = estate e \<and> edone (fold drain_one ks e) = edone e
     \<and> observerStops (fold drain_one ks e) = observerStops e"
  using assms
proof (induction ks arbitrary: e)
  case (Cons k ks)
  then show ?case using drain_one_ok [of e k] by simp
qed simp

section \<open>The invariant\<close>

lemma thread_le:
  assumes "einv s" and "i < length (thr s)"
  shows "t_op (thr s ! i) \<le> activeOps (eng s)" "t_open (thr s ! i) \<le> nopening (eadm (eng s))"
    "t_act Handshake (thr s ! i) \<le> handshakes (eadm (eng s))" "t_act Upgrade (thr s ! i) \<le> upgrades (eadm (eng s))"
  using assms by (auto simp: einv_def intro!: tsum_ge thread_nonneg)

text \<open>An Engine with an operation, a lease or a tracked object left is not done.\<close>

lemma busy_not_done:
  assumes "einv s" and "i < length (thr s)" and "thr s ! i \<noteq> MustCheck" and "thr s ! i \<noteq> Finished"
  shows "\<not> edone (eng s)"
proof
  assume "edone (eng s)"
  then have z: "activeOps (eng s) = 0" "nopening (eadm (eng s)) = 0"
      "handshakes (eadm (eng s)) = 0" "upgrades (eadm (eng s)) = 0"
    using assms(1) by (auto simp: einv_def done_ok_def ready_done_def idle_def)
  note le = thread_le [OF assms(1,2)]
  show False
  proof (cases "thr s ! i")
    case (InAct k)
    then show False using le z by (cases k) auto
  qed (use le z assms(3,4) in auto)
qed

lemma einv_nonneg:
  assumes "einv s"
  shows "0 \<le> nopening (eadm (eng s))" "0 \<le> activeOps (eng s)"
  using assms by (auto simp: einv_def intro!: sum_list_nonneg thread_nonneg)

lemma done_ok_frame:
  assumes "done_ok e" and "\<not> edone e" and "estate e' = estate e" and "edone e' = edone e"
    and "observerStops e' = observerStops e"
  shows "done_ok e'"
  using assms by (auto simp: done_ok_def)

text \<open>\<open>maybeDoneLocked\<close> after an update that keeps the Engine's own state.\<close>

lemma done_ok_after:
  assumes "done_ok e" and "estate e' = estate e" and "edone e' = edone e"
    and "observerStops e' = observerStops e" and "edone e \<Longrightarrow> ready_done e'"
  shows "done_ok (maybeDoneLocked e')"
  using assms by (intro done_ok_maybeDone) (auto simp: done_ok_def)

lemmas einv_simps = einv_def tsum_update

lemma einv_acquire:
  assumes "einv s" and i: "i < length (thr s)" "thr s ! i = InOp None"
    and a: "acquireOpening_locked (eadm (eng s)) p = (r, a)"
  shows "einv (set_eng s ((eng s)\<lparr>eadm := a\<rparr>) i (InOp (if r = None then Some p else None)))"
proof -
  have "\<not> edone (eng s)" using busy_not_done [OF assms(1) i(1)] i(2) by simp
  with assms(1) i acquireOpening_counts [OF a] show ?thesis
    by (auto simp: einv_simps same_conn_def intro: leases_ok_frame [of "eng s"] done_ok_frame [of "eng s"])
qed

lemma einv_adopt:
  assumes "einv s" and i: "i < length (thr s)" "thr s ! i = InOp (Some p)" and k: "k \<notin> set (sessions (eng s))"
    and a: "addWithLease (eng s) k p (Some (open_lease p)) = (r, e)"
  shows "einv (set_eng s e i (InOp (if r = None then None else Some p)))"
proof -
  have nd: "\<not> edone (eng s)" using busy_not_done [OF assms(1) i(1)] i(2) by simp
  have "leases_ok (eng s)" using assms(1) by (simp add: einv_def)
  moreover have "1 \<le> nopening (eadm (eng s))" using thread_le(2) [OF assms(1) i(1)] i(2) by simp
  ultimately have f: "leases_ok e \<and> activeOps e = activeOps (eng s) \<and> handshakes (eadm e) = handshakes (eadm (eng s))
     \<and> upgrades (eadm e) = upgrades (eadm (eng s)) \<and> estate e = estate (eng s) \<and> edone e = edone (eng s)
     \<and> observerStops e = observerStops (eng s)
     \<and> nopening (eadm e) = nopening (eadm (eng s)) - of_bool (r = None)"
    using addWithLease_ok [OF _ k a] by simp
  with nd assms(1) i show ?thesis by (auto simp: einv_simps intro: done_ok_frame [of "eng s"])
qed

lemma einv_adopt_new:
  assumes "einv s" and i: "i < length (thr s)" "thr s ! i = InOp x" and k: "k \<notin> set (sessions (eng s))"
    and a: "addWithLease (eng s) k p None = (r, e)"
  shows "einv (s\<lparr>eng := e\<rparr>)"
proof -
  have nd: "\<not> edone (eng s)" using busy_not_done [OF assms(1) i(1)] i(2) by simp
  have "leases_ok (eng s)" using assms(1) by (simp add: einv_def)
  with einv_nonneg(1) [OF assms(1)] have f: "leases_ok e \<and> activeOps e = activeOps (eng s)
     \<and> handshakes (eadm e) = handshakes (eadm (eng s))
     \<and> upgrades (eadm e) = upgrades (eadm (eng s)) \<and> estate e = estate (eng s) \<and> edone e = edone (eng s)
     \<and> observerStops e = observerStops (eng s) \<and> nopening (eadm e) = nopening (eadm (eng s))"
    using addWithLease_ok [OF _ k a] by simp
  with nd assms(1) show ?thesis by (auto simp: einv_def intro: done_ok_frame [of "eng s"])
qed

lemma einv_release_open:
  assumes "einv s" and i: "i < length (thr s)" "t_open (thr s ! i) = 1" and t: "t_open t = 0" "t_op t = t_op (thr s ! i)"
    "\<And>k. t_act k t = 0"
  shows "einv (set_eng s ((eng s)\<lparr>eadm := release_lease (eadm (eng s)) (Some (open_lease p))\<rparr>) i t)"
proof -
  have "\<not> edone (eng s)" using busy_not_done [OF assms(1) i(1)] i(2) by (cases "thr s ! i") auto
  moreover have "t_act k (thr s ! i) = 0" for k using i(2) by (cases "thr s ! i") auto
  moreover have "1 \<le> nopening (eadm (eng s))" using thread_le(2) [OF assms(1) i(1)] i(2) by simp
  ultimately show ?thesis
    using assms(1) i t release_open_counts [of "eadm (eng s)" p]
    by (auto simp: einv_simps same_conn_def intro: leases_ok_frame [of "eng s"] done_ok_frame [of "eng s"])
qed

lemma einv_end_op:
  assumes "einv s" and i: "i < length (thr s)" "thr s ! i = InOp None"
  shows "einv (set_eng s (endOp (eng s)) i Finished)"
proof -
  have nd: "\<not> edone (eng s)" using busy_not_done [OF assms(1) i(1)] i(2) by simp
  have "done_ok (endOp (eng s))"
    unfolding endOp_def Let_def using nd assms(1)
    by (intro done_ok_after [of "eng s"]) (auto simp: einv_def)
  moreover have "leases_ok (endOp (eng s))"
    using assms(1) by (auto simp: endOp_def Let_def einv_def intro: leases_ok_frame [of "eng s"])
  moreover have "1 \<le> activeOps (eng s)" using thread_le(1) [OF assms(1) i(1)] i(2) by simp
  ultimately show ?thesis using assms(1) i by (auto simp: einv_simps endOp_def Let_def)
qed

lemma einv_new_act:
  assumes "einv s" and a: "engine_acquire k (eng s) = (r, e)"
  shows "einv (s\<lparr>eng := e, thr := thr s @ (if r = None then [InAct k] else [])\<rparr>)"
proof (cases "estate (eng s) = engineRunning")
  case True
  then have nd: "\<not> edone (eng s)" using assms(1) by (auto simp: einv_def done_ok_def)
  obtain a' where a': "activity_acquire k (eadm (eng s)) = (r, a')" "e = (eng s)\<lparr>eadm := a'\<rparr>"
    using a True by (auto simp: engine_acquire_def split: prod.splits)
  show ?thesis
    using nd assms(1) activity_counts [OF a'(1)] a'(2)
    by (auto simp: einv_simps intro: leases_ok_frame [of "eng s"] done_ok_frame [of "eng s"])
next
  case False
  with assms show ?thesis by (auto simp: engine_acquire_def)
qed

lemma einv_act_release:
  assumes "einv s" and i: "i < length (thr s)" "thr s ! i = InAct k"
  shows "einv (set_eng s (engine_release_activity k (eng s)) i MustCheck)"
proof -
  have nd: "\<not> edone (eng s)" using busy_not_done [OF assms(1) i(1)] i(2) by simp
  show ?thesis
    using nd assms(1) i thread_le(3,4) [OF assms(1) i(1)]
    by (cases k) (auto simp: einv_simps engine_release_activity_def activity_release_locked_def
        intro: leases_ok_frame [of "eng s"] done_ok_frame [of "eng s"])
qed

lemma einv_check:
  assumes "einv s" and "i < length (thr s)" "thr s ! i = MustCheck"
  shows "einv (set_eng s (maybeDoneLocked (eng s)) i Finished)"
  using assms done_ok_after [of "eng s" "eng s"] by (auto simp: einv_simps done_ok_def)

lemma einv_session_gone:
  assumes "einv s" and k: "k \<in> set (sessions (eng s))"
  shows "einv (s\<lparr>eng := removeSession (eng s) k\<rparr>)"
proof -
  have nd: "\<not> edone (eng s)" using assms by (auto simp: einv_def done_ok_def ready_done_def)
  have "done_ok (removeSession (eng s) k)"
    unfolding removeSession_def using nd assms(1) by (intro done_ok_after [of "eng s"]) (auto simp: einv_def)
  with assms removeSession_ok [of "eng s" k] show ?thesis
    by (auto simp: einv_def) (simp add: removeSession_def)
qed

lemma einv_listener_gone:
  assumes "einv s"
  shows "einv (s\<lparr>eng := removeTracked (eng s) lk\<rparr>)"
proof -
  have "done_ok (removeTracked (eng s) lk)"
    unfolding removeTracked_def using assms
    by (intro done_ok_after [of "eng s"]) (auto simp: einv_def done_ok_def ready_done_def)
  moreover have "leases_ok (removeTracked (eng s) lk)"
    using assms by (auto simp: removeTracked_def einv_def intro: leases_ok_frame [of "eng s"])
  ultimately show ?thesis using assms by (auto simp: einv_def) (simp_all add: removeTracked_def)
qed

lemma einv_graceful:
  assumes "einv s"
  shows "einv (s\<lparr>eng := snd (beginGracefulShutdown (eng s))\<rparr>)"
proof (cases "estate (eng s) = engineRunning")
  case True
  let ?e = "(eng s)\<lparr>estate := engineDraining\<rparr>"
  have nd: "\<not> edone (eng s)" "leases_ok (eng s)" "observerStops (eng s) = 0"
    using True assms by (auto simp: einv_def done_ok_def)
  have "leases_ok ?e" using nd(2) by (rule leases_ok_frame) simp_all
  from fold_drain_ok [OF this, of "sessions (eng s)"] True nd assms show ?thesis
    by (auto simp: beginGracefulShutdown_def einv_def intro!: done_ok_maybeDone)
next
  case False
  with assms show ?thesis by (simp add: beginGracefulShutdown_def)
qed

lemma einv_abort:
  assumes "einv s"
  shows "einv (s\<lparr>eng := snd (beginAbort reason (eng s))\<rparr>)"
proof (cases "estate (eng s) = engineDone \<or> estate (eng s) = engineAborting")
  case True
  with assms show ?thesis by (simp add: beginAbort_def)
next
  case False
  then have nd: "\<not> edone (eng s)" "leases_ok (eng s)" "observerStops (eng s) = 0"
    using assms by (auto simp: einv_def done_ok_def)
  have "leases_ok ((eng s)\<lparr>estate := engineAborting, shutdownReason := x\<rparr>)" for x
    using nd(2) by (rule leases_ok_frame) simp_all
  with False nd assms show ?thesis
    by (auto simp: beginAbort_def Let_def einv_def intro!: done_ok_maybeDone)
qed

lemma einv_record_err:
  assumes "einv s"
  shows "einv (s\<lparr>eng := recordShutdownError x (eng s)\<rparr>)"
  using assms by (auto simp: einv_def recordShutdownError_def done_ok_def ready_done_def
      intro: leases_ok_frame [of "eng s"] split: option.splits)

lemma einv_listen:
  assumes "einv s" and "addTracked (eng s) k = (r, e)"
  shows "einv (s\<lparr>eng := e\<rparr>)"
  using assms by (auto simp: einv_def addTracked_def done_ok_def
      intro: leases_ok_frame [of "eng s"] split: if_splits)

lemma einv_begin_op:
  assumes "einv s" and "beginOp (eng s) = (None, e)"
  shows "einv (s\<lparr>eng := e, thr := thr s @ [InOp None]\<rparr>)"
  using assms by (auto simp: einv_def beginOp_def done_ok_def
      intro: leases_ok_frame [of "eng s"] split: if_splits)

lemma einv_http:
  assumes "einv s" and "i < length (thr s)" and "thr s ! i = InOp (Some p)"
  shows "einv (s\<lparr>thr := (thr s)[i := InOp None] @ [HttpHeld p]\<rparr>)"
  using assms by (auto simp: einv_simps)

lemma einv_http_take:
  assumes "einv s" and "i < length (thr s)" "j < length (thr s)" and "thr s ! i = HttpHeld p" "thr s ! j = InOp None"
  shows "einv (s\<lparr>thr := (thr s)[i := Finished, j := InOp (Some p)]\<rparr>)"
proof -
  have "i \<noteq> j" using assms(4,5) by auto
  with assms show ?thesis by (auto simp: einv_simps)
qed

lemma einv_step:
  assumes "einv s" and "estep http s t"
  shows "einv t"
  using assms(2,1)
proof cases
  case (drop_lease i p)
  then show ?thesis using assms(1) by (auto intro!: einv_release_open)
next
  case (http_release i p)
  then show ?thesis using assms(1) by (auto intro!: einv_release_open)
qed (use assms(1) in \<open>simp_all only: einv_begin_op einv_acquire einv_adopt einv_adopt_new einv_listen einv_end_op
      einv_new_act einv_act_release einv_check einv_session_gone einv_listener_gone einv_graceful einv_abort
      einv_record_err einv_http einv_http_take\<close>)

lemma einv_init:
  assumes "einit s"
  shows "einv s"
  using assms
  by (auto simp: einit_def einv_def newEngine_def newAdmissionController_def leases_ok_def ssum_def done_ok_def)

interpretation engine_sys: invariant_system einit "estep http" einv for http
  by unfold_locales (auto intro: einv_init einv_step)

lemma thr_idle:
  assumes "einv s" and "edone (eng s)" and "t \<in> set (thr s)"
  shows "t = MustCheck \<or> t = Finished"
  using assms busy_not_done by (metis in_set_conv_nth)

lemma edone_step:
  assumes "einv s" and "edone (eng s)" and "estep http s t"
  shows "edone (eng t)"
proof -
  have d: "estate (eng s) = engineDone" using assms by (simp add: einv_def done_ok_def)
  have m: "edone e \<Longrightarrow> edone (maybeDoneLocked e)" for e by (simp add: maybeDoneLocked_def)
  from assms(3,2) d show ?thesis
    by cases (auto simp: beginOp_def addWithLease_def addTracked_def endOp_def engine_acquire_def
        engine_release_activity_def removeSession_def removeTracked_def beginGracefulShutdown_def
        beginAbort_def recordShutdownError_def Let_def intro!: m split: option.splits)
qed

lemma ssum_total:
  assumes "leases_ok e"
  shows "ssum connectionActive e + ssum connectionDraining e = int (length (sessions e))"
proof -
  have "lease_in connectionActive (sleases e) k + lease_in connectionDraining (sleases e) k = 1"
    if k: "k \<in> set (sessions e)" for k
  proof -
    obtain l where l: "sleases e k = Some l" using leases_ok_lookup [OF assms k] .
    moreover have "cstate l = connectionActive \<or> cstate l = connectionDraining"
      using assms l unfolding leases_ok_def by blast
    ultimately show ?thesis by (auto simp: lease_in_def)
  qed
  then have "sum_list (map (\<lambda>k. lease_in connectionActive (sleases e) k + lease_in connectionDraining (sleases e) k)
      (sessions e)) = sum_list (map (\<lambda>k. 1) (sessions e))"
    by (intro arg_cong [where f = sum_list]) simp
  then show ?thesis by (simp add: ssum_def sum_list_addf sum_list_triv)
qed

section \<open>Nothing is left behind\<close>

text \<open>
  A shutdown that is over except for its signal has a goroutine that will still run
  \<^verbatim>\<open>maybeDone\<close>.
\<close>

definition pending_ok :: "esys \<Rightarrow> bool" where
  "pending_ok s \<longleftrightarrow> (estate (eng s) \<noteq> engineRunning \<longrightarrow> ready_done (eng s) \<longrightarrow> edone (eng s) \<or> MustCheck \<in> set (thr s))"

lemma pending_maybeDone: "pending_ok (s\<lparr>eng := maybeDoneLocked e\<rparr>)"
  by (auto simp: pending_ok_def maybeDoneLocked_def ready_done_def)

lemma pending_maybeDone_thr: "pending_ok (s\<lparr>eng := maybeDoneLocked e, thr := ts\<rparr>)"
  by (auto simp: pending_ok_def maybeDoneLocked_def ready_done_def)

lemma pending_inop:
  assumes "einv t" and "i < length (thr t)" and "thr t ! i = InOp x"
  shows "pending_ok t"
  using thread_le(1) [OF assms(1,2)] assms(3) by (auto simp: pending_ok_def ready_done_def)

lemma pending_step:
  assumes "einv s" and "pending_ok s" and st: "estep False s t"
  shows "pending_ok t"
proof -
  note inop = pending_inop [OF einv_step [OF assms(1) st]]
  from st assms(2) inop show ?thesis
  proof cases
    case (begin_op e)
    then show ?thesis by (intro inop [of "length (thr s)" None]) auto
  next
    case (adopt_new i x k p r e)
    then show ?thesis by (intro inop [of i x]) auto
  next
    case (listen i x k r e)
    then show ?thesis by (intro inop [of i x]) auto
  next
    case (new_act k r e)
    then show ?thesis
      using assms(2) by (cases "estate (eng s) = engineRunning")
        (auto simp: pending_ok_def engine_acquire_def split: prod.splits)
  next
    case (act_release i k)
    then show ?thesis by (auto simp: pending_ok_def set_update_memI)
  next
    case graceful
    then show ?thesis using assms(2) pending_maybeDone by (auto simp: beginGracefulShutdown_def)
  next
    case (abort reason)
    then show ?thesis using assms(2) pending_maybeDone by (auto simp: beginAbort_def Let_def)
  next
    case (record_err x)
    then show ?thesis
      using assms(2) by (auto simp: pending_ok_def recordShutdownError_def ready_done_def split: option.splits)
  qed (auto simp: endOp_def removeSession_def removeTracked_def Let_def
      intro!: pending_maybeDone pending_maybeDone_thr intro: inop)
qed

interpretation engine_live: invariant_system einit "estep False" "\<lambda>s. einv s \<and> pending_ok s"
proof unfold_locales
  fix s
  assume "einit s"
  then show "einv s \<and> pending_ok s"
    using einv_init by (auto simp: einit_def pending_ok_def newEngine_def)
next
  fix s t
  assume "einv s \<and> pending_ok s" and "estep False s t"
  then show "einv t \<and> pending_ok t" using einv_step pending_step by blast
qed

section \<open>Properties\<close>

text \<open>The Engine at a point of a concrete run.\<close>

definition demo_eng ::
  "engineState \<Rightarrow> int \<Rightarrow> int \<Rightarrow> int \<Rightarrow> int \<Rightarrow> (string \<rightharpoonup> int) \<Rightarrow> lkey list \<Rightarrow> skey list \<Rightarrow>
     (skey \<rightharpoonup> connectionLease) \<Rightarrow> engine"
where
  "demo_eng st ops opn act drn pp ls ss lm =
     (newEngine demo_limits)\<lparr>estate := st, activeOps := ops, listeners := ls, sessions := ss, sleases := lm,
        eadm := (newAdmissionController demo_limits)\<lparr>nopening := opn, nactive := act, ndraining := drn, perPeer := pp\<rparr>\<rparr>"




text \<open>
  C23. The HTTP connection tracker breaks that: \<^verbatim>\<open>httpConnLease.release\<close> gives the admission lease back
  without running \<^verbatim>\<open>maybeDone\<close>. In the run below the accept of a WebSocket listener overlaps the
  shutdown, registers its lease after the listener's \<^verbatim>\<open>closeAll\<close>, and the refused TLS handshake
  releases it last; nothing is left, every goroutine has finished, and \<^verbatim>\<open>Engine.Done\<close> stays open.
\<close>

theorem engine_done_missed:
  "\<exists>s. reachable einit (estep True) s \<and> estate (eng s) \<noteq> engineRunning \<and> ready_done (eng s)
     \<and> set (thr s) \<subseteq> {Finished} \<and> \<not> edone (eng s)"
proof -
  let ?p = "''p''"
  let ?l = "(KWSListener, 1)"
  let ?run = "\<lambda>st ops opn ls ts.
     \<lparr>eng = demo_eng st ops opn 0 0 (if opn = 0 then Map.empty else [?p \<mapsto> 1]) ls [] Map.empty, thr = ts\<rparr>"
  note st = demo_eng_def beginOp_def addTracked_def endOp_def maybeDoneLocked_def ready_done_def idle_def
    acquireOpening_locked_def peer_count_def beginGracefulShutdown_def removeTracked_def release_lease_def
    release_locked_def release_state_def release_peer_def dec_pos_def demo_limits_def newAdmissionController_def
    newEngine_def
  have r0: "reachable einit (estep True) (?run engineRunning 0 0 [] [])"
    by (rule reach_init) (auto simp: st einit_def)
  have r1: "reachable einit (estep True) (?run engineRunning 1 0 [] [InOp None])"
    by (rule reach_to [OF r0, OF estep.begin_op [of _ "eng (?run engineRunning 1 0 [] [])"]]) (simp_all add: st)
  have r2: "reachable einit (estep True) (?run engineRunning 1 0 [?l] [InOp None])"
    by (rule reach_to [OF r1, OF estep.listen [of 0 _ None ?l None "eng (?run engineRunning 1 0 [?l] [])"]]) (simp_all add: st)
  have r3: "reachable einit (estep True) (?run engineRunning 0 0 [?l] [Finished])"
    by (rule reach_to [OF r2, OF estep.end_op [of 0]]) (simp_all add: st)
  have r4: "reachable einit (estep True) (?run engineRunning 1 0 [?l] [Finished, InOp None])"
    by (rule reach_to [OF r3, OF estep.begin_op [of _ "eng (?run engineRunning 1 0 [?l] [])"]]) (simp_all add: st)
  have r5: "reachable einit (estep True) (?run engineRunning 1 1 [?l] [Finished, InOp (Some ?p)])"
    by (rule reach_to [OF r4, OF estep.acquire [of 1 _ ?p None "eadm (eng (?run engineRunning 1 1 [?l] []))"]]) (simp_all add: st)
  have r6: "reachable einit (estep True) (?run engineDraining 1 1 [?l] [Finished, InOp (Some ?p)])"
    by (rule reach_to [OF r5, OF estep.graceful]) (simp_all add: st)
  have r7: "reachable einit (estep True) (?run engineDraining 1 1 [] [Finished, InOp (Some ?p)])"
    by (rule reach_to [OF r6, OF estep.listener_gone [of _ _ ?l]]) (simp_all add: st)
  have r8: "reachable einit (estep True) (?run engineDraining 1 1 [] [Finished, InOp None, HttpHeld ?p])"
    by (rule reach_to [OF r7, OF estep.http_register [of _ 1 _ ?p]]) (simp_all add: st)
  have r9: "reachable einit (estep True) (?run engineDraining 0 1 [] [Finished, Finished, HttpHeld ?p])"
    by (rule reach_to [OF r8, OF estep.end_op [of 1]]) (simp_all add: st)
  have r10: "reachable einit (estep True) (?run engineDraining 0 0 [] [Finished, Finished, Finished])"
    by (rule reach_to [OF r9, OF estep.http_release [of _ 2 _ ?p]]) (simp_all add: st)
  show ?thesis by (rule exI, rule conjI, rule r10) (simp add: st)
qed

text \<open>A run for the other properties: an operation tracks a session and ends, a graceful shutdown drains
  it, and its removal completes the shutdown.\<close>

lemma demo_engine_run:
  fixes http
  defines "k \<equiv> (KStream, 1)" and "l \<equiv> \<lparr>cpeer = ''p'', cstate = connectionActive\<rparr>"
  shows "reachable einit (estep http)
       \<lparr>eng = demo_eng engineRunning 1 0 1 0 [''p'' \<mapsto> 1] [] [k] [k \<mapsto> l], thr = [InOp None]\<rparr>"
    and "reachable einit (estep http)
       \<lparr>eng = (demo_eng engineDone 0 0 0 0 Map.empty [] [] Map.empty)\<lparr>edone := True, observerStops := 1\<rparr>,
        thr = [Finished]\<rparr>"
proof -
  let ?p = "''p''"
  let ?d = "l\<lparr>cstate := connectionDraining\<rparr>"
  note st = demo_eng_def beginOp_def addTracked_def endOp_def maybeDoneLocked_def ready_done_def idle_def
    acquireOpening_locked_def peer_count_def beginGracefulShutdown_def removeSession_def release_lease_def
    release_locked_def release_state_def release_peer_def dec_pos_def demo_limits_def newAdmissionController_def
    newEngine_def addWithLease_def activate_def track_def drain_one_def beginDrain_def k_def l_def
  have r0: "reachable einit (estep http) \<lparr>eng = demo_eng engineRunning 0 0 0 0 Map.empty [] [] Map.empty, thr = []\<rparr>"
    by (rule reach_init) (auto simp: st einit_def)
  have r1: "reachable einit (estep http)
      \<lparr>eng = demo_eng engineRunning 1 0 0 0 Map.empty [] [] Map.empty, thr = [InOp None]\<rparr>"
    by (rule reach_to [OF r0, OF estep.begin_op [of _ "demo_eng engineRunning 1 0 0 0 Map.empty [] [] Map.empty"]]) (simp_all add: st)
  have r2: "reachable einit (estep http)
      \<lparr>eng = demo_eng engineRunning 1 1 0 0 [?p \<mapsto> 1] [] [] Map.empty, thr = [InOp (Some ?p)]\<rparr>"
    by (rule reach_to [OF r1, OF estep.acquire [of 0 _ ?p None
          "eadm (demo_eng engineRunning 1 1 0 0 [?p \<mapsto> 1] [] [] Map.empty)"]]) (simp_all add: st)
  show r3: "reachable einit (estep http)
      \<lparr>eng = demo_eng engineRunning 1 0 1 0 [?p \<mapsto> 1] [] [k] [k \<mapsto> l], thr = [InOp None]\<rparr>"
    by (rule reach_to [OF r2, OF estep.adopt [of 0 _ ?p k None
          "demo_eng engineRunning 1 0 1 0 [?p \<mapsto> 1] [] [k] [k \<mapsto> l]"]]) (simp_all add: st)
  have r4: "reachable einit (estep http)
      \<lparr>eng = demo_eng engineRunning 0 0 1 0 [?p \<mapsto> 1] [] [k] [k \<mapsto> l], thr = [Finished]\<rparr>"
    by (rule reach_to [OF r3, OF estep.end_op [of 0]]) (simp_all add: st)
  have r5: "reachable einit (estep http)
      \<lparr>eng = demo_eng engineDraining 0 0 0 1 [?p \<mapsto> 1] [] [k] [k \<mapsto> ?d], thr = [Finished]\<rparr>"
    by (rule reach_to [OF r4, OF estep.graceful]) (simp_all add: st)
  show "reachable einit (estep http)
       \<lparr>eng = (demo_eng engineDone 0 0 0 0 Map.empty [] [] Map.empty)\<lparr>edone := True, observerStops := 1\<rparr>,
        thr = [Finished]\<rparr>"
    by (rule reach_to [OF r5, OF estep.session_gone [of k]]) (simp_all add: st)
qed




end
