(* ===== verification/Stream_IO.thy ===== *)
theory Stream_IO
  imports Wire Error_Model
begin

text \<open>
  The parts of the stream session that run in one goroutine: writing a whole frame, the protocol's write
  half-close, and what the reader does with the bytes of its pending buffer
  (\<^verbatim>\<open>transport/conn.go\<close>, \<^verbatim>\<open>transport/stream_graceful.go\<close>). What the connection returns is an argument:
  \<^verbatim>\<open>Write\<close> and \<^verbatim>\<open>Read\<close> obey the contracts of \<^verbatim>\<open>io.Writer\<close> and \<^verbatim>\<open>io.Reader\<close>, which bound the
  number of bytes they report.
\<close>

section \<open>Errors of a session\<close>

text \<open>What \<^verbatim>\<open>classifyOperational\<close> takes from the build, the WebSocket library and the session.\<close>

record session_env =
  splat :: "Op \<Rightarrow> gerr \<Rightarrow> (ErrorKind \<times> sentinel) option"
  sstatus :: "gerr \<Rightarrow> int"
  sprotocol :: Scheme
  slocal :: "net_addr option"
  sremote :: "net_addr option"

definition operationalError :: "'a session_env_scheme \<Rightarrow> Op \<Rightarrow> gerr option \<Rightarrow> classifyHint \<Rightarrow> gerr option" where
  "operationalError c op cause hint =
     classifyOperational (splat c) (sstatus c) op (sprotocol c) (slocal c) (sremote c) cause hint"

definition normalizeConnError :: "gerr option \<Rightarrow> gerr option" where
  "normalizeConnError err =
     (case err of None \<Rightarrow> None | Some e \<Rightarrow>
      if errors_is e EOF \<or> errors_is e NetErrClosed then None else Some e)"

lemma operationalError_Some: "operationalError c op (Some e) hint \<noteq> None"
  by (auto simp: operationalError_def classifyOperational_def envelopeOperational_def split: prod.splits)

lemma operationalError_nil [simp]: "operationalError c op None hint = None"
  by (simp add: operationalError_def classifyOperational_def)

section \<open>Writing\<close>

text \<open>
  \<^verbatim>\<open>writeAll\<close> on the results of the successive calls of \<^verbatim>\<open>Write\<close>: the error with the bytes that reached
  the connection, or \<open>None\<close> while a call has not returned.
\<close>

fun writeAll :: "bytes \<Rightarrow> (nat \<times> gerr option) list \<Rightarrow> (gerr option \<times> bytes) option" where
  "writeAll [] ws = Some (None, [])"
| "writeAll p [] = None"
| "writeAll p ((n, err) # ws) =
     (if err \<noteq> None then Some (err, take n p)
      else if n = 0 then Some (Some (Sentinel ErrNoProgress), [])
      else map_option (map_prod id (\<lambda>out. take n p @ out)) (writeAll (drop n p) ws))"

text \<open>The contract of \<^verbatim>\<open>io.Writer\<close> that the slice expression \<^verbatim>\<open>p[n:]\<close> needs: never more than it was given.\<close>

fun writer_ok :: "bytes \<Rightarrow> (nat \<times> gerr option) list \<Rightarrow> bool" where
  "writer_ok p [] = True"
| "writer_ok p ((n, err) # ws) \<longleftrightarrow> n \<le> length p \<and> writer_ok (drop n p) ws"

record write_io =
  wSetDeadline :: "gerr option"
  wWrites :: "(nat \<times> gerr option) list"
  wClearDeadline :: "gerr option"

definition writeFrame :: "bytes \<Rightarrow> write_io \<Rightarrow> (gerr option \<times> bytes) option" where
  "writeFrame frame w =
     (case wSetDeadline w of
        Some err \<Rightarrow> Some (Some (FmtErrorf ''transport: set write deadline: '' err), [])
      | None \<Rightarrow>
          (case writeAll frame (wWrites w) of
             None \<Rightarrow> None
           | Some (Some err, out) \<Rightarrow>
               Some (Some (if isTimeoutFailure err then TimeoutErr TimeoutWrite (Some err)
                           else FmtErrorf ''transport: write: '' err), out)
           | Some (None, out) \<Rightarrow>
               Some (map_option (FmtErrorf ''transport: clear write deadline: '') (wClearDeadline w), out)))"

text \<open>A stream's write half, by its kind.\<close>

datatype stream_kind = TLSConn | HalfCloser | NoHalfClose

record close_io =
  xSetDeadline :: "gerr option"
  xCloseWrite :: "gerr option"
  xClearDeadline :: "gerr option"

definition closeTLSWrite :: "close_io \<Rightarrow> gerr option" where
  "closeTLSWrite x =
     (case xSetDeadline x of
        Some err \<Rightarrow> Some (FmtErrorf ''transport: set TLS close deadline: '' err)
      | None \<Rightarrow>
          (case xCloseWrite x of
             Some err \<Rightarrow>
               Some (if isTimeoutFailure err then TimeoutErr TimeoutWrite (Some err)
                     else FmtErrorf ''transport: TLS close write: '' err)
           | None \<Rightarrow> map_option (FmtErrorf ''transport: clear TLS close deadline: '') (xClearDeadline x)))"

definition closeProtocolWrite :: "string \<Rightarrow> stream_kind \<Rightarrow> close_io \<Rightarrow> gerr option" where
  "closeProtocolWrite protocol k x =
     (case k of
        TLSConn \<Rightarrow> closeTLSWrite x
      | HalfCloser \<Rightarrow> xCloseWrite x
      | NoHalfClose \<Rightarrow> Some (ErrorString (''transport: '' @ protocol @ '' stream does not support write half-close'')))"

definition joinCloseResult :: "gerr option \<Rightarrow> gerr option \<Rightarrow> gerr option" where
  "joinCloseResult primary secondary =
     (case (primary, secondary) of
        (None, _) \<Rightarrow> secondary
      | (Some p, None) \<Rightarrow> Some p
      | (Some p, Some q) \<Rightarrow> if errors_is q NetErrClosed then Some p else Some (ErrorsJoin [p, q]))"

section \<open>Reading\<close>

text \<open>
  \<^verbatim>\<open>Framer\<close> values decode to a message and the \<^verbatim>\<open>int\<close> number of bytes they consumed, which the session
  checks.
\<close>

type_synonym framer = "bytes \<Rightarrow> gerr + (Message \<times> int)"

datatype decode_step = NeedMore | BadFrame gerr classifyHint | Deliver Message nat

text \<open>One round of the decode loop.\<close>

definition decode_step :: "framer \<Rightarrow> bool \<Rightarrow> bytes \<Rightarrow> decode_step" where
  "decode_step dec wireFramer remaining =
     (case dec remaining of
        Inl err \<Rightarrow>
          if errors_is err ErrNeedMore then NeedMore
          else BadFrame (FmtErrorf ''transport: decode frame: '' err)
                 (if wireFramer then hintWireDecode else hintNone)
      | Inr (msg, consumed) \<Rightarrow>
          if consumed \<le> 0 \<or> consumed > int (length remaining)
          then BadFrame (Sentinel ErrInvalidFramer) hintNone
          else (case Validate msg of
                  Some err \<Rightarrow> BadFrame (FmtErrorf ''transport: invalid message: '' err) hintMessageDecode
                | None \<Rightarrow> Deliver msg (nat consumed)))"

lemma decode_step_Deliver:
  assumes "decode_step dec w rem = Deliver m n"
  shows "0 < n" "n \<le> length rem" "dec rem = Inr (m, int n)" "Validate m = None"
  using assms by (auto simp: decode_step_def split: sum.splits prod.splits if_splits option.splits)

text \<open>
  The whole loop while the session stays open: the delivered messages, the bytes left and the error that
  ended it.
\<close>

function decode_all :: "framer \<Rightarrow> bool \<Rightarrow> bytes \<Rightarrow> Message list \<times> bytes \<times> (gerr \<times> classifyHint) option" where
  "decode_all dec w rem =
     (if rem = [] then ([], [], None)
      else case decode_step dec w rem of
             NeedMore \<Rightarrow> ([], rem, None)
           | BadFrame err hint \<Rightarrow> ([], rem, Some (err, hint))
           | Deliver m n \<Rightarrow>
               (case decode_all dec w (drop n rem) of (ms, rest, e) \<Rightarrow> (m # ms, rest, e)))"
  by pat_completeness auto
termination
  by (relation "measure (\<lambda>(dec, w, rem). length rem)") (auto dest: decode_step_Deliver)

declare decode_all.simps [simp del]

definition retainedReadCapacity :: "int \<Rightarrow> int" where
  "retainedReadCapacity readSize = (if readSize > max_int64 div 4 then readSize else readSize * 4)"

text \<open>
  The bookkeeping after the loop: what is left must fit the buffer, and an empty buffer of a larger
  capacity is replaced. \<open>cap\<close> is the capacity of the pending slice.
\<close>

definition after_decode :: "int \<Rightarrow> int \<Rightarrow> bytes \<Rightarrow> int \<Rightarrow> gerr + (bytes \<times> int)" where
  "after_decode readSize maxRead rest cap =
     (if int (length rest) > maxRead then Inl (Sentinel ErrReadBufferFull)
      else if rest = [] \<and> cap > retainedReadCapacity readSize then Inr ([], readSize)
      else Inr (rest, cap))"

text \<open>The reader over a sequence of chunks that \<^verbatim>\<open>Read\<close> returned without an error.\<close>

fun feed :: "framer \<Rightarrow> bool \<Rightarrow> int \<Rightarrow> bytes \<Rightarrow> bytes list \<Rightarrow> Message list \<times> (gerr \<times> classifyHint + bytes)" where
  "feed dec w maxRead pending [] = ([], Inr pending)"
| "feed dec w maxRead pending (chunk # chunks) =
     (case decode_all dec w (pending @ chunk) of
        (ms, rest, Some e) \<Rightarrow> (ms, Inl e)
      | (ms, rest, None) \<Rightarrow>
          if int (length rest) > maxRead then (ms, Inl (Sentinel ErrReadBufferFull, hintNone))
          else (case feed dec w maxRead rest chunks of (ms', r) \<Rightarrow> (ms @ ms', r)))"

section \<open>Lemmas on writing\<close>

lemma writeAll_prefix:
  "writer_ok p ws \<Longrightarrow> writeAll p ws = Some (r, out) \<Longrightarrow> (\<exists>rest. p = out @ rest \<and> (r = None \<longrightarrow> rest = []))"
proof (induction p ws arbitrary: r out rule: writeAll.induct)
  case (3 v va n err ws)
  let ?p = "v # va"
  show ?case
  proof (cases "err \<noteq> None \<or> n = 0")
    case True
    with 3(3) have "r \<noteq> None" "out = take n ?p" by (auto split: if_splits)
    then show ?thesis by (intro exI [of _ "drop n ?p"]) auto
  next
    case False
    with 3(3) obtain out' where o: "writeAll (drop n ?p) ws = Some (r, out')" "out = take n ?p @ out'" by auto
    with 3(1) [of r out'] 3(2) False obtain rest where "drop n ?p = out' @ rest" "r = None \<longrightarrow> rest = []" by auto
    with o(2) show ?thesis by (metis append.assoc append_take_drop_id)
  qed
qed auto

lemma writeAll_returns: "length p \<le> length ws \<Longrightarrow> \<exists>r. writeAll p ws = Some r"
proof (induction p ws rule: writeAll.induct)
  case (3 v va n err ws)
  then show ?case by (cases "err \<noteq> None \<or> n = 0") (auto simp: le_diff_conv)
qed auto

section \<open>Lemmas on reading\<close>

text \<open>What the reader needs of a framer: an answer other than "need more" does not change with more bytes.\<close>

locale stream_framer =
  fixes dec :: framer and w :: bool
  assumes extend: "decode_step dec w src \<noteq> NeedMore \<Longrightarrow> decode_step dec w (src @ x) = decode_step dec w src"
begin

lemma decode_all_append:
  "decode_all dec w (a @ b) =
     (case decode_all dec w a of
        (ms, rest, Some e) \<Rightarrow> (ms, rest @ b, Some e)
      | (ms, rest, None) \<Rightarrow> (case decode_all dec w (rest @ b) of (ms', rest', e) \<Rightarrow> (ms @ ms', rest', e)))"
proof (induction "length a" arbitrary: a rule: less_induct)
  case less
  show ?case
  proof (cases "a = []")
    case True
    then show ?thesis by (simp add: decode_all.simps [of dec w "[]"] split: prod.splits)
  next
    case a: False
    show ?thesis
    proof (cases "decode_step dec w a")
      case NeedMore
      with a show ?thesis by (simp add: decode_all.simps [of dec w a] split: prod.splits)
    next
      case (BadFrame e hint)
      with a extend [of a b] show ?thesis by (simp add: decode_all.simps [of dec w a] decode_all.simps [of dec w "a @ b"])
    next
      case (Deliver m n)
      note d = decode_step_Deliver [OF Deliver]
      have "length (drop n a) < length a" using d a by simp
      from less [OF this] Deliver extend [of a b] a d(2) show ?thesis
        by (simp add: decode_all.simps [of dec w a] decode_all.simps [of dec w "a @ b"] split: prod.splits option.splits)
    qed
  qed
qed

lemma decode_all_rest: "decode_all dec w a = (ms, rest, e) \<Longrightarrow> length rest \<le> length a"
proof (induction "length a" arbitrary: a ms rule: less_induct)
  case less
  show ?case
  proof (cases "decode_step dec w a")
    case (Deliver m n)
    note d = decode_step_Deliver [OF Deliver]
    have "a \<noteq> []" "length (drop n a) < length a" using d by auto
    moreover from this(1) less.prems Deliver obtain ms' where "decode_all dec w (drop n a) = (ms', rest, e)"
      by (auto simp: decode_all.simps [of dec w a] split: prod.splits)
    ultimately show ?thesis using less.hyps [of "drop n a" ms'] by simp
  qed (use less.prems in \<open>auto simp: decode_all.simps [of dec w a] split: if_splits\<close>)
qed

lemma feed_whole:
  "int (length (pending @ concat chunks)) \<le> maxRead \<Longrightarrow> decode_all dec w pending = ([], pending, None) \<Longrightarrow>
     feed dec w maxRead pending chunks =
       (case decode_all dec w (pending @ concat chunks) of
          (ms, rest, Some e) \<Rightarrow> (ms, Inl e) | (ms, rest, None) \<Rightarrow> (ms, Inr rest))"
proof (induction chunks arbitrary: pending)
  case (Cons c cs)
  obtain ms rest e where d: "decode_all dec w (pending @ c) = (ms, rest, e)" by (cases "decode_all dec w (pending @ c)") auto
  note app = decode_all_append [of "pending @ c" "concat cs", unfolded d]
  show ?case
  proof (cases e)
    case (Some x)
    with d app show ?thesis by simp
  next
    case None
    have len: "length rest \<le> length (pending @ c)" using decode_all_rest [OF d] .
    have "decode_all dec w rest = ([], rest, None)"
      using decode_all_append [of "pending @ c" "[]", unfolded d] None d by (auto split: prod.splits)
    moreover have "int (length (rest @ concat cs)) \<le> maxRead" using len Cons.prems(1) by simp
    ultimately have "feed dec w maxRead rest cs = (case decode_all dec w (rest @ concat cs) of
          (ms, rest, Some e) \<Rightarrow> (ms, Inl e) | (ms, rest, None) \<Rightarrow> (ms, Inr rest))"
      by (rule Cons.IH [rotated])
    moreover have "\<not> int (length rest) > maxRead" using len Cons.prems(1) by simp
    ultimately show ?thesis
      using d app None by (auto split: prod.splits option.splits)
  qed
qed simp

end

text \<open>The wire codec as a framer of the session.\<close>

definition wire_framer :: "Codec \<Rightarrow> framer" where
  "wire_framer c src = map_sum id (map_prod id int) (DecodeOne c src)"

lemma decode_step_wire:
  "decode_step (wire_framer c) True src =
     (case DecodeOne c src of
        Inl err \<Rightarrow> if errors_is err ErrNeedMore then NeedMore
                   else BadFrame (FmtErrorf ''transport: decode frame: '' err) hintWireDecode
      | Inr (m, n) \<Rightarrow> Deliver m n)"
proof (cases "DecodeOne c src")
  case (Inl err)
  then show ?thesis by (simp add: decode_step_def wire_framer_def)
next
  case (Inr mn)
  then obtain m n where "DecodeOne c src = Inr (m, n)" by (cases mn) auto
  with codec.dec_bounds [of c src m n] codec.dec_valid [of c src m n] show ?thesis
    by (simp add: decode_step_def wire_framer_def)
qed

interpretation wire: stream_framer "wire_framer c" True for c
proof
  fix src x
  assume "decode_step (wire_framer c) True src \<noteq> NeedMore"
  then have "DecodeOne c src \<noteq> Inl (Sentinel ErrNeedMore)"
    by (auto simp: decode_step_wire errors_is_def)
  then have "DecodeOne c (src @ x) = DecodeOne c src" using codec.dec_extend by blast
  then show "decode_step (wire_framer c) True (src @ x) = decode_step (wire_framer c) True src"
    by (simp add: decode_step_wire)
qed

text \<open>Cutting a sequence of frames anywhere leaves whole frames and a strict prefix of the next one.\<close>

lemma concat_cut:
  assumes "x @ y = concat fs"
  obtains fs1 fs2 p where "fs = fs1 @ fs2" "x = concat fs1 @ p" "p @ y = concat fs2"
    "p = [] \<or> (\<exists>f fs3 q. fs2 = f # fs3 \<and> f = p @ q \<and> q \<noteq> [])"
  using assms
proof (induction fs arbitrary: x thesis)
  case Nil
  then show ?case by simp
next
  case (Cons f fs)
  show ?case
  proof (cases "length f \<le> length x")
    case True
    then have x: "x = f @ drop (length f) x" and r: "drop (length f) x @ y = concat fs"
      using Cons.prems(2) by (auto simp: append_eq_append_conv_if split: if_splits) (metis append_take_drop_id)
    obtain fs1 fs2 p where c: "fs = fs1 @ fs2" "drop (length f) x = concat fs1 @ p" "p @ y = concat fs2"
      "p = [] \<or> (\<exists>f fs3 q. fs2 = f # fs3 \<and> f = p @ q \<and> q \<noteq> [])" using Cons.IH [OF _ r] by blast
    show ?thesis by (rule Cons.prems(1) [of "f # fs1" fs2 p]) (use c x in auto)
  next
    case False
    then have "f = x @ drop (length x) f" "drop (length x) f \<noteq> []"
      using Cons.prems(2) by (auto simp: append_eq_append_conv_if split: if_splits) (metis append_take_drop_id)
    then show ?thesis using Cons.prems by (intro Cons.prems(1) [of "[]" "f # fs" x]) auto
  qed
qed

context framer_roundtrip
begin

lemma frames_decode:
  assumes "\<And>src. decode_step dec' w src = (case dec src of
        Inl err \<Rightarrow> if errors_is err ErrNeedMore then NeedMore else bad err | Inr (m, n) \<Rightarrow> Deliver m n)"
    and "list_all2 enc ms fs" and "p = [] \<or> (\<exists>m q. enc m (p @ q) \<and> q \<noteq> [])"
  shows "decode_all dec' w (concat fs @ p) = (ms, p, None)"
  using assms(2)
proof (induction rule: list_all2_induct)
  case Nil
  have "dec p = Inl (Sentinel ErrNeedMore)" if pq: "enc m (p @ q)" "q \<noteq> []" for m q
    using dec_strict_prefix [OF pq(1), of "length p"] pq(2) by simp
  then have "p \<noteq> [] \<Longrightarrow> decode_step dec' w p = NeedMore"
    using assms(1,3) by (auto simp: errors_is_def)
  then show ?case by (simp add: decode_all.simps [of dec' w p])
next
  case (Cons m ms f fs)
  have "decode_step dec' w (f @ concat fs @ p) = Deliver m (length f)"
    using dec_enc_append [OF Cons(1)] assms(1) by simp
  moreover have "f \<noteq> []" using enc_nonempty [OF Cons(1)] .
  ultimately show ?case using Cons.IH by (simp add: decode_all.simps [of dec' w "f @ concat fs @ p"])
qed

lemma feed_frames:
  assumes st: "\<And>src. decode_step dec' w src = (case dec src of
        Inl err \<Rightarrow> if errors_is err ErrNeedMore then NeedMore else bad err | Inr (m, n) \<Rightarrow> Deliver m n)"
  shows "list_all2 enc ms fs \<Longrightarrow> pending @ concat chunks = concat fs \<Longrightarrow>
     (\<And>f. f \<in> set fs \<Longrightarrow> int (length f) \<le> maxRead + 1) \<Longrightarrow> 0 \<le> maxRead \<Longrightarrow>
     pending = [] \<or> (\<exists>f q. f \<in> set fs \<and> f = pending @ q \<and> q \<noteq> []) \<Longrightarrow>
     feed dec' w maxRead pending chunks = (ms, Inr [])"
proof (induction chunks arbitrary: pending ms fs)
  case Nil
  have "length f \<le> length (concat fs)" if "f \<in> set fs" for f
    using that by (induction fs) auto
  with Nil.prems(2,5) have "pending = []" by fastforce
  with Nil.prems(2) have "concat fs = []" by simp
  with Nil.prems(1) have "ms = []" by (cases fs) (auto simp: list_all2_Cons2 dest: enc_nonempty)
  with \<open>pending = []\<close> show ?case by simp
next
  case (Cons c cs)
  have "(pending @ c) @ concat cs = concat fs" using Cons.prems(2) by simp
  then obtain fs1 fs2 p where f: "fs = fs1 @ fs2" "pending @ c = concat fs1 @ p" "p @ concat cs = concat fs2"
    "p = [] \<or> (\<exists>f fs3 q. fs2 = f # fs3 \<and> f = p @ q \<and> q \<noteq> [])" by (rule concat_cut)
  obtain ms1 ms2 where m: "ms = ms1 @ ms2" "list_all2 enc ms1 fs1" "list_all2 enc ms2 fs2"
    using Cons.prems(1) unfolding f(1) by (auto simp: list_all2_append2)
  have "p = [] \<or> (\<exists>m q. enc m (p @ q) \<and> q \<noteq> [])" using f(4) m(3) by (auto simp: list_all2_Cons2)
  from frames_decode [OF st m(2) this] f(2) have d: "decode_all dec' w (pending @ c) = (ms1, p, None)" by simp
  have len: "int (length p) \<le> maxRead"
  proof (cases "p = []")
    case False
    with f(4) obtain f0 fs3 q where "fs2 = f0 # fs3" "f0 = p @ q" "q \<noteq> []" by blast
    moreover from this have "int (length f0) \<le> maxRead + 1" using Cons.prems(3) [of f0] f(1) by simp
    moreover have "1 \<le> length q" using \<open>q \<noteq> []\<close> by (cases q) simp_all
    ultimately show ?thesis by simp
  qed (use Cons.prems(4) in simp)
  have "p = [] \<or> (\<exists>f q. f \<in> set fs2 \<and> f = p @ q \<and> q \<noteq> [])" using f(4) by auto
  with f(3) m(3) Cons.prems(3,4) f(1) have "feed dec' w maxRead p cs = (ms2, Inr [])"
    by (intro Cons.IH [of ms2 fs2]) simp_all
  then show ?case using d len m(1) by simp
qed

end

section \<open>Properties\<close>

text \<open>
  C17. \<^verbatim>\<open>writeAll\<close> terminates and loses nothing: at most as many calls of \<^verbatim>\<open>Write\<close> as there are bytes are
  made; what reached the connection is a prefix of the frame, and the whole frame exactly when the
  result is nil, for \<^verbatim>\<open>writeFrame\<close> too.
\<close>

theorem write_complete:
  assumes "writer_ok frame (wWrites io)" and "length frame \<le> length (wWrites io)"
  shows "\<exists>r out rest. writeAll frame (wWrites io) = Some (r, out) \<and> frame = out @ rest \<and> (r = None \<longrightarrow> rest = [])
     \<and> (\<exists>r'. writeFrame frame io = Some r' \<and> (fst r' = None \<longrightarrow> snd r' = frame))"
proof -
  obtain r out where w: "writeAll frame (wWrites io) = Some (r, out)"
    using writeAll_returns [OF assms(2)] by auto
  obtain rest where "frame = out @ rest" "r = None \<longrightarrow> rest = []" using writeAll_prefix [OF assms(1) w] by blast
  with w show ?thesis
    by (intro exI [of _ r] exI [of _ out] exI [of _ rest]) (auto simp: writeFrame_def split: option.splits)
qed

theorem write_complete_witness:
  "\<exists>r. writeFrame [1, 2, 3] \<lparr>wSetDeadline = None, wWrites = [(2, None), (1, None), (0, None)], wClearDeadline = None\<rparr> = Some r
     \<and> fst r = None \<and> snd r = [1, 2, 3]"
  using write_complete [of "[1, 2, 3]" "\<lparr>wSetDeadline = None, wWrites = [(2, None), (1, None), (0, None)], wClearDeadline = None\<rparr>"]
  by (auto simp: writeFrame_def)



text \<open>
  C16. End to end over a byte stream: the frames of any sequence of messages, encoded by a codec with a
  reversible cipher or none and cut into chunks anywhere, are delivered by the peer's reader as exactly
  those messages in order with nothing left over, if its read buffer holds all but the last byte of each
  frame.
\<close>

theorem stream_roundtrip:
  assumes "codec_reversible c" and "list_all2 (\<lambda>m f. \<exists>rng. rng_ok rng \<and> Encode c rng m = Inr f) ms fs"
    and "concat chunks = concat fs" and "\<forall>f \<in> set fs. int (length f) \<le> maxRead + 1" and "0 \<le> maxRead"
  shows "feed (wire_framer c) True maxRead [] chunks = (ms, Inr [])"
  using assms(2-5) by (intro framer_roundtrip.feed_frames [OF codec_roundtrip [OF assms(1)] decode_step_wire]) auto

theorem stream_roundtrip_witness:
  "feed (wire_framer (plain_codec 64)) True 10 [] [[0x4f], [0x47, 1, 0, 0, 0, 0], [0, 0, 1, 7, 0x4f], [0x47, 1, 0, 0, 0, 0, 0, 0, 0]] =
     ([\<lparr>msgType = PayloadBinary, msgData = [7]\<rparr>, \<lparr>msgType = PayloadBinary, msgData = []\<rparr>], Inr [])"
proof -
  let ?c = "plain_codec 64"
  let ?m1 = "\<lparr>msgType = PayloadBinary, msgData = [7]\<rparr>" and ?m2 = "\<lparr>msgType = PayloadBinary, msgData = []\<rparr>"
  let ?f1 = "[0x4f, 0x47, 1, 0, 0, 0, 0, 0, 0, 1, 7]" and ?f2 = "[0x4f, 0x47, 1, 0, 0, 0, 0, 0, 0, 0]"
  have "Encode ?c toy_rng ?m1 = Inr ?f1" "Encode ?c toy_rng ?m2 = Inr ?f2"
    by (simp_all add: codec_eval plain_codec_def)
  then have "list_all2 (\<lambda>m f. \<exists>rng. rng_ok rng \<and> Encode ?c rng m = Inr f) [?m1, ?m2] [?f1, ?f2]"
    using toy_rng_ok by auto
  moreover have "codec_reversible ?c" by (simp add: plain_codec_def codec_reversible_def)
  ultimately show ?thesis
    using stream_roundtrip [of ?c "[?m1, ?m2]" "[?f1, ?f2]"
        "[[0x4f], [0x47, 1, 0, 0, 0, 0], [0, 0, 1, 7, 0x4f], [0x47, 1, 0, 0, 0, 0, 0, 0, 0]]" 10] by simp
qed

end
