(* ===== verification/Session_Prog.thy ===== *)
theory Session_Prog
  imports Ogre_Prelude
begin

text \<open>
  Goroutines as programs. A program is a tree of atomic actions: a channel operation, a critical
  section, one call of a foreign object. What an action does may depend on an event, which
  says which ready case a \<^verbatim>\<open>select\<close> takes and what a foreign call returns; \<open>None\<close> means that the action
  cannot happen with that event now. Loops are programs that return the label of the next
  iteration, so a system is a shared state and a list of programs.

  \<open>wp\<close> is a program logic of owned resources: \<open>own s k\<close> is how much of the resource \<open>k\<close> the running
  programs own together, a program holds part of it, and every action must change the two by
  the same amount. Its soundness, for every interleaving, is the locale \<open>session_loops\<close>.
\<close>

section \<open>Programs\<close>

datatype ('e, 's, 'r) prog = Ret 'r | Act "'e \<Rightarrow> 's \<Rightarrow> ('s \<times> ('e, 's, 'r) prog) option"

primrec bind :: "('e, 's, 'a) prog \<Rightarrow> ('a \<Rightarrow> ('e, 's, 'b) prog) \<Rightarrow> ('e, 's, 'b) prog" where
  "bind (Ret a) k = k a"
| "bind (Act f) k = Act (\<lambda>e s. map_option (map_prod id (\<lambda>p. bind p k)) (f e s))"

text \<open>A single action.\<close>

definition atom :: "('e \<Rightarrow> 's \<Rightarrow> ('s \<times> 'r) option) \<Rightarrow> ('e, 's, 'r) prog" where
  "atom f = Act (\<lambda>e s. map_option (map_prod id Ret) (f e s))"

text \<open>\<open>seq p q\<close> runs \<open>q\<close> after \<open>p\<close>; \<open>after p q\<close> is a deferred call \<open>q\<close> that keeps the result of \<open>p\<close>.\<close>

abbreviation seq :: "('e, 's, 'a) prog \<Rightarrow> ('e, 's, 'b) prog \<Rightarrow> ('e, 's, 'b) prog" where
  "seq p q \<equiv> bind p (\<lambda>_. q)"

abbreviation after :: "('e, 's, 'a) prog \<Rightarrow> ('e, 's, unit) prog \<Rightarrow> ('e, 's, 'a) prog" where
  "after p q \<equiv> bind p (\<lambda>r. bind q (\<lambda>_. Ret r))"

section \<open>Systems of programs\<close>

record ('e, 's, 'l) psys =
  pst :: 's
  threads :: "('e, 's, 'l option) prog list"

inductive pstep :: "('l \<Rightarrow> ('e, 's, 'l option) prog) \<Rightarrow> 'l set \<Rightarrow> ('e, 's, 'l) psys \<Rightarrow> ('e, 's, 'l) psys \<Rightarrow> bool"
  for body :: "'l \<Rightarrow> ('e, 's, 'l option) prog" and spawn :: "'l set"
where
  act: "i < length (threads c) \<Longrightarrow> threads c ! i = Act f \<Longrightarrow> f e (pst c) = Some (s, p) \<Longrightarrow>
     pstep body spawn c \<lparr>pst = s, threads = (threads c)[i := p]\<rparr>"
| loop: "i < length (threads c) \<Longrightarrow> threads c ! i = Ret (Some l) \<Longrightarrow>
     pstep body spawn c (c\<lparr>threads := (threads c)[i := body l]\<rparr>)"
| go: "l \<in> spawn \<Longrightarrow> pstep body spawn c (c\<lparr>threads := threads c @ [body l]\<rparr>)"

text \<open>
  A schedule, for runs that are computed: start a call, take the next iteration of a loop, or let one
  goroutine act. \<open>None\<close> when an action cannot happen.
\<close>

datatype ('e, 'l) move = Go 'l | Loop nat | Do nat 'e

fun exec :: "('l \<Rightarrow> ('e, 's, 'l option) prog) \<Rightarrow> ('l \<Rightarrow> bool) \<Rightarrow> ('e, 'l) move list \<Rightarrow> ('e, 's, 'l) psys \<Rightarrow> ('e, 's, 'l) psys option"
where
  "exec body ok [] c = Some c"
| "exec body ok (Go l # ms) c = (if ok l then exec body ok ms (c\<lparr>threads := threads c @ [body l]\<rparr>) else None)"
| "exec body ok (Loop i # ms) c = (if i < length (threads c) then
     case threads c ! i of Ret (Some l) \<Rightarrow> exec body ok ms (c\<lparr>threads := (threads c)[i := body l]\<rparr>) | _ \<Rightarrow> None else None)"
| "exec body ok (Do i e # ms) c = (if i < length (threads c) then
     case threads c ! i of
       Act f \<Rightarrow> (case f e (pst c) of
         Some (s, p) \<Rightarrow> exec body ok ms \<lparr>pst = s, threads = (threads c)[i := p]\<rparr> | None \<Rightarrow> None)
     | Ret r \<Rightarrow> None else None)"

fun returned :: "('e, 's, 'r) prog \<Rightarrow> 'r option" where
  "returned (Ret r) = Some r"
| "returned (Act f) = None"

lemma returned_iff: "returned p = Some r \<longleftrightarrow> p = Ret r"
  by (cases p) auto

lemma all_returned: "map returned ps = replicate n (Some r) \<Longrightarrow> set ps \<subseteq> {Ret r}"
  by (induction ps arbitrary: n) (auto simp: returned_iff Cons_replicate_eq)

lemma exec_reachable:
  assumes "exec body ok ms c = Some d" and "reachable init (pstep body (Collect ok)) c"
  shows "reachable init (pstep body (Collect ok)) d"
  using assms
proof (induction body ok ms c rule: exec.induct)
  case (4 body ok i e ms c)
  then obtain f s p where f: "i < length (threads c)" "threads c ! i = Act f" "f e (pst c) = Some (s, p)"
      "exec body ok ms \<lparr>pst = s, threads = (threads c)[i := p]\<rparr> = Some d"
    by (auto split: if_splits prog.splits option.splits)
  show ?case
    by (rule 4(1) [OF f(1,2,3) refl f(4) reach_step [OF 4(3) pstep.act [OF f(1,2,3)]]])
qed (auto split: if_splits prog.splits option.splits intro: reach_step pstep.intros)

lemma exec_steps:
  assumes "exec body ok ms c = Some d"
  shows "(pstep body (Collect ok))\<^sup>*\<^sup>* c d"
proof -
  have "reachable ((=) c) (pstep body (Collect ok)) d"
    by (rule exec_reachable [OF assms]) (rule reach_init, simp)
  then show ?thesis by (induction rule: reachable.induct) (auto intro: rtranclp.rtrancl_into_rtrancl)
qed

section \<open>The logic\<close>

type_synonym 'k holding = "'k \<Rightarrow> int"

abbreviation none :: "'k holding" where
  "none \<equiv> (\<lambda>_. 0)"

abbreviation add :: "'k \<Rightarrow> int \<Rightarrow> 'k holding \<Rightarrow> 'k holding" where
  "add k n h \<equiv> h(k := h k + n)"

definition holds :: "('s \<Rightarrow> 'k holding) \<Rightarrow> 's \<Rightarrow> 'k holding \<Rightarrow> bool" where
  "holds own s h \<longleftrightarrow> (\<forall>k. 0 \<le> h k \<and> h k \<le> own s k)"

definition moved :: "('s \<Rightarrow> 'k holding) \<Rightarrow> 's \<Rightarrow> 's \<Rightarrow> 'k holding \<Rightarrow> 'k holding \<Rightarrow> bool" where
  "moved own s s' h h' \<longleftrightarrow> (\<forall>k. 0 \<le> h' k \<and> own s' k - own s k = h' k - h k)"

text \<open>
  Some resources are knowledge: facts that, once true, stay true. Any number of programs may hold them
  and drop them; holding one only means that the state has it.
\<close>

definition moves :: "('k \<Rightarrow> bool) \<Rightarrow> ('s \<Rightarrow> 'k holding) \<Rightarrow> 's \<Rightarrow> 's \<Rightarrow> 'k holding \<Rightarrow> 'k holding \<Rightarrow> bool" where
  "moves P own s s' h h' \<longleftrightarrow>
     (\<forall>k. 0 \<le> h' k \<and> (if P k then h' k \<le> own s' k else own s' k - own s k = h' k - h k))"

lemma moved_moves:
  assumes "moved own s s' h h'" and "holds own s h"
  shows "moves P own s s' h h'"
  unfolding moves_def
proof (intro allI conjI)
  fix k
  have "0 \<le> h' k" "own s' k - own s k = h' k - h k" "h k \<le> own s k"
    using assms by (auto simp: moved_def holds_def)
  then show "0 \<le> h' k" "if P k then h' k \<le> own s' k else own s' k - own s k = h' k - h k" by auto
qed

inductive wp :: "('s \<Rightarrow> bool) \<Rightarrow> ('s \<Rightarrow> 's \<Rightarrow> bool) \<Rightarrow> ('k \<Rightarrow> bool) \<Rightarrow> ('s \<Rightarrow> 'k holding) \<Rightarrow>
    ('r \<Rightarrow> 'k holding \<Rightarrow> bool) \<Rightarrow> ('e, 's, 'r) prog \<Rightarrow> 'k holding \<Rightarrow> bool"
  for W :: "'s \<Rightarrow> bool" and G :: "'s \<Rightarrow> 's \<Rightarrow> bool" and P :: "'k \<Rightarrow> bool" and own :: "'s \<Rightarrow> 'k holding"
    and Q :: "'r \<Rightarrow> 'k holding \<Rightarrow> bool"
where
  wp_Ret: "Q r h \<Longrightarrow> wp W G P own Q (Ret r) h"
| wp_Act: "(\<And>e s s' p. W s \<Longrightarrow> holds own s h \<Longrightarrow> f e s = Some (s', p) \<Longrightarrow>
       W s' \<and> G s s' \<and> (\<exists>h'. moves P own s s' h h' \<and> wp W G P own Q p h')) \<Longrightarrow> wp W G P own Q (Act f) h"

inductive_simps wp_Ret_iff [simp]: "wp W G P own Q (Ret r) h"
inductive_cases wp_ActE: "wp W G P own Q (Act f) h"

lemma wp_mono:
  fixes p :: "('e, 's, 'r) prog"
  assumes "wp W G P own Q p h" and "\<And>r h. Q r h \<Longrightarrow> Q' r h"
  shows "wp W G P own Q' p h"
  using assms(1)
proof induction
  case (wp_Act h f)
  show ?case
  proof (rule wp.wp_Act)
    fix e s s' p
    assume "W s" "holds own s h" "f e s = Some (s', p)"
    from wp_Act.IH [OF this] show "W s' \<and> G s s' \<and> (\<exists>h'. moves P own s s' h h' \<and> wp W G P own Q' p h')" by blast
  qed
qed (auto intro: wp.wp_Ret assms(2))

lemma wp_bind:
  assumes "wp W G P own (\<lambda>r h'. wp W G P own Q (k r) h') p h"
  shows "wp W G P own Q (bind p k) h"
  using assms
proof induction
  case (wp_Act h f)
  show ?case
    unfolding bind.simps
  proof (rule wp.wp_Act)
    fix e s s' q
    assume a: "W s" "holds own s h" "map_option (map_prod id (\<lambda>p. bind p k)) (f e s) = Some (s', q)"
    then obtain p where p: "f e s = Some (s', p)" "q = bind p k" by auto
    from wp_Act [OF a(1,2) p(1)] p(2)
    show "W s' \<and> G s s' \<and> (\<exists>h'. moves P own s s' h h' \<and> wp W G P own Q q h')" by blast
  qed
qed simp

lemma wp_atom_moves:
  fixes f :: "'e \<Rightarrow> 's \<Rightarrow> ('s \<times> 'r) option"
  assumes "\<And>e s s' r. W s \<Longrightarrow> holds own s h \<Longrightarrow> f e s = Some (s', r) \<Longrightarrow>
     W s' \<and> G s s' \<and> (\<exists>h'. moves P own s s' h h' \<and> Q r h')"
  shows "wp W G P own Q (atom f) h"
  unfolding atom_def
proof (rule wp_Act)
  fix e s s' and p :: "('e, 's, 'r) prog"
  assume a: "W s" "holds own s h" "map_option (map_prod id Ret) (f e s) = Some (s', p)"
  then obtain r where "f e s = Some (s', r)" "p = Ret r" by auto
  with assms [OF a(1,2)] show "W s' \<and> G s s' \<and> (\<exists>h'. moves P own s s' h h' \<and> wp W G P own Q p h')"
    by (blast intro: wp_Ret)
qed

lemma wp_atom:
  assumes "\<And>e s s' r. W s \<Longrightarrow> holds own s h \<Longrightarrow> f e s = Some (s', r) \<Longrightarrow>
     W s' \<and> G s s' \<and> (\<exists>h'. moved own s s' h h' \<and> Q r h')"
  shows "wp W G P own Q (atom f) h"
  using assms by (intro wp_atom_moves) (blast intro: moved_moves)

text \<open>An action that moves no resource.\<close>

lemma wp_atom_frame:
  assumes "\<And>e s s' r. W s \<Longrightarrow> holds own s h \<Longrightarrow> f e s = Some (s', r) \<Longrightarrow>
     W s' \<and> G s s' \<and> own s' = own s \<and> Q r h"
  shows "wp W G P own Q (atom f) h"
proof (rule wp_atom)
  fix e s s' r
  assume a: "W s" "holds own s h" "f e s = Some (s', r)"
  have "moved own s s' h h" using assms [OF a] a(2) by (simp add: moved_def holds_def)
  with assms [OF a] show "W s' \<and> G s s' \<and> (\<exists>h'. moved own s s' h h' \<and> Q r h')" by blast
qed

section \<open>Soundness\<close>

text \<open>
  The contract of a session: every loop body, started with the resources its label names, ends
  with those of the next label, or with nothing.
\<close>

definition next_hold :: "('k \<Rightarrow> bool) \<Rightarrow> ('l \<Rightarrow> 'k holding) \<Rightarrow> 'l option \<Rightarrow> 'k holding \<Rightarrow> bool" where
  "next_hold P hold r h \<longleftrightarrow>
     (\<forall>k. let n = (case r of None \<Rightarrow> 0 | Some l \<Rightarrow> hold l k) in if P k then n \<le> h k else h k = n)"

locale session_loops =
  fixes body :: "'l \<Rightarrow> ('e, 's, 'l option) prog" and spawn :: "'l set" and hold :: "'l \<Rightarrow> 'k holding"
    and W :: "'s \<Rightarrow> bool" and G :: "'s \<Rightarrow> 's \<Rightarrow> bool" and P :: "'k \<Rightarrow> bool" and own :: "'s \<Rightarrow> 'k holding"
    and init :: "('e, 's, 'l) psys \<Rightarrow> bool"
  assumes body_ok: "wp W G P own (next_hold P hold) (body l) (hold l)"
    and hold_pos: "0 \<le> hold l k"
    and spawn_free: "l \<in> spawn \<Longrightarrow> hold l = none"
    and init_ok: "init c \<Longrightarrow> W (pst c) \<and> (\<exists>ls. threads c = map body ls \<and> (\<forall>l \<in> set ls. \<forall>k. P k \<longrightarrow> hold l k = 0)
      \<and> (\<forall>k. \<not> P k \<longrightarrow> own (pst c) k = sum_list (map (\<lambda>l. hold l k) ls)))"
    and known_pos: "P k \<Longrightarrow> 0 \<le> own s k" and G_known: "P k \<Longrightarrow> G s s' \<Longrightarrow> own s k \<le> own s' k"
    and G_refl: "G s s" and G_trans: "G s s' \<Longrightarrow> G s' s'' \<Longrightarrow> G s s''"
begin

definition accounted :: "('e, 's, 'l) psys \<Rightarrow> bool" where
  "accounted c \<longleftrightarrow> W (pst c) \<and> (\<exists>hs. length hs = length (threads c)
     \<and> (\<forall>i < length hs. (\<forall>k. 0 \<le> (hs ! i) k \<and> (P k \<longrightarrow> (hs ! i) k \<le> own (pst c) k))
          \<and> wp W G P own (next_hold P hold) (threads c ! i) (hs ! i))
     \<and> (\<forall>k. \<not> P k \<longrightarrow> own (pst c) k = sum_list (map (\<lambda>h. h k) hs)))"

lemma accountedE:
  assumes "accounted c"
  obtains hs where "W (pst c)" "length hs = length (threads c)"
    "\<And>i k. i < length hs \<Longrightarrow> 0 \<le> (hs ! i) k" "\<And>i k. i < length hs \<Longrightarrow> P k \<Longrightarrow> (hs ! i) k \<le> own (pst c) k"
    "\<And>i. i < length hs \<Longrightarrow> wp W G P own (next_hold P hold) (threads c ! i) (hs ! i)"
    "\<And>k. \<not> P k \<Longrightarrow> own (pst c) k = sum_list (map (\<lambda>h. h k) hs)"
  using assms unfolding accounted_def by blast

lemma accounted_init: "init c \<Longrightarrow> accounted c"
proof -
  assume "init c"
  then obtain ls where "W (pst c)" "threads c = map body ls" "\<forall>l \<in> set ls. \<forall>k. P k \<longrightarrow> hold l k = 0"
      "\<And>k. \<not> P k \<Longrightarrow> own (pst c) k = sum_list (map (\<lambda>l. hold l k) ls)"
    using init_ok by blast
  then show ?thesis
    unfolding accounted_def
    by (intro conjI exI [of _ "map hold ls"]) (auto simp: body_ok hold_pos known_pos comp_def)
qed

lemma accounted_act:
  assumes "accounted c" and i: "i < length (threads c)" "threads c ! i = Act f" and f: "f e (pst c) = Some (s, p)"
  shows "accounted \<lparr>pst = s, threads = (threads c)[i := p]\<rparr> \<and> G (pst c) s"
  using assms(1)
proof (rule accountedE)
  fix hs
  assume W: "W (pst c)" and len: "length hs = length (threads c)"
    and pos: "\<And>i k. i < length hs \<Longrightarrow> 0 \<le> (hs ! i) k"
    and kn: "\<And>i k. i < length hs \<Longrightarrow> P k \<Longrightarrow> (hs ! i) k \<le> own (pst c) k"
    and wps: "\<And>i. i < length hs \<Longrightarrow> wp W G P own (next_hold P hold) (threads c ! i) (hs ! i)"
    and sum: "\<And>k. \<not> P k \<Longrightarrow> own (pst c) k = sum_list (map (\<lambda>h. h k) hs)"
  have "0 \<le> h k" if "h \<in> set hs" for h k using that pos by (auto simp: in_set_conv_nth)
  then have "(hs ! i) k \<le> own (pst c) k" for k
    using kn [of i k] sum [of k] len i sum_list_map_ge [of i hs "\<lambda>h. h k"] by (cases "P k") simp_all
  then have "holds own (pst c) (hs ! i)" unfolding holds_def using pos [of i] len i by simp
  moreover have "wp W G P own (next_hold P hold) (Act f) (hs ! i)" using wps [of i] len i by simp
  ultimately obtain h' where h': "W s" "G (pst c) s" "moves P own (pst c) s (hs ! i) h'"
      "wp W G P own (next_hold P hold) p h'"
    using f W by (blast elim: wp_ActE)
  have "own s k = sum_list (map (\<lambda>h. h k) (hs[i := h']))" if "\<not> P k" for k
  proof -
    have "own s k - own (pst c) k = h' k - (hs ! i) k" using h'(3) that by (auto simp: moves_def)
    then show ?thesis using len sum [OF that] i(1) sum_list_map_update [of i hs "\<lambda>h. h k" h'] by simp
  qed
  moreover have "(hs ! j) k \<le> own s k" if "j < length hs" "P k" for j k
    using kn [OF that] G_known [OF that(2) h'(2)] by linarith
  moreover have "P k \<Longrightarrow> h' k \<le> own s k" "0 \<le> h' k" for k using h'(3) by (auto simp: moves_def)
  ultimately show "accounted \<lparr>pst = s, threads = (threads c)[i := p]\<rparr> \<and> G (pst c) s"
    using h' len i pos wps unfolding accounted_def
    by (intro conjI exI [of _ "hs[i := h']"]) (auto simp: nth_list_update)
qed

lemma wp_hold:
  assumes "next_hold P hold (Some l) h"
  shows "\<And>k. \<not> P k \<Longrightarrow> h k = hold l k" "\<And>k. P k \<Longrightarrow> hold l k \<le> h k"
  using assms by (simp_all add: next_hold_def Let_def split: if_splits)

lemma accounted_loop:
  assumes "accounted c" and i: "i < length (threads c)" "threads c ! i = Ret (Some l)"
  shows "accounted (c\<lparr>threads := (threads c)[i := body l]\<rparr>)"
  using assms(1)
proof (rule accountedE)
  fix hs
  assume W: "W (pst c)" and len: "length hs = length (threads c)"
    and pos: "\<And>i k. i < length hs \<Longrightarrow> 0 \<le> (hs ! i) k"
    and kn: "\<And>i k. i < length hs \<Longrightarrow> P k \<Longrightarrow> (hs ! i) k \<le> own (pst c) k"
    and wps: "\<And>i. i < length hs \<Longrightarrow> wp W G P own (next_hold P hold) (threads c ! i) (hs ! i)"
    and sum: "\<And>k. \<not> P k \<Longrightarrow> own (pst c) k = sum_list (map (\<lambda>h. h k) hs)"
  have "next_hold P hold (Some l) (hs ! i)" using wps [of i] len i by simp
  note h = wp_hold [OF this]
  have "sum_list (map (\<lambda>h. h k) (hs[i := hold l])) = sum_list (map (\<lambda>h. h k) hs)" if "\<not> P k" for k
    using sum_list_map_update [of i hs "\<lambda>h. h k" "hold l"] h(1) [OF that] len i by simp
  moreover have "hold l k \<le> own (pst c) k" if "P k" for k
    using h(2) [OF that] kn [of i k, OF _ that] len i by simp
  ultimately show ?thesis using W len pos kn wps sum i
    unfolding accounted_def
    by (intro conjI exI [of _ "hs[i := hold l]"]) (auto simp: nth_list_update body_ok hold_pos known_pos)
qed

lemma accounted_go:
  assumes "accounted c" and "l \<in> spawn"
  shows "accounted (c\<lparr>threads := threads c @ [body l]\<rparr>)"
  using assms(1)
proof (rule accountedE)
  fix hs
  assume "W (pst c)" "length hs = length (threads c)"
    "\<And>i k. i < length hs \<Longrightarrow> 0 \<le> (hs ! i) k" "\<And>i k. i < length hs \<Longrightarrow> P k \<Longrightarrow> (hs ! i) k \<le> own (pst c) k"
    "\<And>i. i < length hs \<Longrightarrow> wp W G P own (next_hold P hold) (threads c ! i) (hs ! i)"
    "\<And>k. \<not> P k \<Longrightarrow> own (pst c) k = sum_list (map (\<lambda>h. h k) hs)"
  with assms(2) body_ok [of l] spawn_free [of l] show ?thesis
    unfolding accounted_def by (intro conjI exI [of _ "hs @ [none]"]) (auto simp: nth_append known_pos)
qed

lemma accounted_step: "accounted c \<Longrightarrow> pstep body spawn c d \<Longrightarrow> accounted d"
  by (erule pstep.cases) (auto simp: accounted_act accounted_loop accounted_go)

lemma guarantee: "accounted c \<Longrightarrow> pstep body spawn c d \<Longrightarrow> G (pst c) (pst d)"
  by (erule pstep.cases) (auto dest: accounted_act simp: G_refl)

lemma reachable_accounted: "reachable init (pstep body spawn) c \<Longrightarrow> accounted c"
  by (induction rule: reachable.induct) (auto intro: accounted_init accounted_step)

lemma reachable_W: "reachable init (pstep body spawn) c \<Longrightarrow> W (pst c)"
  using reachable_accounted by (auto simp: accounted_def)

lemma reachable_guarantee:
  assumes "(pstep body spawn)\<^sup>*\<^sup>* c d" and "reachable init (pstep body spawn) c"
  shows "reachable init (pstep body spawn) d \<and> G (pst c) (pst d)"
  using assms
proof (induction rule: rtranclp_induct)
  case (step d d')
  then show ?case using reachable_accounted guarantee G_trans by (blast intro: reach_step)
qed (simp add: G_refl)

lemma own_nonneg:
  assumes "reachable init (pstep body spawn) c"
  shows "0 \<le> own (pst c) k"
  using reachable_accounted [OF assms]
proof (rule accountedE)
  fix hs
  assume "\<And>i k. i < length hs \<Longrightarrow> 0 \<le> (hs ! i) k" "\<And>k. \<not> P k \<Longrightarrow> own (pst c) k = sum_list (map (\<lambda>h. h k) hs)"
  then show ?thesis
    by (cases "P k") (auto intro!: known_pos sum_list_nonneg simp: in_set_conv_nth)
qed

text \<open>What a goroutine knows when it reaches a label is true.\<close>

lemma label_known:
  assumes "reachable init (pstep body spawn) c" and "Ret (Some l) \<in> set (threads c)" and "P k"
  shows "hold l k \<le> own (pst c) k"
  using reachable_accounted [OF assms(1)]
proof (rule accountedE)
  fix hs
  assume len: "length hs = length (threads c)"
    and kn: "\<And>i k. i < length hs \<Longrightarrow> P k \<Longrightarrow> (hs ! i) k \<le> own (pst c) k"
    and wps: "\<And>i. i < length hs \<Longrightarrow> wp W G P own (next_hold P hold) (threads c ! i) (hs ! i)"
  obtain j where j: "j < length hs" "threads c ! j = Ret (Some l)" using assms(2) len by (auto simp: in_set_conv_nth)
  then have "next_hold P hold (Some l) (hs ! j)" using wps [of j] by simp
  then show ?thesis using wp_hold(2) [OF _ assms(3)] kn [OF j(1) assms(3)] by fastforce
qed

text \<open>When every goroutine has returned, nothing is owned any more.\<close>

lemma quiescent:
  assumes "reachable init (pstep body spawn) c" and "set (threads c) \<subseteq> {Ret None}" and "\<not> P k"
  shows "own (pst c) k = 0"
  using reachable_accounted [OF assms(1)]
proof (rule accountedE)
  fix hs
  assume len: "length hs = length (threads c)"
    and wps: "\<And>i. i < length hs \<Longrightarrow> wp W G P own (next_hold P hold) (threads c ! i) (hs ! i)"
    and sum: "\<And>k. \<not> P k \<Longrightarrow> own (pst c) k = sum_list (map (\<lambda>h. h k) hs)"
  have "h k = 0" if h: "h \<in> set hs" for h
  proof -
    obtain j where j: "j < length hs" "hs ! j = h" using h by (auto simp: in_set_conv_nth)
    moreover have "threads c ! j = Ret None" using assms(2) j len by (auto simp: subset_iff in_set_conv_nth)
    ultimately show ?thesis using wps [of j] assms(3) by (simp add: next_hold_def Let_def split: if_splits)
  qed
  then show ?thesis using sum [OF assms(3)] by (auto intro: sum_list_map_zero)
qed

end

end
