(* ===== verification/Session_Core.thy ===== *)
theory Session_Core
  imports Session_Prog Session_State Quota Messages "HOL-Library.Sublist"
begin

text \<open>
  What the three kinds of session share: the state of the send path (gate, frame slots, encoder slot,
  byte quota, queue, acknowledgement channels) with the lifecycle and the close flags, its atomic
  actions, and their rules in the logic of \<open>Session_Prog\<close>. The sessions themselves
  (\<open>Stream_Session\<close>, \<open>WebSocket_Session\<close>, \<open>Packet_Session\<close>) are programs over these actions.

  The state also keeps a history that the code does not have: every request that entered the queue
  (\<open>enq\<close>), the requests taken from it and the ones completely written, in order, where the
  writer goroutine is (\<open>wmode\<close>), and \<open>fault\<close>, which an action sets where the Go code would panic or
  block for ever (leaving an empty gate, receiving from an empty slot channel, filling a full
  acknowledgement channel, closing a closed channel).
\<close>

section \<open>Events\<close>

text \<open>
  Which case of a \<^verbatim>\<open>select\<close> is taken, or what a call outside the session returns; \<open>Io x\<close> carries the
  result of a call on the connection.
\<close>

datatype 'x ev = Tau | CtxDone | Closing | Chan | Sig | Dflt | Ok | Fail gerr | Io 'x

section \<open>State\<close>

record outbound =
  rid :: nat
  otyp :: int
  oframe :: bytes
  oack :: bool
  obytes :: int
  opayload :: int
  odest :: "net_addr option"

datatype ackch = AckEmpty | AckFull "gerr option" | AckTaken "gerr option"

text \<open>
  The writer goroutine: in its loop with nothing in hand or writing a request; the same after it has
  seen \<^verbatim>\<open>gate.done()\<close>; returned from the loop; in \<^verbatim>\<open>failPending\<close>; at its end.
\<close>

datatype writer_mode = WIdle | WBusy nat | WDraining | WDrainBusy nat | WStopped | WFailing | WEnd

datatype counter = BytesRX | BytesTX | MessagesRX | MessagesTX | Backpressure | DecodeErrors | DroppedDatagrams

datatype EventKind = EventAccept | EventConnect | EventHandshake | EventRead | EventWrite | EventBackpressure
  | EventDrop | EventClose

text \<open>Calls of the observer and of the handler, in order.\<close>

datatype call = Observe EventKind u64 "gerr option" | OnOpen | OnMessage Message
  | OnPacket "net_addr option" bytes | OnClose "gerr option"

text \<open>The goroutines that \<^verbatim>\<open>loops\<close>, a \<^verbatim>\<open>sync.WaitGroup\<close>, counts.\<close>

datatype loop = WriterLoop | ReaderLoop | ActivityLoop | PingLoop

record sst =
  gate :: sendGate
  slife :: sessionLifecycle
  closeOnce :: bool
  closing :: bool
  cerr :: "gerr option"
  drainReq :: bool
  writerDrained :: bool
  finalOnce :: bool
  sdone :: bool
  loops :: "loop \<Rightarrow> bool"
  wqueue :: nat
  slots :: int
  encs :: int
  quota :: byteQuota
  queue :: "outbound list"
  acks :: "ackch list"
  ctxs :: "nat \<Rightarrow> (gerr \<times> gerr) option"
  stats :: "counter \<Rightarrow> u64"
  calls :: "call list"
  enq :: "outbound list"
  taken :: "nat list"
  written :: "nat list"
  wmode :: writer_mode
  flushed :: bool
  fault :: bool

type_synonym ('x, 'a, 'r) sprog = "('x ev, 'a sst_scheme, 'r) prog"

definition new_session :: "(loop \<Rightarrow> bool) \<Rightarrow> nat \<Rightarrow> int \<Rightarrow> 'a \<Rightarrow> 'a sst_scheme" where
  "new_session ls wq maxQueued ext =
     \<lparr>gate = newSendGate, slife = newSessionLifecycle, closeOnce = False, closing = False, cerr = None,
      drainReq = False, writerDrained = False, finalOnce = False, sdone = False, loops = ls, wqueue = wq, slots = 0,
      encs = 0, quota = newByteQuota maxQueued, queue = [], acks = [], ctxs = (\<lambda>_. None), stats = (\<lambda>_. 0),
      calls = [], enq = [], taken = [], written = [], wmode = WIdle, flushed = False, fault = False,
      \<dots> = ext\<rparr>"

section \<open>Actions\<close>

definition enter :: "('x, 'a, bool) sprog" where
  "enter = atom (\<lambda>e s. case gate_enter (gate s) of (ok, g) \<Rightarrow> Some (s\<lparr>gate := g\<rparr>, ok))"

definition leave :: "('x, 'a, unit) sprog" where
  "leave = atom (\<lambda>e s. case gate_leave (gate s) of
      Some g \<Rightarrow> Some (s\<lparr>gate := g\<rparr>, ()) | None \<Rightarrow> Some (s\<lparr>fault := True\<rparr>, ()))"

definition shut_gate :: "('x, 'a, unit) sprog" where
  "shut_gate = atom (\<lambda>e s. case gate_close (gate s) of
      Some g \<Rightarrow> Some (s\<lparr>gate := g\<rparr>, ()) | None \<Rightarrow> Some (s\<lparr>fault := True\<rparr>, ()))"

text \<open>
  A context is its number; \<open>ctxs\<close> holds \<^verbatim>\<open>ctx.Err()\<close> and \<^verbatim>\<open>context.Cause(ctx)\<close> once it is done.
\<close>

definition ctx_cause :: "nat \<Rightarrow> ('x, 'a, gerr option) sprog" where
  "ctx_cause c = atom (\<lambda>e s. Some (s, map_option snd (ctxs s c)))"

definition cancel_ctx :: "nat \<Rightarrow> gerr \<Rightarrow> gerr \<Rightarrow> ('x, 'a, unit) sprog" where
  "cancel_ctx c err cause = atom (\<lambda>e s.
     Some (if ctxs s c = None then s\<lparr>ctxs := (ctxs s)(c \<mapsto> (err, cause))\<rparr> else s, ()))"

definition isClosing :: "('x, 'a, bool) sprog" where
  "isClosing = atom (\<lambda>e s. Some (s, closing s))"

definition get_err :: "('x, 'a, gerr option) sprog" where
  "get_err = atom (\<lambda>e s. Some (s, cerr s))"

definition bump :: "counter \<Rightarrow> u64 \<Rightarrow> ('x, 'a, unit) sprog" where
  "bump c n = atom (\<lambda>e s. Some (s\<lparr>stats := (stats s)(c := stats s c + n)\<rparr>, ()))"

definition call_out :: "call \<Rightarrow> ('x, 'a, unit) sprog" where
  "call_out x = atom (\<lambda>e s. Some (s\<lparr>calls := calls s @ [x]\<rparr>, ()))"

text \<open>
  The blocking \<^verbatim>\<open>select\<close> that takes a slot, and the one with a \<^verbatim>\<open>default\<close>, on a channel whose length and
  capacity the arguments read.
\<close>

definition acquire_chan ::
  "('a sst_scheme \<Rightarrow> bool) \<Rightarrow> ('a sst_scheme \<Rightarrow> 'a sst_scheme) \<Rightarrow> nat \<Rightarrow> ('x, 'a, gerr option) sprog"
where
  "acquire_chan room put c = atom (\<lambda>e s.
     case e of
       CtxDone \<Rightarrow> map_option (\<lambda>x. (s, Some (fst x))) (ctxs s c)
     | Closing \<Rightarrow> if closing s then Some (s, Some (Sentinel ErrClosed)) else None
     | Chan \<Rightarrow> if room s then Some (put s, None) else None
     | _ \<Rightarrow> None)"

definition try_chan ::
  "('a sst_scheme \<Rightarrow> bool) \<Rightarrow> ('a sst_scheme \<Rightarrow> 'a sst_scheme) \<Rightarrow> ('x, 'a, gerr option) sprog"
where
  "try_chan room put = atom (\<lambda>e s.
     case e of
       Closing \<Rightarrow> if closing s then Some (s, Some (Sentinel ErrClosed)) else None
     | Chan \<Rightarrow> if room s then Some (put s, None) else None
     | Dflt \<Rightarrow> if \<not> closing s \<and> \<not> room s then Some (s, Some (Sentinel ErrWouldBlock)) else None
     | _ \<Rightarrow> None)"

abbreviation slot_room :: "'a sst_scheme \<Rightarrow> bool" where
  "slot_room s \<equiv> slots s < int (wqueue s) + 1"

abbreviation slot_put :: "'a sst_scheme \<Rightarrow> 'a sst_scheme" where
  "slot_put s \<equiv> s\<lparr>slots := slots s + 1\<rparr>"

abbreviation enc_room :: "'a sst_scheme \<Rightarrow> bool" where
  "enc_room s \<equiv> encs s < 1"

abbreviation enc_put :: "'a sst_scheme \<Rightarrow> 'a sst_scheme" where
  "enc_put s \<equiv> s\<lparr>encs := encs s + 1\<rparr>"

definition release_slot :: "('x, 'a, unit) sprog" where
  "release_slot = atom (\<lambda>e s.
     Some (if slots s > 0 then s\<lparr>slots := slots s - 1\<rparr> else s\<lparr>fault := True\<rparr>, ()))"

definition release_enc :: "('x, 'a, unit) sprog" where
  "release_enc = atom (\<lambda>e s.
     Some (if encs s > 0 then s\<lparr>encs := encs s - 1\<rparr> else s\<lparr>fault := True\<rparr>, ()))"

text \<open>
  The session's byte quota. Waiting for room is an action that cannot happen yet; how waiters are woken is
  the subject of \<open>Quota\<close>. The Engine's quota is outside the session: it grants or refuses.
\<close>

definition acquire_local :: "nat \<Rightarrow> int \<Rightarrow> ('x, 'a, gerr option) sprog" where
  "acquire_local c n = atom (\<lambda>e s.
     case acquireLocal (quota s) n of
       (Acquired, q) \<Rightarrow> Some (s\<lparr>quota := q\<rparr>, None)
     | (Refused err, q) \<Rightarrow> Some (s\<lparr>quota := q\<rparr>, Some err)
     | (Blocked ch, q) \<Rightarrow>
         (case e of
            CtxDone \<Rightarrow> map_option (\<lambda>x. (s\<lparr>quota := q\<rparr>, Some (fst x))) (ctxs s c)
          | Closing \<Rightarrow> if closing s then Some (s\<lparr>quota := q\<rparr>, Some (Sentinel ErrClosed)) else None
          | _ \<Rightarrow> None))"

definition try_local :: "int \<Rightarrow> ('x, 'a, gerr option) sprog" where
  "try_local n = atom (\<lambda>e s. case tryAcquireLocal (quota s) n of (r, q) \<Rightarrow> Some (s\<lparr>quota := q\<rparr>, r))"

definition parent_acquire :: "('x, 'a, gerr option) sprog" where
  "parent_acquire = atom (\<lambda>e s. case e of Ok \<Rightarrow> Some (s, None) | Fail err \<Rightarrow> Some (s, Some err) | _ \<Rightarrow> None)"

definition release_local :: "int \<Rightarrow> ('x, 'a, unit) sprog" where
  "release_local n = atom (\<lambda>e s. Some (s\<lparr>quota := releaseLocal (quota s) n\<rparr>, ()))"

definition quota_acquire :: "nat \<Rightarrow> int \<Rightarrow> ('x, 'a, gerr option) sprog" where
  "quota_acquire c n =
     bind (acquire_local c n) (\<lambda>r. case r of
       Some err \<Rightarrow> Ret (Some err)
     | None \<Rightarrow> bind parent_acquire (\<lambda>r. case r of
         Some err \<Rightarrow> seq (release_local n) (Ret (Some err))
       | None \<Rightarrow> Ret None))"

definition quota_try :: "int \<Rightarrow> ('x, 'a, gerr option) sprog" where
  "quota_try n =
     bind (try_local n) (\<lambda>r. case r of
       Some err \<Rightarrow> Ret (Some err)
     | None \<Rightarrow> bind parent_acquire (\<lambda>r. case r of
         Some err \<Rightarrow> seq (release_local n) (Ret (Some err))
       | None \<Rightarrow> Ret None))"

text \<open>Putting a request into the queue, waiting for its acknowledgement and polling it.\<close>

datatype qres = QCtx gerr | QClosing | QSent nat | QFull

definition put_queue :: "outbound \<Rightarrow> 'a sst_scheme \<Rightarrow> 'a sst_scheme" where
  "put_queue o1 s =
     (let o2 = o1\<lparr>rid := length (enq s)\<rparr> in
      s\<lparr>queue := queue s @ [o2], enq := enq s @ [o2], acks := acks s @ [AckEmpty]\<rparr>)"

definition enqueue :: "nat \<Rightarrow> outbound \<Rightarrow> ('x, 'a, qres) sprog" where
  "enqueue c o1 = atom (\<lambda>e s.
     case e of
       CtxDone \<Rightarrow> map_option (\<lambda>x. (s, QCtx (snd x))) (ctxs s c)
     | Closing \<Rightarrow> if closing s then Some (s, QClosing) else None
     | Chan \<Rightarrow> if length (queue s) < wqueue s then Some (put_queue o1 s, QSent (length (enq s))) else None
     | _ \<Rightarrow> None)"

definition try_enqueue :: "outbound \<Rightarrow> ('x, 'a, qres) sprog" where
  "try_enqueue o1 = atom (\<lambda>e s.
     case e of
       Closing \<Rightarrow> if closing s then Some (s, QClosing) else None
     | Chan \<Rightarrow> if length (queue s) < wqueue s then Some (put_queue o1 s, QSent (length (enq s))) else None
     | Dflt \<Rightarrow> if \<not> closing s \<and> \<not> length (queue s) < wqueue s then Some (s, QFull) else None
     | _ \<Rightarrow> None)"

datatype ares = AVal "gerr option" | ACtx gerr | AClosing

definition take_ack :: "nat \<Rightarrow> 'a sst_scheme \<Rightarrow> ('a sst_scheme \<times> gerr option) option" where
  "take_ack r s =
     (if r < length (acks s) then
        case acks s ! r of
          AckFull v \<Rightarrow> Some (s\<lparr>acks := (acks s)[r := AckTaken v]\<rparr>, v)
        | _ \<Rightarrow> None
      else None)"

definition await_ack :: "nat \<Rightarrow> nat \<Rightarrow> ('x, 'a, ares) sprog" where
  "await_ack c r = atom (\<lambda>e s.
     case e of
       CtxDone \<Rightarrow> map_option (\<lambda>x. (s, ACtx (snd x))) (ctxs s c)
     | Closing \<Rightarrow> if closing s then Some (s, AClosing) else None
     | Chan \<Rightarrow> map_option (map_prod id AVal) (take_ack r s)
     | _ \<Rightarrow> None)"

definition poll_ack :: "nat \<Rightarrow> ('x, 'a, gerr option option) sprog" where
  "poll_ack r = atom (\<lambda>e s.
     case take_ack r s of Some (s', v) \<Rightarrow> Some (s', Some v) | None \<Rightarrow> Some (s, None))"

text \<open>
  The writer's side of the queue and of the acknowledgements. A request without an \<^verbatim>\<open>ack\<close> channel has its
  outcome recorded all the same; nobody reads it.
\<close>

definition pop_queue :: "outbound \<Rightarrow> outbound list \<Rightarrow> writer_mode \<Rightarrow> 'a sst_scheme \<Rightarrow> 'a sst_scheme" where
  "pop_queue o1 q m s = s\<lparr>queue := q, taken := taken s @ [rid o1], wmode := m\<rparr>"

definition send_ack :: "outbound \<Rightarrow> gerr option \<Rightarrow> ('x, 'a, unit) sprog" where
  "send_ack o1 v = atom (\<lambda>e s.
     Some (if rid o1 < length (acks s) \<and> acks s ! rid o1 = AckEmpty
           then s\<lparr>acks := (acks s)[rid o1 := AckFull v]\<rparr> else s\<lparr>fault := True\<rparr>, ()))"

text \<open>The outcomes of the writer's \<^verbatim>\<open>select\<close>s; \<open>sig\<close> is the channel that asks it to drain.\<close>

datatype wres = WClosing | WDrain | WReq outbound | WGateDone | WEmpty

definition select_running :: "('a sst_scheme \<Rightarrow> bool) \<Rightarrow> ('x, 'a, wres) sprog" where
  "select_running sig = atom (\<lambda>e s.
     case e of
       Closing \<Rightarrow> if closing s then Some (s\<lparr>wmode := WStopped\<rparr>, WClosing) else None
     | Sig \<Rightarrow> if sig s then Some (s, WDrain) else None
     | Chan \<Rightarrow> (case queue s of [] \<Rightarrow> None | o1 # q \<Rightarrow> Some (pop_queue o1 q (WBusy (rid o1)) s, WReq o1))
     | _ \<Rightarrow> None)"

definition select_graceful :: "('x, 'a, wres) sprog" where
  "select_graceful = atom (\<lambda>e s.
     case e of
       Closing \<Rightarrow> if closing s then Some (s\<lparr>wmode := WStopped\<rparr>, WClosing) else None
     | Sig \<Rightarrow> if gdrained (gate s) then Some (s\<lparr>wmode := WDraining\<rparr>, WGateDone) else None
     | Chan \<Rightarrow> (case queue s of [] \<Rightarrow> None | o1 # q \<Rightarrow> Some (pop_queue o1 q (WBusy (rid o1)) s, WReq o1))
     | _ \<Rightarrow> None)"

definition select_drain :: "('x, 'a, wres) sprog" where
  "select_drain = atom (\<lambda>e s.
     case queue s of
       o1 # q \<Rightarrow> Some (pop_queue o1 q (WDrainBusy (rid o1)) s, WReq o1)
     | [] \<Rightarrow> Some (s\<lparr>wmode := WStopped, flushed := True\<rparr>, WEmpty))"

definition wait_gate :: "('x, 'a, unit) sprog" where
  "wait_gate = atom (\<lambda>e s. if gdrained (gate s) then Some (s\<lparr>wmode := WFailing\<rparr>, ()) else None)"

definition select_fail :: "('x, 'a, outbound option) sprog" where
  "select_fail = atom (\<lambda>e s.
     case queue s of
       o1 # q \<Rightarrow> Some (pop_queue o1 q WFailing s, Some o1)
     | [] \<Rightarrow> Some (s\<lparr>wmode := WEnd\<rparr>, None))"

text \<open>
  One write on the connection: \<open>f\<close> gives its result from what the connection returned, and \<open>ok\<close> whether
  that is success, which records the request as written.
\<close>

definition do_write :: "('x \<Rightarrow> 'r option) \<Rightarrow> ('r \<Rightarrow> bool) \<Rightarrow> bool \<Rightarrow> outbound \<Rightarrow> ('x, 'a, 'r) sprog" where
  "do_write f ok dr o1 = atom (\<lambda>e s.
     case e of
       Io x \<Rightarrow> map_option (\<lambda>r.
         (if ok r then s\<lparr>written := written s @ [rid o1], wmode := (if dr then WDraining else WIdle)\<rparr>
          else s\<lparr>wmode := WStopped\<rparr>, r)) (f x)
     | _ \<Rightarrow> None)"

text \<open>
  \<^verbatim>\<open>closeOnce.Do\<close>: the first caller runs the body; a later one waits until it has. The packet session
  stores its terminal error \<open>err\<close> there.
\<close>

definition close_begin :: "gerr option \<Rightarrow> ('x, 'a, bool) sprog" where
  "close_begin err = atom (\<lambda>e s.
     if \<not> closeOnce s then
       Some (s\<lparr>closeOnce := True, cerr := (case err of None \<Rightarrow> cerr s | Some x \<Rightarrow> Some x)\<rparr>, True)
     else if closing s then Some (s, False) else None)"

definition close_closing :: "('x, 'a, unit) sprog" where
  "close_closing = atom (\<lambda>e s. Some (if closing s then s\<lparr>fault := True\<rparr> else s\<lparr>closing := True\<rparr>, ()))"

text \<open>\<^verbatim>\<open>loops.Done()\<close>; \<^verbatim>\<open>loops.Wait()\<close> followed by \<^verbatim>\<open>finalOnce.Do\<close>; closing \<^verbatim>\<open>done\<close> in it.\<close>

definition loop_done :: "loop \<Rightarrow> ('x, 'a, unit) sprog" where
  "loop_done x = atom (\<lambda>e s. Some (s\<lparr>loops := (loops s)(x := False)\<rparr>, ()))"

definition final_begin :: "('x, 'a, bool) sprog" where
  "final_begin = atom (\<lambda>e s.
     if list_ex (loops s) [WriterLoop, ReaderLoop, ActivityLoop, PingLoop] then None
     else if finalOnce s then Some (s, False) else Some (s\<lparr>finalOnce := True\<rparr>, True))"

definition close_done :: "('x, 'a, unit) sprog" where
  "close_done = atom (\<lambda>e s. Some (if sdone s then s\<lparr>fault := True\<rparr> else s\<lparr>sdone := True\<rparr>, ()))"

text \<open>\<^verbatim>\<open>life.abortWith\<close>: the winner stores the terminal error inside the lifecycle's mutex.\<close>

definition abort_with :: "abortReason \<Rightarrow> gerr option \<Rightarrow> ('x, 'a, bool) sprog" where
  "abort_with reason err = atom (\<lambda>e s.
     case life_abort (slife s) reason of
       (won, l) \<Rightarrow> Some (if won then s\<lparr>slife := l, cerr := err\<rparr> else s, won))"

text \<open>An update of the lifecycle, with its result.\<close>

definition life_op :: "(sessionLifecycle \<Rightarrow> 'r \<times> sessionLifecycle) \<Rightarrow> ('x, 'a, 'r) sprog" where
  "life_op f = atom (\<lambda>e s. case f (slife s) of (r, l) \<Rightarrow> Some (s\<lparr>slife := l\<rparr>, r))"

definition markWriterDrained :: "('x, 'a, unit) sprog" where
  "markWriterDrained = atom (\<lambda>e s. Some (s\<lparr>writerDrained := True\<rparr>, ()))"

section \<open>Resources and the invariant\<close>

datatype res = Slot | Enc | Bytes | Inside | Ack nat | Wrote nat | Mode writer_mode | Closer | Finalizer | Ended
  | Flushed | Settled | WriteSig

text \<open>
  The last three are knowledge: the queue was flushed; the session's end is decided, because it was
  aborted or its write side is closed; the write side is closed.
\<close>

fun known :: "res \<Rightarrow> bool" where
  "known Flushed = True"
| "known Settled = True"
| "known WriteSig = True"
| "known _ = False"

definition settled :: "sessionLifecycle \<Rightarrow> bool" where
  "settled x \<longleftrightarrow> why x \<noteq> abortNone \<or> signalled x writeCh"

definition load :: "outbound list \<Rightarrow> int" where
  "load q = sum_list (map obytes q)"

text \<open>A request that was taken from the queue and has no outcome yet.\<close>

definition pending :: "'a sst_scheme \<Rightarrow> nat \<Rightarrow> bool" where
  "pending s r \<longleftrightarrow> r < length (acks s) \<and> acks s ! r = AckEmpty \<and> r \<notin> rid ` set (queue s)"

fun own :: "'a sst_scheme \<Rightarrow> res holding" where
  "own s Slot = slots s - int (length (queue s))"
| "own s Enc = encs s"
| "own s Bytes = qused (quota s) - load (queue s)"
| "own s Inside = gactive (gate s)"
| "own s (Ack r) = of_bool (pending s r \<and> r \<notin> set (written s))"
| "own s (Wrote r) = of_bool (pending s r \<and> r \<in> set (written s))"
| "own s (Mode m) = of_bool (wmode s = m \<and> m \<noteq> WEnd)"
| "own s Closer = of_bool (closeOnce s \<and> \<not> closing s)"
| "own s Finalizer = of_bool (finalOnce s \<and> \<not> sdone s)"
| "own s Ended = of_bool (wmode s = WEnd \<and> loops s WriterLoop)"
| "own s Flushed = of_bool (flushed s)"
| "own s Settled = of_bool (settled (slife s))"
| "own s WriteSig = of_bool (signalled (slife s) writeCh)"

definition quota_wf :: "byteQuota \<Rightarrow> bool" where
  "quota_wf q \<longleftrightarrow> 0 \<le> qused q \<and> qused q \<le> qlimit q \<and> 2 * qlimit q \<le> max_int64"

definition gate_wf :: "sendGate \<Rightarrow> bool" where
  "gate_wf g \<longleftrightarrow> 0 \<le> gactive g \<and> (gdrained g \<longleftrightarrow> gclosed g \<and> gactive g = 0)"

definition ids_wf :: "'a sst_scheme \<Rightarrow> bool" where
  "ids_wf s \<longleftrightarrow> taken s @ map rid (queue s) = [0..<length (enq s)] \<and> length (acks s) = length (enq s)
     \<and> (\<forall>o1 \<in> set (queue s). enq s ! rid o1 = o1 \<and> acks s ! rid o1 = AckEmpty) \<and> prefix (written s) (taken s)
     \<and> length (queue s) \<le> wqueue s"

text \<open>An outcome is nil exactly for a request that was completely written.\<close>

definition acks_wf :: "'a sst_scheme \<Rightarrow> bool" where
  "acks_wf s \<longleftrightarrow> (\<forall>r v. r < length (acks s) \<longrightarrow> acks s ! r = AckFull v \<or> acks s ! r = AckTaken v \<longrightarrow>
     (v = None \<longleftrightarrow> r \<in> set (written s)))"

definition mode_wf :: "'a sst_scheme \<Rightarrow> bool" where
  "mode_wf s \<longleftrightarrow>
     (case wmode s of
        WIdle \<Rightarrow> written s = taken s
      | WBusy r \<Rightarrow> taken s = written s @ [r]
      | WDraining \<Rightarrow> written s = taken s \<and> gdrained (gate s)
      | WDrainBusy r \<Rightarrow> taken s = written s @ [r] \<and> gdrained (gate s)
      | WStopped \<Rightarrow> True
      | WFailing \<Rightarrow> gdrained (gate s)
      | WEnd \<Rightarrow> gdrained (gate s) \<and> queue s = [])
     \<and> (flushed s \<longrightarrow> gdrained (gate s) \<and> queue s = [] \<and> written s = taken s)
     \<and> (wmode s \<noteq> WEnd \<longrightarrow> loops s WriterLoop)"

text \<open>
  \<open>lf\<close> tells whether the session stores its terminal error under the lifecycle (stream, WebSocket) or
  in \<^verbatim>\<open>closeOnce\<close> (packet). In the first case its write side is closed only by an abort or after the queue
  was flushed. \<open>good\<close> is what a session guarantees of its requests.
\<close>

definition life_wf :: "bool \<Rightarrow> sessionLifecycle \<Rightarrow> bool" where
  "life_wf fl x \<longleftrightarrow> (goal x = closeGoalAbort \<longrightarrow> why x \<noteq> abortNone) \<and> (terminal x \<longrightarrow> signalled x writeCh) \<and> (signalled x termCh \<longrightarrow> terminal x)
     \<and> (signalled x abortCh \<longrightarrow> why x \<noteq> abortNone) \<and> (signalled x writeCh \<longrightarrow> why x = abortNone \<longrightarrow> fl)"

definition close_wf :: "bool \<Rightarrow> 'a sst_scheme \<Rightarrow> bool" where
  "close_wf lf s \<longleftrightarrow> (closing s \<longrightarrow> closeOnce s) \<and> (sdone s \<longrightarrow> finalOnce s)
     \<and> (finalOnce s \<longrightarrow> \<not> loops s WriterLoop)
     \<and> (cerr s \<noteq> None \<longrightarrow> (if lf then goal (slife s) = closeGoalAbort else closeOnce s))
     \<and> (lf \<longrightarrow> life_wf (flushed s) (slife s) \<and> (closeOnce s \<or> sdone s \<longrightarrow> settled (slife s)))"

definition swf :: "bool \<Rightarrow> (outbound \<Rightarrow> bool) \<Rightarrow> 'a sst_scheme \<Rightarrow> bool" where
  "swf lf good s \<longleftrightarrow> quota_wf (quota s) \<and> gate_wf (gate s) \<and> ids_wf s \<and> acks_wf s \<and> mode_wf s
     \<and> close_wf lf s \<and> slots s \<le> int (wqueue s) + 1 \<and> encs s \<le> 1
     \<and> (\<forall>o1 \<in> set (enq s). good o1) \<and> \<not> fault s"

text \<open>What no action undoes: the close flags, the first terminal error, and the history.\<close>

definition keeps :: "'a sst_scheme \<Rightarrow> 'a sst_scheme \<Rightarrow> bool" where
  "keeps s s' \<longleftrightarrow> (closing s \<longrightarrow> closing s') \<and> (cerr s \<noteq> None \<longrightarrow> cerr s' = cerr s)
     \<and> prefix (enq s) (enq s') \<and> prefix (written s) (written s') \<and> (flushed s \<longrightarrow> flushed s')
     \<and> (settled (slife s) \<longrightarrow> settled (slife s')) \<and> (signalled (slife s) writeCh \<longrightarrow> signalled (slife s') writeCh)"

abbreviation wps ::
  "bool \<Rightarrow> (outbound \<Rightarrow> bool) \<Rightarrow> ('r \<Rightarrow> res holding \<Rightarrow> bool) \<Rightarrow> ('x, 'a, 'r) sprog \<Rightarrow> res holding \<Rightarrow> bool"
where
  "wps lf good \<equiv> wp (swf lf good) keeps known own"

section \<open>Rules of the actions\<close>

lemma all_res: "(\<forall>k. P k) \<longleftrightarrow> P Slot \<and> P Enc \<and> P Bytes \<and> P Inside \<and> (\<forall>r. P (Ack r)) \<and> (\<forall>r. P (Wrote r))
     \<and> (\<forall>m. P (Mode m)) \<and> P Closer \<and> P Finalizer \<and> P Ended
     \<and> P Flushed \<and> P Settled \<and> P WriteSig"
proof (intro iffI allI)
  fix k
  assume "P Slot \<and> P Enc \<and> P Bytes \<and> P Inside \<and> (\<forall>r. P (Ack r)) \<and> (\<forall>r. P (Wrote r))
     \<and> (\<forall>m. P (Mode m)) \<and> P Closer \<and> P Finalizer \<and> P Ended \<and> P Flushed \<and> P Settled \<and> P WriteSig"
  then show "P k" by (cases k) simp_all
qed simp

lemmas moved_res = moved_def all_res [of "\<lambda>k. 0 \<le> h' k \<and> own s' k - own s k = h' k - h k" for h h' s s']

lemma holdsD:
  assumes "holds own s h"
  shows "0 \<le> h k" "h k \<le> own s k"
  using assms by (auto simp: holds_def)

lemma own_frame:
  assumes "slots s' = slots s" "encs s' = encs s" "quota s' = quota s" "gate s' = gate s" "queue s' = queue s"
    "acks s' = acks s" "written s' = written s" "wmode s' = wmode s" "closeOnce s' = closeOnce s"
    "closing s' = closing s" "finalOnce s' = finalOnce s" "sdone s' = sdone s" "loops s' = loops s"
    "flushed s' = flushed s" "slife s' = slife s"
  shows "own s' = own s"
proof
  show "own s' k = own s k" for k using assms by (cases k) (simp_all add: pending_def)
qed

lemma swf_frame:
  assumes "swf l g s" and "quota s' = quota s" "gate s' = gate s" "queue s' = queue s" "acks s' = acks s"
    "written s' = written s" "wmode s' = wmode s" "slots s' = slots s" "encs s' = encs s" "enq s' = enq s"
    "taken s' = taken s" "wqueue s' = wqueue s" "flushed s' = flushed s" "loops s' = loops s" "fault s' = fault s" "close_wf l s'"
  shows "swf l g s'"
  using assms by (simp add: swf_def ids_wf_def acks_wf_def mode_wf_def cong: writer_mode.case_cong)

text \<open>Actions outside the send path.\<close>

lemma wp_frame:
  assumes "\<And>e s s' r. swf l g s \<Longrightarrow> f e s = Some (s', r) \<Longrightarrow>
     slots s' = slots s \<and> encs s' = encs s \<and> quota s' = quota s \<and> gate s' = gate s \<and> queue s' = queue s
     \<and> acks s' = acks s \<and> written s' = written s \<and> wmode s' = wmode s \<and> closeOnce s' = closeOnce s
     \<and> closing s' = closing s \<and> finalOnce s' = finalOnce s \<and> sdone s' = sdone s \<and> enq s' = enq s
     \<and> taken s' = taken s \<and> wqueue s' = wqueue s \<and> flushed s' = flushed s \<and> loops s' = loops s \<and> fault s' = fault s
     \<and> cerr s' = cerr s \<and> slife s' = slife s"
    and "\<And>e s s' r. f e s = Some (s', r) \<Longrightarrow> Q r h"
  shows "wps l g Q (atom f) h"
proof (rule wp_atom_frame)
  fix e s s' r
  assume a: "swf l g s" "holds own s h" "f e s = Some (s', r)"
  note f = assms(1) [OF a(1,3)]
  from a(1) have "close_wf l s" by (simp add: swf_def)
  with f have "close_wf l s'" by (auto simp: close_wf_def)
  with f a(1) have "swf l g s'" by (intro swf_frame [of l g s s']) simp_all
  moreover have "own s' = own s" using f by (intro own_frame) simp_all
  moreover have "keeps s s'" using f by (simp add: keeps_def)
  ultimately show "swf l g s' \<and> keeps s s' \<and> own s' = own s \<and> Q r h" using assms(2) [OF a(3)] by simp
qed

lemma wp_ctx_cause: "(\<And>r. Q r h) \<Longrightarrow> wps l g Q (ctx_cause c) h"
  unfolding ctx_cause_def by (rule wp_frame) auto

lemma wp_cancel_ctx: "Q () h \<Longrightarrow> wps l g Q (cancel_ctx c err cause) h"
  unfolding cancel_ctx_def by (rule wp_frame) (auto split: if_splits)

lemma wp_isClosing: "(\<And>r. Q r h) \<Longrightarrow> wps l g Q isClosing h"
  unfolding isClosing_def by (rule wp_frame) auto

lemma wp_get_err: "(\<And>r. Q r h) \<Longrightarrow> wps l g Q get_err h"
  unfolding get_err_def by (rule wp_frame) auto

lemma wp_bump: "Q () h \<Longrightarrow> wps l g Q (bump c n) h"
  unfolding bump_def by (rule wp_frame) auto

lemma wp_call_out: "Q () h \<Longrightarrow> wps l g Q (call_out x) h"
  unfolding call_out_def by (rule wp_frame) auto

lemma wp_markWriterDrained: "Q () h \<Longrightarrow> wps l g Q markWriterDrained h"
  unfolding markWriterDrained_def by (rule wp_frame) auto

lemma wp_parent_acquire: "(\<And>r. Q r h) \<Longrightarrow> wps l g Q parent_acquire h"
  unfolding parent_acquire_def by (rule wp_frame) (auto split: ev.splits)

text \<open>The gate.\<close>

lemma swf_gate:
  assumes "swf l g s" and "gate_wf x" and "gdrained (gate s) \<longrightarrow> gdrained x"
  shows "swf l g (s\<lparr>gate := x\<rparr>)"
  using assms
  by (auto simp: swf_def ids_wf_def acks_wf_def mode_wf_def close_wf_def split: writer_mode.splits)

lemma own_gate: "own (s\<lparr>gate := x\<rparr>) = (own s)(Inside := gactive x)"
proof
  show "own (s\<lparr>gate := x\<rparr>) k = ((own s)(Inside := gactive x)) k" for k by (cases k) (simp_all add: pending_def)
qed

lemma moved_one:
  assumes "holds own s h" and "own s' = (own s)(k := v)" and "0 \<le> h k + v - own s k"
  shows "moved own s s' h (add k (v - own s k) h)"
  using assms by (auto simp: moved_def holds_def)

lemma keeps_same: "closing s' = closing s \<Longrightarrow> cerr s' = cerr s \<Longrightarrow> enq s' = enq s \<Longrightarrow> written s' = written s \<Longrightarrow>
    flushed s' = flushed s \<Longrightarrow> slife s' = slife s \<Longrightarrow> keeps s s'"
  by (simp add: keeps_def)

lemma wp_enter:
  assumes "Q True (add Inside 1 h)" and "Q False h"
  shows "wps l g Q enter h"
  unfolding enter_def
proof (rule wp_atom)
  fix e s s' r
  assume a: "swf l g s" "holds own s h"
    "(case gate_enter (gate s) of (ok, g) \<Rightarrow> Some (s\<lparr>gate := g\<rparr>, ok)) = Some (s', r)"
  show "swf l g s' \<and> keeps s s' \<and> (\<exists>h'. moved own s s' h h' \<and> Q r h')"
  proof (cases "gclosed (gate s)")
    case True
    then have "s' = s" "r = False" using a(3) by (auto simp: gate_enter_def)
    with a assms(2) show ?thesis by (auto simp: keeps_def moved_def holds_def)
  next
    case False
    let ?g = "(gate s)\<lparr>gactive := gactive (gate s) + 1\<rparr>"
    have s': "s' = s\<lparr>gate := ?g\<rparr>" "r = True" using a(3) False by (auto simp: gate_enter_def)
    have "gate_wf (gate s)" using a(1) by (simp add: swf_def)
    then have "gate_wf ?g" "gdrained (gate s) \<longrightarrow> gdrained ?g" using False by (auto simp: gate_wf_def)
    then have "swf l g s'" using s' a(1) by (simp add: swf_gate)
    moreover have "moved own s s' h (add Inside 1 h)"
      using moved_one [OF a(2), of s' Inside "gactive ?g"] holdsD(1) [OF a(2), of Inside] s' by (simp add: own_gate)
    ultimately show ?thesis using assms(1) s' by (auto simp: keeps_def)
  qed
qed

lemma gate_leave_ok:
  assumes "gate_wf x" and "1 \<le> gactive x"
  shows "\<exists>y. gate_leave x = Some y \<and> gate_wf y \<and> gactive y = gactive x - 1 \<and> (gdrained x \<longrightarrow> gdrained y)"
  using assms by (auto simp: gate_leave_def close_drained_def gate_wf_def Let_def)

lemma gate_close_ok:
  assumes "gate_wf x"
  shows "\<exists>y. gate_close x = Some y \<and> gate_wf y \<and> gactive y = gactive x \<and> (gdrained x \<longrightarrow> gdrained y)"
  using assms by (auto simp: gate_close_def close_drained_def gate_wf_def Let_def)

lemma wp_leave:
  assumes "1 \<le> h Inside" and "Q () (add Inside (-1) h)"
  shows "wps l g Q leave h"
  unfolding leave_def
proof (rule wp_atom)
  fix e s s' r
  assume a: "swf l g s" "holds own s h"
    "(case gate_leave (gate s) of Some g \<Rightarrow> Some (s\<lparr>gate := g\<rparr>, ()) | None \<Rightarrow> Some (s\<lparr>fault := True\<rparr>, ())) = Some (s', r)"
  have "1 \<le> gactive (gate s)" using holdsD(2) [OF a(2), of Inside] assms(1) by simp
  then obtain y where y: "gate_leave (gate s) = Some y" "gate_wf y" "gactive y = gactive (gate s) - 1"
      "gdrained (gate s) \<longrightarrow> gdrained y"
    using gate_leave_ok [of "gate s"] a(1) by (auto simp: swf_def)
  then have s': "s' = s\<lparr>gate := y\<rparr>" using a(3) by simp
  have "moved own s s' h (add Inside (-1) h)"
    using moved_one [OF a(2), of s' Inside "gactive y"] assms(1) s' y(3) by (simp add: own_gate)
  with y s' a(1) assms(2) show "swf l g s' \<and> keeps s s' \<and> (\<exists>h'. moved own s s' h h' \<and> Q r h')"
    by (auto simp: swf_gate keeps_def)
qed

lemma wp_shut_gate:
  assumes "Q () h"
  shows "wps l g Q shut_gate h"
  unfolding shut_gate_def
proof (rule wp_atom)
  fix e s s' r
  assume a: "swf l g s" "holds own s h"
    "(case gate_close (gate s) of Some g \<Rightarrow> Some (s\<lparr>gate := g\<rparr>, ()) | None \<Rightarrow> Some (s\<lparr>fault := True\<rparr>, ())) = Some (s', r)"
  obtain y where y: "gate_close (gate s) = Some y" "gate_wf y" "gactive y = gactive (gate s)"
      "gdrained (gate s) \<longrightarrow> gdrained y"
    using gate_close_ok [of "gate s"] a(1) by (auto simp: swf_def)
  then have s': "s' = s\<lparr>gate := y\<rparr>" using a(3) by simp
  have "moved own s s' h h"
    using a(2) s' y(3) by (auto simp: moved_def holds_def own_gate)
  with y s' a(1) assms show "swf l g s' \<and> keeps s s' \<and> (\<exists>h'. moved own s s' h h' \<and> Q r h')"
    by (auto simp: swf_gate keeps_def)
qed

text \<open>The slot channels.\<close>

lemma swf_slots: "swf l g s \<Longrightarrow> v \<le> int (wqueue s) + 1 \<Longrightarrow> swf l g (s\<lparr>slots := v\<rparr>)"
  by (simp add: swf_def ids_wf_def acks_wf_def mode_wf_def close_wf_def cong: writer_mode.case_cong)

lemma swf_encs: "swf l g s \<Longrightarrow> v \<le> 1 \<Longrightarrow> swf l g (s\<lparr>encs := v\<rparr>)"
  by (simp add: swf_def ids_wf_def acks_wf_def mode_wf_def close_wf_def cong: writer_mode.case_cong)

lemma own_slots: "own (s\<lparr>slots := v\<rparr>) = (own s)(Slot := v - int (length (queue s)))"
proof
  show "own (s\<lparr>slots := v\<rparr>) k = ((own s)(Slot := v - int (length (queue s)))) k" for k
    by (cases k) (simp_all add: pending_def)
qed

lemma own_encs: "own (s\<lparr>encs := v\<rparr>) = (own s)(Enc := v)"
proof
  show "own (s\<lparr>encs := v\<rparr>) k = ((own s)(Enc := v)) k" for k by (cases k) (simp_all add: pending_def)
qed

lemma moved_refl: "holds own s h \<Longrightarrow> moved own s s h h"
  by (simp add: moved_def holds_def)

lemma keeps_refl: "keeps s s"
  by (simp add: keeps_def)

text \<open>Taking from a channel: an error leaves the state as it is.\<close>

lemma wp_acquire_chan:
  assumes put: "\<And>s. swf l g s \<Longrightarrow> holds own s h \<Longrightarrow> room s \<Longrightarrow>
      swf l g (put s) \<and> keeps s (put s) \<and> moved own s (put s) h h'"
    and Q: "Q None h'" "\<And>err. Q (Some err) h"
  shows "wps l g Q (acquire_chan room put c) h" "wps l g Q (try_chan room put) h"
proof -
  have end_: "swf l g s' \<and> keeps s s' \<and> (\<exists>h'. moved own s s' h h' \<and> Q r h')"
    if "swf l g s" "holds own s h" "s' = s \<and> r \<noteq> None \<or> room s \<and> s' = put s \<and> r = None" for s s' r
    using that put [of s] Q moved_refl [of s h] keeps_refl [of s] by (cases r) auto
  show "wps l g Q (acquire_chan room put c) h"
    unfolding acquire_chan_def by (rule wp_atom, rule end_) (auto split: ev.splits if_splits)
  show "wps l g Q (try_chan room put) h"
    unfolding try_chan_def by (rule wp_atom, rule end_) (auto split: ev.splits if_splits)
qed

lemma slot_put_ok:
  assumes "swf l g s" "holds own s h" "slot_room s"
  shows "swf l g (slot_put s) \<and> keeps s (slot_put s) \<and> moved own s (slot_put s) h (add Slot 1 h)"
  using assms moved_one [OF assms(2), of "slot_put s" Slot "slots s + 1 - int (length (queue s))"]
    holdsD(1) [OF assms(2), of Slot]
  by (simp add: swf_slots own_slots keeps_same)

lemma enc_put_ok:
  assumes "swf l g s" "holds own s h" "enc_room s"
  shows "swf l g (enc_put s) \<and> keeps s (enc_put s) \<and> moved own s (enc_put s) h (add Enc 1 h)"
  using assms moved_one [OF assms(2), of "enc_put s" Enc "encs s + 1"] holdsD(1) [OF assms(2), of Enc]
  by (simp add: swf_encs own_encs keeps_same)

lemma wp_acquire_slot:
  assumes "Q None (add Slot 1 h)" and "\<And>err. Q (Some err) h"
  shows "wps l g Q (acquire_chan slot_room slot_put c) h" "wps l g Q (try_chan slot_room slot_put) h"
  using assms wp_acquire_chan [of l g h slot_room slot_put "add Slot 1 h" Q, OF slot_put_ok] by blast+

lemma wp_acquire_enc:
  assumes "Q None (add Enc 1 h)" and "\<And>err. Q (Some err) h"
  shows "wps l g Q (acquire_chan enc_room enc_put c) h" "wps l g Q (try_chan enc_room enc_put) h"
  using assms wp_acquire_chan [of l g h enc_room enc_put "add Enc 1 h" Q, OF enc_put_ok] by blast+

lemma wp_release_slot:
  assumes "1 \<le> h Slot" and "Q () (add Slot (-1) h)"
  shows "wps l g Q release_slot h"
  unfolding release_slot_def
proof (rule wp_atom)
  fix e s s' r
  assume a: "swf l g s" "holds own s h"
    "Some (if slots s > 0 then s\<lparr>slots := slots s - 1\<rparr> else s\<lparr>fault := True\<rparr>, ()) = Some (s', r)"
  have "slots s > 0" using holdsD(2) [OF a(2), of Slot] assms(1) by simp
  then have s': "s' = s\<lparr>slots := slots s - 1\<rparr>" using a(3) by simp
  have "slots s \<le> int (wqueue s) + 1" using a(1) by (simp add: swf_def)
  with s' a assms moved_one [OF a(2), of s' Slot "slots s - 1 - int (length (queue s))"]
  show "swf l g s' \<and> keeps s s' \<and> (\<exists>h'. moved own s s' h h' \<and> Q r h')"
    by (auto simp: swf_slots own_slots keeps_same intro!: exI [of _ "add Slot (-1) h"])
qed

lemma wp_release_enc:
  assumes "1 \<le> h Enc" and "Q () (add Enc (-1) h)"
  shows "wps l g Q release_enc h"
  unfolding release_enc_def
proof (rule wp_atom)
  fix e s s' r
  assume a: "swf l g s" "holds own s h"
    "Some (if encs s > 0 then s\<lparr>encs := encs s - 1\<rparr> else s\<lparr>fault := True\<rparr>, ()) = Some (s', r)"
  have "encs s > 0" using holdsD(2) [OF a(2), of Enc] assms(1) by simp
  then have s': "s' = s\<lparr>encs := encs s - 1\<rparr>" using a(3) by simp
  have "encs s \<le> 1" using a(1) by (simp add: swf_def)
  with s' a assms moved_one [OF a(2), of s' Enc "encs s - 1"]
  show "swf l g s' \<and> keeps s s' \<and> (\<exists>h'. moved own s s' h h' \<and> Q r h')"
    by (auto simp: swf_encs own_encs keeps_same intro!: exI [of _ "add Enc (-1) h"])
qed

text \<open>The byte quota.\<close>

lemma swf_quota: "swf l g s \<Longrightarrow> quota_wf q \<Longrightarrow> swf l g (s\<lparr>quota := q\<rparr>)"
  by (simp add: swf_def ids_wf_def acks_wf_def mode_wf_def close_wf_def cong: writer_mode.case_cong)

lemma own_quota: "own (s\<lparr>quota := q\<rparr>) = (own s)(Bytes := qused q - load (queue s))"
proof
  show "own (s\<lparr>quota := q\<rparr>) k = ((own s)(Bytes := qused q - load (queue s))) k" for k
    by (cases k) (simp_all add: pending_def)
qed

lemma moved_quota:
  assumes "swf l g s" "holds own s h" "quota_wf q" "qused q = qused (quota s) + n" "0 \<le> h Bytes + n"
  shows "swf l g (s\<lparr>quota := q\<rparr>) \<and> keeps s (s\<lparr>quota := q\<rparr>) \<and> moved own s (s\<lparr>quota := q\<rparr>) h (add Bytes n h)"
  using assms moved_one [OF assms(2), of "s\<lparr>quota := q\<rparr>" Bytes "qused q - load (queue s)"]
  by (simp add: swf_quota own_quota keeps_same)

lemma add64_small:
  assumes "quota_wf q" "0 \<le> n" "n \<le> qlimit q"
  shows "add64 (qused q) n = qused q + n"
  using assms by (intro add64_exact) (auto simp: quota_wf_def i64_def max_int64_def)

lemma quota_acquire_ok:
  assumes "quota_wf q" "0 \<le> n" "acquireLocal q n = (r, q')"
  shows "quota_wf q' \<and> qused q' = qused q + (if r = Acquired then n else 0)"
  using assms add64_small [OF assms(1,2)] by (auto simp: acquireLocal_def quota_wf_def split: if_splits)

lemma quota_try_ok:
  assumes "quota_wf q" "0 \<le> n" "tryAcquireLocal q n = (r, q')"
  shows "quota_wf q' \<and> qused q' = qused q + (if r = None then n else 0)"
  using assms add64_small [OF assms(1,2)] by (auto simp: tryAcquireLocal_def quota_wf_def split: if_splits)

lemma quota_release_ok:
  assumes "quota_wf q" "0 \<le> n" "n \<le> qused q"
  shows "quota_wf (releaseLocal q n) \<and> qused (releaseLocal q n) = qused q - n"
proof -
  have "sub64 (qused q) n = qused q - n"
    using assms by (intro sub64_exact) (auto simp: quota_wf_def i64_def max_int64_def)
  with assms show ?thesis by (auto simp: releaseLocal_def releaseUsed_def quota_wf_def Let_def)
qed

lemma wp_acquire_local:
  assumes "0 \<le> n" "Q None (add Bytes n h)" "\<And>err. Q (Some err) h"
  shows "wps l g Q (acquire_local c n) h"
  unfolding acquire_local_def
proof (rule wp_atom)
  fix e :: "'c ev" and s s' :: "'d sst_scheme" and r
  assume a: "swf l g s" "holds own s h"
    "(case acquireLocal (quota s) n of
       (Acquired, q) \<Rightarrow> Some (s\<lparr>quota := q\<rparr>, None)
     | (Refused err, q) \<Rightarrow> Some (s\<lparr>quota := q\<rparr>, Some err)
     | (Blocked ch, q) \<Rightarrow>
         (case e of
            CtxDone \<Rightarrow> map_option (\<lambda>x. (s\<lparr>quota := q\<rparr>, Some (fst x))) (ctxs s c)
          | Closing \<Rightarrow> if closing s then Some (s\<lparr>quota := q\<rparr>, Some (Sentinel ErrClosed)) else None
          | _ \<Rightarrow> None)) = Some (s', r)"
  obtain x q where x: "acquireLocal (quota s) n = (x, q)" by fastforce
  have "quota_wf (quota s)" using a(1) by (simp add: swf_def)
  then have q: "quota_wf q \<and> qused q = qused (quota s) + (if x = Acquired then n else 0)"
    using quota_acquire_ok x assms(1) by blast
  have s': "s' = s\<lparr>quota := q\<rparr>" "r = None \<longleftrightarrow> x = Acquired"
    using a(3) x by (auto split: attempt.splits ev.splits if_splits)
  have "0 \<le> h Bytes" using holdsD(1) [OF a(2)] .
  with moved_quota [OF a(1,2), of q "if x = Acquired then n else 0"] q s' assms
  show "swf l g s' \<and> keeps s s' \<and> (\<exists>h'. moved own s s' h h' \<and> Q r h')"
    by (cases r) (auto intro!: exI [of _ "if r = None then add Bytes n h else h"])
qed

lemma wp_try_local:
  assumes "0 \<le> n" "Q None (add Bytes n h)" "\<And>err. Q (Some err) h"
  shows "wps l g Q (try_local n) h"
  unfolding try_local_def
proof (rule wp_atom)
  fix e s s' r
  assume a: "swf l g s" "holds own s h"
    "(case tryAcquireLocal (quota s) n of (r, q) \<Rightarrow> Some (s\<lparr>quota := q\<rparr>, r)) = Some (s', r)"
  obtain q where x: "tryAcquireLocal (quota s) n = (r, q)" "s' = s\<lparr>quota := q\<rparr>"
    using a(3) by (auto split: prod.splits)
  have "quota_wf (quota s)" using a(1) by (simp add: swf_def)
  then have q: "quota_wf q \<and> qused q = qused (quota s) + (if r = None then n else 0)"
    using quota_try_ok x(1) assms(1) by blast
  have "0 \<le> h Bytes" using holdsD(1) [OF a(2)] .
  with moved_quota [OF a(1,2), of q "if r = None then n else 0"] q x(2) assms
  show "swf l g s' \<and> keeps s s' \<and> (\<exists>h'. moved own s s' h h' \<and> Q r h')"
    by (cases r) (auto intro!: exI [of _ "if r = None then add Bytes n h else h"])
qed

lemma load_nonneg: "(\<forall>o1 \<in> set q. 0 \<le> obytes o1) \<Longrightarrow> 0 \<le> load q"
  by (auto simp: load_def intro!: sum_list_nonneg)

text \<open>The queue holds requests of the history, none of them with a negative size.\<close>

definition sized :: "(outbound \<Rightarrow> bool) \<Rightarrow> bool" where
  "sized g \<longleftrightarrow> (\<forall>o1. g o1 \<longrightarrow> 0 \<le> obytes o1)"

lemma queue_rid:
  assumes "ids_wf s" and "o1 \<in> set (queue s)"
  shows "rid o1 < length (enq s)" "rid o1 \<notin> set (taken s)"
proof -
  have "rid o1 \<in> set (taken s @ map rid (queue s))" using assms(2) by simp
  then show "rid o1 < length (enq s)" using assms(1) by (simp only: ids_wf_def) simp
  have "distinct (taken s @ map rid (queue s))" using assms(1) by (simp only: ids_wf_def) simp
  then show "rid o1 \<notin> set (taken s)" using assms(2) by auto
qed

lemma taken_lt:
  assumes "ids_wf s" and "r \<in> set (taken s)"
  shows "r < length (enq s)"
proof -
  have "r \<in> set (taken s @ map rid (queue s))" using assms(2) by simp
  moreover have "taken s @ map rid (queue s) = [0..<length (enq s)]" using assms(1) by (simp add: ids_wf_def)
  ultimately show ?thesis by (simp only: set_upt atLeastLessThan_iff)
qed

lemma queue_good:
  assumes "swf l g s" and "o1 \<in> set (queue s)"
  shows "g o1"
proof -
  have ids: "ids_wf s" using assms(1) by (simp add: swf_def)
  then have "enq s ! rid o1 = o1" using assms(2) by (simp add: ids_wf_def)
  then have "o1 \<in> set (enq s)" using queue_rid(1) [OF ids assms(2)] nth_mem by metis
  then show ?thesis using assms(1) by (simp add: swf_def)
qed

lemma queue_load: "swf l g s \<Longrightarrow> sized g \<Longrightarrow> 0 \<le> load (queue s)"
  using queue_good [of l g s] by (intro load_nonneg) (simp add: sized_def)

lemma wp_release_local:
  assumes "sized g" "0 \<le> n" "n \<le> h Bytes" "Q () (add Bytes (-n) h)"
  shows "wps l g Q (release_local n) h"
  unfolding release_local_def
proof (rule wp_atom)
  fix e s s' r
  assume a: "swf l g s" "holds own s h" "Some (s\<lparr>quota := releaseLocal (quota s) n\<rparr>, ()) = Some (s', r)"
  have "quota_wf (quota s)" using a(1) by (simp add: swf_def)
  moreover have "n \<le> qused (quota s)"
    using holdsD(2) [OF a(2), of Bytes] assms(3) queue_load [OF a(1) assms(1)] by simp
  ultimately have q: "quota_wf (releaseLocal (quota s) n) \<and> qused (releaseLocal (quota s) n) = qused (quota s) - n"
    using quota_release_ok assms(2) by blast
  with moved_quota [OF a(1,2), of "releaseLocal (quota s) n" "- n"] a(3) assms(3,4)
  show "swf l g s' \<and> keeps s s' \<and> (\<exists>h'. moved own s s' h h' \<and> Q r h')"
    by (auto intro!: exI [of _ "add Bytes (-n) h"])
qed

text \<open>The queue.\<close>

lemma put_queue_ok:
  assumes "swf l g s" and h: "holds own s h" and room: "length (queue s) < wqueue s"
    and pre: "1 \<le> h Inside" "1 \<le> h Slot" "obytes o1 \<le> h Bytes" "\<And>r. g (o1\<lparr>rid := r\<rparr>)"
  shows "swf l g (put_queue o1 s) \<and> keeps s (put_queue o1 s)
     \<and> moved own s (put_queue o1 s) h (add Slot (-1) (add Bytes (- obytes o1) h))"
proof (intro conjI)
  let ?o = "o1\<lparr>rid := length (enq s)\<rparr>" and ?s = "put_queue o1 s"
  have ids: "ids_wf s" and len: "length (acks s) = length (enq s)" using assms(1) by (simp_all add: swf_def ids_wf_def)
  have "\<not> gdrained (gate s)"
    using assms(1) pre(1) holdsD(2) [OF h, of Inside] by (auto simp: swf_def gate_wf_def)
  then have m: "mode_wf ?s"
    using assms(1) by (auto simp: swf_def mode_wf_def put_queue_def Let_def split: writer_mode.splits)
  have w: "r < length (enq s)" if "r \<in> set (written s)" for r
    using that taken_lt [OF ids] ids set_mono_prefix [of "written s" "taken s"] by (auto simp: ids_wf_def)
  have i: "ids_wf ?s"
    using ids room queue_rid(1) [OF ids] by (auto simp: ids_wf_def put_queue_def Let_def nth_append)
  have k: "acks_wf ?s"
    using assms(1) len by (auto simp: swf_def acks_wf_def put_queue_def Let_def nth_append)
  show "swf l g ?s"
    using assms(1) i k m pre(4) by (auto simp: swf_def put_queue_def Let_def close_wf_def)
  show "keeps s ?s" by (simp add: keeps_def put_queue_def Let_def)
  have "pending ?s r = pending s r" for r using len by (auto simp: pending_def put_queue_def Let_def nth_append)
  then show "moved own s ?s h (add Slot (-1) (add Bytes (- obytes o1) h))"
    using holdsD(1) [OF h] pre(2,3)
    by (auto simp: moved_res put_queue_def Let_def load_def)
qed

lemma wp_enqueue:
  assumes pre: "1 \<le> h Inside" "1 \<le> h Slot" "obytes o1 \<le> h Bytes" "\<And>r. g (o1\<lparr>rid := r\<rparr>)"
    and Q: "\<And>r. Q (QSent r) (add Slot (-1) (add Bytes (- obytes o1) h))" "Q QClosing h"
  shows "(\<And>err. Q (QCtx err) h) \<Longrightarrow> wps l g Q (enqueue c o1) h"
    and "Q QFull h \<Longrightarrow> wps l g Q (try_enqueue o1) h"
proof -
  have end_: "swf l g s' \<and> keeps s s' \<and> (\<exists>h'. moved own s s' h h' \<and> Q r h')"
    if "swf l g s" "holds own s h"
      "s' = s \<and> Q r h \<or> length (queue s) < wqueue s \<and> s' = put_queue o1 s \<and> r = QSent (length (enq s))"
    for s s' r
    using that put_queue_ok [OF that(1,2) _ pre] Q moved_refl [OF that(2)] keeps_refl [of s] by auto
  show "wps l g Q (enqueue c o1) h" if "\<And>err. Q (QCtx err) h"
    unfolding enqueue_def by (rule wp_atom, rule end_) (use that Q in \<open>auto split: ev.splits if_splits\<close>)
  show "wps l g Q (try_enqueue o1) h" if "Q QFull h"
    unfolding try_enqueue_def by (rule wp_atom, rule end_) (use that Q in \<open>auto split: ev.splits if_splits\<close>)
qed

lemma held:
  assumes "holds own s h"
  shows "1 \<le> h (Wrote r) \<Longrightarrow> pending s r \<and> r \<in> set (written s)"
    and "1 \<le> h (Ack r) \<Longrightarrow> pending s r \<and> r \<notin> set (written s)"
    and "1 \<le> h (Mode m) \<Longrightarrow> wmode s = m \<and> m \<noteq> WEnd"
    and "1 \<le> h Closer \<Longrightarrow> closeOnce s \<and> \<not> closing s"
    and "1 \<le> h Finalizer \<Longrightarrow> finalOnce s \<and> \<not> sdone s"
    and "1 \<le> h Ended \<Longrightarrow> wmode s = WEnd \<and> loops s WriterLoop"
    and "1 \<le> h Flushed \<Longrightarrow> flushed s"
    and "1 \<le> h Settled \<Longrightarrow> settled (slife s)"
    and "1 \<le> h WriteSig \<Longrightarrow> signalled (slife s) writeCh"
proof -
  have b: "1 \<le> (x :: int) \<Longrightarrow> x \<le> of_bool P \<Longrightarrow> P" for x P by (cases P) auto
  note d = holdsD(2) [OF assms]
  show "1 \<le> h (Wrote r) \<Longrightarrow> pending s r \<and> r \<in> set (written s)" using b d [of "Wrote r"] by simp
  show "1 \<le> h (Ack r) \<Longrightarrow> pending s r \<and> r \<notin> set (written s)" using b d [of "Ack r"] by simp
  show "1 \<le> h (Mode m) \<Longrightarrow> wmode s = m \<and> m \<noteq> WEnd" using b d [of "Mode m"] by simp
  show "1 \<le> h Closer \<Longrightarrow> closeOnce s \<and> \<not> closing s" using b d [of Closer] by simp
  show "1 \<le> h Finalizer \<Longrightarrow> finalOnce s \<and> \<not> sdone s" using b d [of Finalizer] by simp
  show "1 \<le> h Ended \<Longrightarrow> wmode s = WEnd \<and> loops s WriterLoop" using b d [of Ended] by simp
  show "1 \<le> h Flushed \<Longrightarrow> flushed s" using b d [of Flushed] by simp
  show "1 \<le> h Settled \<Longrightarrow> settled (slife s)" using b d [of Settled] by simp
  show "1 \<le> h WriteSig \<Longrightarrow> signalled (slife s) writeCh" using b d [of WriteSig] by simp
qed

text \<open>Acknowledgements.\<close>

lemma take_ack_ok:
  assumes "swf l g s" "take_ack r s = Some (s', v)"
  shows "swf l g s' \<and> keeps s s' \<and> own s' = own s"
proof -
  have s': "r < length (acks s)" "acks s ! r = AckFull v" "s' = s\<lparr>acks := (acks s)[r := AckTaken v]\<rparr>"
    using assms(2) by (auto simp: take_ack_def split: if_splits ackch.splits)
  have p: "pending s' x = pending s x" for x using s' by (auto simp: pending_def nth_list_update)
  have "own s' k = own s k" for k using p s' by (cases k) simp_all
  moreover have "acks_wf s'" using assms(1) s' by (auto simp: swf_def acks_wf_def nth_list_update)
  moreover have "ids_wf s'" using assms(1) s' by (auto simp: swf_def ids_wf_def nth_list_update)
  ultimately show ?thesis
    using assms(1) s'(3)
    by (auto simp: swf_def mode_wf_def close_wf_def keeps_def fun_eq_iff split: writer_mode.splits)
qed

lemma wp_await_ack:
  assumes "\<And>r. Q r h"
  shows "wps l g Q (await_ack c r) h"
  unfolding await_ack_def
  by (rule wp_atom_frame) (auto simp: assms keeps_refl take_ack_ok split: ev.splits if_splits)

lemma wp_poll_ack:
  assumes "\<And>r. Q r h"
  shows "wps l g Q (poll_ack r) h"
  unfolding poll_ack_def
  by (rule wp_atom_frame) (auto simp: assms keeps_refl take_ack_ok split: option.splits)

lemma fill_ack_ok:
  assumes "swf l g s" and p: "pending s r" and v: "v = None \<longleftrightarrow> r \<in> set (written s)"
  shows "swf l g (s\<lparr>acks := (acks s)[r := AckFull v]\<rparr>) \<and> keeps s (s\<lparr>acks := (acks s)[r := AckFull v]\<rparr>)
     \<and> own (s\<lparr>acks := (acks s)[r := AckFull v]\<rparr>) = (own s)(Ack r := 0, Wrote r := 0)"
proof (intro conjI)
  let ?s = "s\<lparr>acks := (acks s)[r := AckFull v]\<rparr>"
  have r: "r < length (acks s)" "r \<notin> rid ` set (queue s)" using p by (auto simp: pending_def)
  have "ids_wf ?s" using assms(1) r by (auto simp: swf_def ids_wf_def nth_list_update)
  moreover have "acks_wf ?s" using assms(1) r v by (auto simp: swf_def acks_wf_def nth_list_update)
  ultimately show "swf l g ?s"
    using assms(1) by (auto simp: swf_def mode_wf_def close_wf_def split: writer_mode.splits)
  show "keeps s ?s" by (simp add: keeps_def)
  have "pending ?s x = (pending s x \<and> x \<noteq> r)" for x by (cases "x = r") (auto simp: pending_def)
  then show "own ?s = (own s)(Ack r := 0, Wrote r := 0)"
    by (intro ext) (subst fun_upd_apply, rename_tac k, case_tac k, auto)
qed

lemma wp_send_ack_ok:
  assumes "1 \<le> h (Wrote (rid o1))" "Q () (add (Wrote (rid o1)) (-1) h)"
  shows "wps l g Q (send_ack o1 None) h"
  unfolding send_ack_def
proof (rule wp_atom)
  fix e s s' r
  assume a: "swf l g s" "holds own s h"
    "Some (if rid o1 < length (acks s) \<and> acks s ! rid o1 = AckEmpty
       then s\<lparr>acks := (acks s)[rid o1 := AckFull None]\<rparr> else s\<lparr>fault := True\<rparr>, ()) = Some (s', r)"
  have p: "pending s (rid o1)" "rid o1 \<in> set (written s)"
    using held(1) [OF a(2) assms(1)] by simp_all
  then have s': "s' = s\<lparr>acks := (acks s)[rid o1 := AckFull None]\<rparr>" using a(3) by (simp add: pending_def)
  have f: "swf l g s' \<and> keeps s s' \<and> own s' = (own s)(Ack (rid o1) := 0, Wrote (rid o1) := 0)"
    unfolding s' using a(1) p by (intro fill_ack_ok) simp_all
  then have "moved own s s' h (add (Wrote (rid o1)) (-1) h)"
    using p holdsD [OF a(2)] assms(1) by (auto simp: moved_def)
  with f assms(2) show "swf l g s' \<and> keeps s s' \<and> (\<exists>h'. moved own s s' h h' \<and> Q r h')" by auto
qed

lemma wp_send_ack_err:
  assumes "1 \<le> h (Ack (rid o1))" "Q () (add (Ack (rid o1)) (-1) h)" "v \<noteq> None"
  shows "wps l g Q (send_ack o1 v) h"
  unfolding send_ack_def
proof (rule wp_atom)
  fix e s s' r
  assume a: "swf l g s" "holds own s h"
    "Some (if rid o1 < length (acks s) \<and> acks s ! rid o1 = AckEmpty
       then s\<lparr>acks := (acks s)[rid o1 := AckFull v]\<rparr> else s\<lparr>fault := True\<rparr>, ()) = Some (s', r)"
  have p: "pending s (rid o1)" "rid o1 \<notin> set (written s)"
    using held(2) [OF a(2) assms(1)] by simp_all
  then have s': "s' = s\<lparr>acks := (acks s)[rid o1 := AckFull v]\<rparr>" using a(3) by (simp add: pending_def)
  have f: "swf l g s' \<and> keeps s s' \<and> own s' = (own s)(Ack (rid o1) := 0, Wrote (rid o1) := 0)"
    unfolding s' using a(1) p assms(3) by (intro fill_ack_ok) simp_all
  then have "moved own s s' h (add (Ack (rid o1)) (-1) h)"
    using p holdsD [OF a(2)] assms(1) by (auto simp: moved_def)
  with f assms(2) show "swf l g s' \<and> keeps s s' \<and> (\<exists>h'. moved own s s' h h' \<and> Q r h')" by auto
qed

text \<open>The writer.\<close>

abbreviation switch :: "writer_mode \<Rightarrow> writer_mode \<Rightarrow> res holding \<Rightarrow> res holding" where
  "switch m m' h \<equiv> add (Mode m') 1 (add (Mode m) (-1) h)"

abbreviation grab :: "outbound \<Rightarrow> res holding \<Rightarrow> res holding" where
  "grab o1 h \<equiv> add Slot 1 (add Bytes (obytes o1) (add (Ack (rid o1)) 1 h))"

lemma mode_of: "swf l g s \<Longrightarrow> mode_wf s"
  by (simp add: swf_def)

text \<open>A change of mode alone, and one with a request taken from the queue.\<close>

lemma mode_ok:
  assumes "swf l g s" "holds own s h" "1 \<le> h (Mode m)" "mode_wf (s\<lparr>wmode := m'\<rparr>)"
  shows "swf l g (s\<lparr>wmode := m'\<rparr>) \<and> keeps s (s\<lparr>wmode := m'\<rparr>)
     \<and> moved own s (s\<lparr>wmode := m'\<rparr>) h
         (if m' = WEnd then add Ended 1 (add (Mode m) (-1) h) else switch m m' h)"
proof (intro conjI)
  let ?s = "s\<lparr>wmode := m'\<rparr>"
  show "swf l g ?s" using assms(1,4) by (simp add: swf_def ids_wf_def acks_wf_def close_wf_def)
  show "keeps s ?s" by (simp add: keeps_def)
  have "wmode s = m" "m \<noteq> WEnd" using held(3) [OF assms(2,3)] by simp_all
  moreover have "pending ?s = pending s" by (auto simp: pending_def fun_eq_iff)
  moreover have "loops s WriterLoop" using mode_of [OF assms(1)] held(3) [OF assms(2,3)] by (simp add: mode_wf_def)
  ultimately show "moved own s ?s h (if m' = WEnd then add Ended 1 (add (Mode m) (-1) h) else switch m m' h)"
    using holdsD(1) [OF assms(2)] assms(3) by (auto simp: moved_res)
qed

lemma pop_ok:
  assumes "sized g" "swf l g s" and h: "holds own s h" "1 \<le> h (Mode m)" and q: "queue s = o1 # q"
    and m: "mode_wf (pop_queue o1 q m' s)" "m' \<noteq> WEnd"
  shows "swf l g (pop_queue o1 q m' s) \<and> keeps s (pop_queue o1 q m' s)
     \<and> moved own s (pop_queue o1 q m' s) h (grab o1 (switch m m' h))"
proof (intro conjI)
  let ?s = "pop_queue o1 q m' s"
  have ids: "ids_wf s" using assms(2) by (simp add: swf_def)
  have "taken s @ map rid (queue s) = [0..<length (enq s)]" using ids by (simp add: ids_wf_def)
  then have eq: "(taken s @ [rid o1]) @ map rid q = [0..<length (enq s)]" using q by simp
  then have d: "rid o1 \<notin> rid ` set q" using distinct_upt [of 0 "length (enq s)"] by (simp flip: eq)
  have w: "rid o1 \<notin> set (written s)"
    using queue_rid(2) [OF ids, of o1] ids q set_mono_prefix [of "written s" "taken s"] by (auto simp: ids_wf_def)
  have "ids_wf ?s" using ids q eq by (auto simp: ids_wf_def pop_queue_def)
  then show "swf l g ?s" using assms(2) m(1) by (simp add: swf_def acks_wf_def close_wf_def pop_queue_def)
  show "keeps s ?s" by (simp add: keeps_def pop_queue_def)
  have e: "rid o1 < length (acks s)" "acks s ! rid o1 = AckEmpty"
    using queue_rid(1) [OF ids, of o1] ids q by (auto simp: ids_wf_def)
  have "pending ?s r = (pending s r \<or> r = rid o1)" for r using e d q by (auto simp: pending_def pop_queue_def)
  moreover have "\<not> pending s (rid o1)" using q by (simp add: pending_def)
  moreover have "wmode s = m" "m \<noteq> WEnd" using held(3) [OF h] by simp_all
  moreover have "0 \<le> obytes o1" using queue_good [OF assms(2), of o1] assms(1) q by (simp add: sized_def)
  ultimately show "moved own s ?s h (grab o1 (switch m m' h))"
    using holdsD(1) [OF h(1)] h(2) w q m(2) by (auto simp: moved_res pop_queue_def load_def)
qed

text \<open>
  The results of the \<^verbatim>\<open>select\<close>s in the running loop: with a request the writer is busy with it, on
  \<^verbatim>\<open>closing\<close> it has stopped.
\<close>

lemma mode_wfI:
  "mode_wf s \<Longrightarrow> wmode s \<noteq> WEnd \<Longrightarrow> mode_wf (s\<lparr>wmode := WStopped\<rparr>)"
  "mode_wf s \<Longrightarrow> wmode s = WIdle \<Longrightarrow> gdrained (gate s) \<Longrightarrow> mode_wf (s\<lparr>wmode := WDraining\<rparr>)"
  "mode_wf s \<Longrightarrow> wmode s = WIdle \<Longrightarrow> queue s = o1 # q \<Longrightarrow> mode_wf (pop_queue o1 q (WBusy (rid o1)) s)"
  "mode_wf s \<Longrightarrow> wmode s = WDraining \<Longrightarrow> queue s = o1 # q \<Longrightarrow> mode_wf (pop_queue o1 q (WDrainBusy (rid o1)) s)"
  "mode_wf s \<Longrightarrow> wmode s = WDraining \<Longrightarrow> queue s = [] \<Longrightarrow> mode_wf (s\<lparr>wmode := WStopped, flushed := True\<rparr>)"
  "mode_wf s \<Longrightarrow> wmode s \<noteq> WEnd \<Longrightarrow> gdrained (gate s) \<Longrightarrow> mode_wf (s\<lparr>wmode := WFailing\<rparr>)"
  "mode_wf s \<Longrightarrow> wmode s = WFailing \<Longrightarrow> queue s = o1 # q \<Longrightarrow> mode_wf (pop_queue o1 q WFailing s)"
  "mode_wf s \<Longrightarrow> wmode s = WFailing \<Longrightarrow> queue s = [] \<Longrightarrow> mode_wf (s\<lparr>wmode := WEnd\<rparr>)"
  by (auto simp: mode_wf_def pop_queue_def)

lemma wp_select_running:
  fixes sig :: "'a sst_scheme \<Rightarrow> bool"
  assumes z: "sized g" and m: "1 \<le> h (Mode WIdle)"
    and "Q WClosing (switch WIdle WStopped h)" "Q WDrain h" "\<And>o1. g o1 \<Longrightarrow> Q (WReq o1) (grab o1 (switch WIdle (WBusy (rid o1)) h))"
  shows "wps l g Q (select_running sig :: ('x, 'a, wres) sprog) h"
  unfolding select_running_def
proof (rule wp_atom)
  fix e :: "'x ev" and s s' :: "'a sst_scheme" and r
  assume a: "swf l g s" "holds own s h" and st: "(case e of
       Closing \<Rightarrow> if closing s then Some (s\<lparr>wmode := WStopped\<rparr>, WClosing) else None
     | Sig \<Rightarrow> if sig s then Some (s, WDrain) else None
     | Chan \<Rightarrow> (case queue s of [] \<Rightarrow> None | o1 # q \<Rightarrow> Some (pop_queue o1 q (WBusy (rid o1)) s, WReq o1))
     | _ \<Rightarrow> None) = Some (s', r)"
  note w = mode_of [OF a(1)] and i = held(3) [OF a(2) m]
  note go = mode_ok [OF a m, where m' = WStopped, OF mode_wfI(1) [OF w], simplified]
    pop_ok [OF z a m, OF _ mode_wfI(3) [OF w]]
  from st i go assms queue_good [OF a(1)] a(1) moved_refl [OF a(2)] keeps_refl [of s]
  show "swf l g s' \<and> keeps s s' \<and> (\<exists>h'. moved own s s' h h' \<and> Q r h')"
    by (auto split: ev.splits if_splits list.splits)
qed

lemma wp_select_graceful:
  assumes z: "sized g" and m: "1 \<le> h (Mode WIdle)"
    and "Q WClosing (switch WIdle WStopped h)" "Q WGateDone (switch WIdle WDraining h)"
      "\<And>o1. g o1 \<Longrightarrow> Q (WReq o1) (grab o1 (switch WIdle (WBusy (rid o1)) h))"
  shows "wps l g Q (select_graceful :: ('x, 'a, wres) sprog) h"
  unfolding select_graceful_def
proof (rule wp_atom)
  fix e :: "'x ev" and s s' :: "'a sst_scheme" and r
  assume a: "swf l g s" "holds own s h" and st: "(case e of
       Closing \<Rightarrow> if closing s then Some (s\<lparr>wmode := WStopped\<rparr>, WClosing) else None
     | Sig \<Rightarrow> if gdrained (gate s) then Some (s\<lparr>wmode := WDraining\<rparr>, WGateDone) else None
     | Chan \<Rightarrow> (case queue s of [] \<Rightarrow> None | o1 # q \<Rightarrow> Some (pop_queue o1 q (WBusy (rid o1)) s, WReq o1))
     | _ \<Rightarrow> None) = Some (s', r)"
  note w = mode_of [OF a(1)] and i = held(3) [OF a(2) m]
  note go = mode_ok [OF a m, where m' = WStopped, OF mode_wfI(1) [OF w], simplified]
    mode_ok [OF a m, where m' = WDraining, OF mode_wfI(2) [OF w], simplified]
    pop_ok [OF z a m, OF _ mode_wfI(3) [OF w]]
  from st i go assms queue_good [OF a(1)]
  show "swf l g s' \<and> keeps s s' \<and> (\<exists>h'. moved own s s' h h' \<and> Q r h')"
    by (auto split: ev.splits if_splits list.splits)
qed

text \<open>An empty queue after the gate has drained is flushed for good.\<close>

lemma flush_ok:
  assumes "swf l g s" "holds own s h" "1 \<le> h (Mode WDraining)" "queue s = []"
  shows "swf l g (s\<lparr>wmode := WStopped, flushed := True\<rparr>) \<and> keeps s (s\<lparr>wmode := WStopped, flushed := True\<rparr>)
     \<and> moves known own s (s\<lparr>wmode := WStopped, flushed := True\<rparr>) h ((switch WDraining WStopped h)(Flushed := 1))"
proof (intro conjI)
  let ?s = "s\<lparr>wmode := WStopped, flushed := True\<rparr>"
  have m: "mode_wf s" "wmode s = WDraining" using mode_of [OF assms(1)] held(3) [OF assms(2,3)] by simp_all
  then show "swf l g ?s" using assms(1,4)
    by (auto simp: swf_def ids_wf_def acks_wf_def close_wf_def life_wf_def mode_wf_def)
  show "keeps s ?s" by (simp add: keeps_def)
  show "moves known own s ?s h ((switch WDraining WStopped h)(Flushed := 1))"
    unfolding moves_def
  proof
    show "0 \<le> ((switch WDraining WStopped h)(Flushed := 1)) k \<and> (if known k then ((switch WDraining WStopped h)(Flushed := 1)) k \<le> own ?s k
        else own ?s k - own s k = ((switch WDraining WStopped h)(Flushed := 1)) k - h k)" for k
      using holdsD [OF assms(2), of k] m(2) assms(3) by (cases k) (auto simp: pending_def of_bool_def)
  qed
qed

lemma wp_select_drain:
  assumes z: "sized g" and m: "1 \<le> h (Mode WDraining)"
    and "Q WEmpty ((switch WDraining WStopped h)(Flushed := 1))"
      "\<And>o1. g o1 \<Longrightarrow> Q (WReq o1) (grab o1 (switch WDraining (WDrainBusy (rid o1)) h))"
  shows "wps l g Q (select_drain :: ('x, 'a, wres) sprog) h"
  unfolding select_drain_def
proof (rule wp_atom_moves)
  fix e :: "'x ev" and s s' :: "'a sst_scheme" and r
  assume a: "swf l g s" "holds own s h" and st: "(case queue s of
       o1 # q \<Rightarrow> Some (pop_queue o1 q (WDrainBusy (rid o1)) s, WReq o1)
     | [] \<Rightarrow> Some (s\<lparr>wmode := WStopped, flushed := True\<rparr>, WEmpty)) = Some (s', r)"
  note w = mode_of [OF a(1)] and i = held(3) [OF a(2) m]
  note go = flush_ok [OF a m] pop_ok [OF z a m, OF _ mode_wfI(4) [OF w]]
  from st i go moved_moves [OF _ a(2)] assms queue_good [OF a(1)]
  show "swf l g s' \<and> keeps s s' \<and> (\<exists>h'. moves known own s s' h h' \<and> Q r h')"
    by (cases "queue s") (auto, blast+)
qed

lemma wp_wait_gate:
  assumes m: "1 \<le> h (Mode WStopped)" and "Q () (switch WStopped WFailing h)"
  shows "wps l g Q (wait_gate :: ('x, 'a, unit) sprog) h"
  unfolding wait_gate_def
proof (rule wp_atom)
  fix e :: "'x ev" and s s' :: "'a sst_scheme" and r
  assume a: "swf l g s" "holds own s h"
    and st: "(if gdrained (gate s) then Some (s\<lparr>wmode := WFailing\<rparr>, ()) else None) = Some (s', r)"
  note w = mode_of [OF a(1)] and i = held(3) [OF a(2) m]
  note go = mode_ok [OF a m, where m' = WFailing, OF mode_wfI(6) [OF w], simplified]
  from st i go assms
  show "swf l g s' \<and> keeps s s' \<and> (\<exists>h'. moved own s s' h h' \<and> Q r h')"
    by (auto split: if_splits)
qed

lemma wp_select_fail:
  assumes z: "sized g" and m: "1 \<le> h (Mode WFailing)"
    and "Q None (add Ended 1 (add (Mode WFailing) (-1) h))" "\<And>o1. g o1 \<Longrightarrow> Q (Some o1) (grab o1 h)"
  shows "wps l g Q (select_fail :: ('x, 'a, outbound option) sprog) h"
  unfolding select_fail_def
proof (rule wp_atom)
  fix e :: "'x ev" and s s' :: "'a sst_scheme" and r
  assume a: "swf l g s" "holds own s h" and st: "(case queue s of
       o1 # q \<Rightarrow> Some (pop_queue o1 q WFailing s, Some o1)
     | [] \<Rightarrow> Some (s\<lparr>wmode := WEnd\<rparr>, None)) = Some (s', r)"
  note w = mode_of [OF a(1)] and i = held(3) [OF a(2) m]
  note go = mode_ok [OF a m, where m' = WEnd, OF mode_wfI(8) [OF w], simplified]
    pop_ok [OF z a m, OF _ mode_wfI(7) [OF w], simplified]
  from st i go assms queue_good [OF a(1)]
  show "swf l g s' \<and> keeps s s' \<and> (\<exists>h'. moved own s s' h h' \<and> Q r h')"
    by (auto split: list.splits)
qed

text \<open>A write: the request in hand is written, or the writer stops.\<close>

abbreviation busy :: "bool \<Rightarrow> nat \<Rightarrow> writer_mode" where
  "busy dr r \<equiv> (if dr then WDrainBusy r else WBusy r)"

abbreviation idle_mode :: "bool \<Rightarrow> writer_mode" where
  "idle_mode dr \<equiv> (if dr then WDraining else WIdle)"

lemma write_ok:
  assumes "swf l g s" "holds own s h" "1 \<le> h (Mode (busy dr r))" "1 \<le> h (Ack r)"
  defines "s' \<equiv> s\<lparr>written := written s @ [r], wmode := idle_mode dr\<rparr>"
  shows "swf l g s' \<and> keeps s s' \<and>
     moved own s s' h (add (Wrote r) 1 (add (Ack r) (-1) (switch (busy dr r) (idle_mode dr) h)))"
proof (intro conjI)
  have p: "pending s r" "r \<notin> set (written s)" using held(2) [OF assms(2,4)] by simp_all
  have m: "wmode s = busy dr r" using held(3) [OF assms(2,3)] by simp
  have t: "taken s = written s @ [r]" using assms(1) m by (auto simp: swf_def mode_wf_def split: if_splits)
  have "acks_wf s'"
    using assms(1) p by (auto simp: swf_def acks_wf_def s'_def pending_def)
  moreover have "mode_wf s'" using assms(1) m t by (auto simp: swf_def mode_wf_def s'_def)
  moreover have "ids_wf s'" using assms(1) t by (simp add: swf_def ids_wf_def s'_def)
  ultimately show "swf l g s'" using assms(1) by (simp add: swf_def close_wf_def s'_def)
  show "keeps s s'" by (simp add: keeps_def s'_def)
  have "pending s' x = pending s x" for x by (simp add: pending_def s'_def)
  then show "moved own s s' h (add (Wrote r) 1 (add (Ack r) (-1) (switch (busy dr r) (idle_mode dr) h)))"
    using holdsD(1) [OF assms(2)] assms(3,4) p m by (auto simp: moved_res s'_def split: if_splits)
qed

lemma wp_do_write:
  assumes m: "1 \<le> h (Mode (busy dr (rid o1)))" "1 \<le> h (Ack (rid o1))"
    and "\<And>x. ok x \<Longrightarrow> Q x (add (Wrote (rid o1)) 1 (add (Ack (rid o1)) (-1) (switch (busy dr (rid o1)) (idle_mode dr) h)))"
      "\<And>x. \<not> ok x \<Longrightarrow> Q x (switch (busy dr (rid o1)) WStopped h)"
  shows "wps l g Q (do_write f ok dr o1 :: ('x, 'a, 'r) sprog) h"
  unfolding do_write_def
proof (rule wp_atom)
  fix e :: "'x ev" and s s' :: "'a sst_scheme" and r
  assume a: "swf l g s" "holds own s h" and st: "(case e of
       Io x \<Rightarrow> map_option (\<lambda>r.
         (if ok r then s\<lparr>written := written s @ [rid o1], wmode := idle_mode dr\<rparr>
          else s\<lparr>wmode := WStopped\<rparr>, r)) (f x)
     | _ \<Rightarrow> None) = Some (s', r)"
  note go = mode_ok [OF a m(1), where m' = WStopped, OF mode_wfI(1) [OF mode_of [OF a(1)]]]
    write_ok [OF a m]
  have "s' = (if ok r then s\<lparr>written := written s @ [rid o1], wmode := idle_mode dr\<rparr> else s\<lparr>wmode := WStopped\<rparr>)"
    using st by (auto split: ev.splits)
  with go assms(3,4) held(3) [OF a(2) m(1)]
  show "swf l g s' \<and> keeps s s' \<and> (\<exists>h'. moved own s s' h h' \<and> Q r h')"
    by (cases "ok r") auto
qed

text \<open>Closing. What a program knows it may forget.\<close>

lemma moves_drop:
  assumes "moves known own s s' h h'"
  shows "moves known own s s' h (h'(Settled := 0))"
  unfolding moves_def
proof
  fix k
  have "0 \<le> own s' Settled" by simp
  then show "0 \<le> (h'(Settled := 0)) k \<and> (if known k then (h'(Settled := 0)) k \<le> own s' k
      else own s' k - own s k = (h'(Settled := 0)) k - h k)"
    using assms by (auto simp: moves_def)
qed

lemma moves_learn:
  assumes "moves known own s s' h h'" and "known k" and "own s' k = 1"
  shows "moves known own s s' h (h'(k := 1))"
  using assms by (auto simp: moves_def)

lemma own_close:
  "own (s\<lparr>closeOnce := b, cerr := x\<rparr>) = (own s)(Closer := of_bool (b \<and> \<not> closing s))"
  "own (s\<lparr>closing := c\<rparr>) = (own s)(Closer := of_bool (closeOnce s \<and> \<not> c))"
  "own (s\<lparr>finalOnce := b\<rparr>) = (own s)(Finalizer := of_bool (b \<and> \<not> sdone s))"
  "own (s\<lparr>sdone := b\<rparr>) = (own s)(Finalizer := of_bool (finalOnce s \<and> \<not> b))"
  by (simp_all only: fun_eq_iff all_res) (simp_all add: pending_def)

lemma wp_close_begin:
  assumes "err = None \<and> 1 \<le> h Settled \<or> \<not> l" "Q True (add Closer 1 h)" "Q False h \<or> Q False (h(Settled := 0))"
  shows "wps l g Q (close_begin err :: ('x, 'a, bool) sprog) h"
  unfolding close_begin_def
proof (rule wp_atom_moves)
  fix e :: "'x ev" and s s' :: "'a sst_scheme" and r
  let ?s = "s\<lparr>closeOnce := True, cerr := (case err of None \<Rightarrow> cerr s | Some x \<Rightarrow> Some x)\<rparr>"
  assume a: "swf l g s" "holds own s h" "(if \<not> closeOnce s then Some (?s, True)
     else if closing s then Some (s, False) else None) = Some (s', r)"
  show "swf l g s' \<and> keeps s s' \<and> (\<exists>h'. moves known own s s' h h' \<and> Q r h')"
  proof (cases "closeOnce s")
    case True
    then have "s' = s" "r = False" using a(3) by (auto split: if_splits)
    moreover have "moves known own s s h h" using moved_moves [OF moved_refl [OF a(2)] a(2)] .
    ultimately show ?thesis using a(1) assms(3) keeps_refl [of s] moves_drop by blast
  next
    case False
    then have s': "s' = ?s" "r = True" using a(3) by auto
    have c: "close_wf l s" using a(1) by (simp add: swf_def)
    moreover have "l \<Longrightarrow> settled (slife s)" using assms(1) held(8) [OF a(2)] by auto
    ultimately have k: "\<not> closing s" "close_wf l ?s" "\<not> l \<Longrightarrow> cerr s = None"
      using False assms(1) by (auto simp: close_wf_def split: option.splits if_splits)
    have "swf l g s'" using a(1) k(2) s'(1) by (intro swf_frame [of l g s s']) simp_all
    moreover have "keeps s s'" using s' assms(1) k(3) by (auto simp: keeps_def split: option.splits)
    moreover have "moved own s s' h (add Closer 1 h)"
      using moved_one [OF a(2), of s' Closer 1] holdsD(1) [OF a(2), of Closer] s' k False by (simp add: own_close)
    ultimately show ?thesis using assms(2) s'(2) by (intro conjI exI [of _ "add Closer 1 h"]) (auto intro: moved_moves a(2))
  qed
qed

lemma wp_close_closing:
  assumes "1 \<le> h Closer" "Q () (add Closer (-1) h) \<or> Q () ((add Closer (-1) h)(Settled := 0))"
  shows "wps l g Q (close_closing :: ('x, 'a, unit) sprog) h"
  unfolding close_closing_def
proof (rule wp_atom_moves)
  fix e :: "'x ev" and s s' :: "'a sst_scheme" and r
  assume a: "swf l g s" "holds own s h"
    "Some (if closing s then s\<lparr>fault := True\<rparr> else s\<lparr>closing := True\<rparr>, ()) = Some (s', r)"
  have k: "closeOnce s" "\<not> closing s" using held(4) [OF a(2) assms(1)] by simp_all
  then have s': "s' = s\<lparr>closing := True\<rparr>" using a(3) by simp
  have "close_wf l s'" using a(1) k s' by (auto simp: swf_def close_wf_def)
  then have "swf l g s'" using a(1) s' by (intro swf_frame [of l g s s']) simp_all
  moreover have "keeps s s'" using s' by (simp add: keeps_def)
  moreover have "moved own s s' h (add Closer (-1) h)"
    using moved_one [OF a(2), of s' Closer 0] assms(1) s' k by (simp add: own_close)
  note m = moved_moves [OF this a(2), of known]
  ultimately show "swf l g s' \<and> keeps s s' \<and> (\<exists>h'. moves known own s s' h h' \<and> Q r h')"
    using assms(2) m moves_drop [OF m] by fastforce
qed

lemma wp_final_begin:
  assumes "Q True (add Finalizer 1 h)" "Q False h"
  shows "wps l g Q (final_begin :: ('x, 'a, bool) sprog) h"
  unfolding final_begin_def
proof (rule wp_atom)
  fix e :: "'x ev" and s s' :: "'a sst_scheme" and r
  assume a: "swf l g s" "holds own s h"
    "(if list_ex (loops s) [WriterLoop, ReaderLoop, ActivityLoop, PingLoop] then None
      else if finalOnce s then Some (s, False) else Some (s\<lparr>finalOnce := True\<rparr>, True)) = Some (s', r)"
  show "swf l g s' \<and> keeps s s' \<and> (\<exists>h'. moved own s s' h h' \<and> Q r h')"
  proof (cases "finalOnce s")
    case True
    with a assms(2) show ?thesis using moved_refl keeps_refl by (auto split: if_splits)
  next
    case False
    then have s': "s' = s\<lparr>finalOnce := True\<rparr>" "r = True" "\<not> loops s WriterLoop" using a(3) by (auto split: if_splits)
    have "close_wf l s'" "\<not> sdone s" using a(1) False s' by (auto simp: swf_def close_wf_def)
    moreover from this have "swf l g s'" using a(1) s' by (intro swf_frame [of l g s s']) simp_all
    moreover have "keeps s s'" using s' by (simp add: keeps_def)
    ultimately show ?thesis
      using moved_one [OF a(2), of s' Finalizer 1] holdsD(1) [OF a(2), of Finalizer] s' False assms(1)
      by (auto simp: own_close intro!: exI [of _ "add Finalizer 1 h"])
  qed
qed

lemma wp_close_done:
  assumes "1 \<le> h Finalizer" "Q () (add Finalizer (-1) h)" "1 \<le> h Settled \<or> \<not> l"
  shows "wps l g Q (close_done :: ('x, 'a, unit) sprog) h"
  unfolding close_done_def
proof (rule wp_atom)
  fix e :: "'x ev" and s s' :: "'a sst_scheme" and r
  assume a: "swf l g s" "holds own s h"
    "Some (if sdone s then s\<lparr>fault := True\<rparr> else s\<lparr>sdone := True\<rparr>, ()) = Some (s', r)"
  have k: "finalOnce s" "\<not> sdone s" using held(5) [OF a(2) assms(1)] by simp_all
  then have s': "s' = s\<lparr>sdone := True\<rparr>" using a(3) by simp
  have "close_wf l s'" using a(1) k s' assms(3) held(8) [OF a(2)] by (auto simp: swf_def close_wf_def)
  then have "swf l g s'" using a(1) s' by (intro swf_frame [of l g s s']) simp_all
  moreover have "keeps s s'" using s' by (simp add: keeps_def)
  moreover have "moved own s s' h (add Finalizer (-1) h)"
    using moved_one [OF a(2), of s' Finalizer 0] assms(1) s' k by (simp add: own_close)
  ultimately show "swf l g s' \<and> keeps s s' \<and> (\<exists>h'. moved own s s' h h' \<and> Q r h')" using assms(2) by auto
qed

lemma close_all_fields [simp]:
  "goal (close_all cs x) = goal x" "why (close_all cs x) = why x" "terminal (close_all cs x) = terminal x"
  "signalled (close_all cs x) c \<longleftrightarrow> c \<in> set cs \<or> signalled x c"
proof -
  have "goal (close_all cs x) = goal x \<and> why (close_all cs x) = why x \<and> terminal (close_all cs x) = terminal x
     \<and> (signalled (close_all cs x) c \<longleftrightarrow> c \<in> set cs \<or> signalled x c)"
    by (induction cs arbitrary: x) (auto simp: close_all_def close_once_def)
  then show "goal (close_all cs x) = goal x" "why (close_all cs x) = why x" "terminal (close_all cs x) = terminal x"
    "signalled (close_all cs x) c \<longleftrightarrow> c \<in> set cs \<or> signalled x c" by simp_all
qed

lemma life_abort_facts:
  assumes "life_abort x reason = (won, y)" "life_wf fl x" "reason \<noteq> abortNone"
  shows "won \<Longrightarrow> goal x \<noteq> closeGoalAbort \<and> goal y = closeGoalAbort \<and> life_wf fl y \<and> settled y
       \<and> (signalled x writeCh \<longrightarrow> signalled y writeCh)"
    and "\<not> won \<Longrightarrow> settled x"
  using assms
  by (auto simp: life_abort_def abortWith_locked_def life_wf_def settled_def split: if_splits)

text \<open>The first terminal error stays: an abort wins only when there was none. Either way the end is decided.\<close>

lemma wp_abort_with:
  assumes "reason \<noteq> abortNone" "Q True (h(Settled := 1))" "Q False h \<or> Q False (h(Settled := 1))"
  shows "wps True g Q (abort_with reason err :: ('x, 'a, bool) sprog) h"
  unfolding abort_with_def
proof (rule wp_atom_moves)
  fix e :: "'x ev" and s s' :: "'a sst_scheme" and r
  assume a: "swf True g s" "holds own s h" "(case life_abort (slife s) reason of
       (won, y) \<Rightarrow> Some (if won then s\<lparr>slife := y, cerr := err\<rparr> else s, won)) = Some (s', r)"
  obtain won y where l: "life_abort (slife s) reason = (won, y)" by fastforce
  have w: "life_wf (flushed s) (slife s)" using a(1) by (simp add: swf_def close_wf_def)
  show "swf True g s' \<and> keeps s s' \<and> (\<exists>h'. moves known own s s' h h' \<and> Q r h')"
  proof (cases won)
    case True
    have s': "s' = s\<lparr>slife := y, cerr := err\<rparr>" "r = True" using a(3) l True by simp_all
    note f = life_abort_facts(1) [OF l w assms(1) True]
    then have "cerr s = None" "close_wf True s'" using a(1) s' by (auto simp: swf_def close_wf_def)
    then have "swf True g s'" "keeps s s'"
      using a(1) s' f swf_frame [of True g s s'] by (simp_all add: keeps_def)
    moreover have "moves known own s s' h (h(Settled := 1))"
      unfolding moves_def
    proof
      show "0 \<le> (h(Settled := 1)) k \<and> (if known k then (h(Settled := 1)) k \<le> own s' k
          else own s' k - own s k = (h(Settled := 1)) k - h k)" for k
        using holdsD [OF a(2), of k] f s' by (cases k) (auto simp: pending_def of_bool_def split: if_splits)
    qed
    ultimately show ?thesis using assms(2) s'(2) by blast
  next
    case False
    have s': "s' = s" "r = False" using a(3) l False by simp_all
    have "moves known own s s h h" using moved_moves [OF moved_refl [OF a(2)] a(2)] .
    moreover from this have "moves known own s s h (h(Settled := 1))"
      using life_abort_facts(2) [OF l w assms(1) False] by (intro moves_learn) simp_all
    ultimately show ?thesis using a(1) assms(3) s' keeps_refl [of s] by blast
  qed
qed

text \<open>Other updates of the lifecycle, with what the program knows.\<close>

lemma wp_life_op:
  assumes step: "\<And>x r y fl. f x = (r, y) \<Longrightarrow> life_wf fl x \<Longrightarrow> (1 \<le> h Flushed \<Longrightarrow> fl) \<Longrightarrow> (1 \<le> h Settled \<Longrightarrow> settled x) \<Longrightarrow>
      (1 \<le> h WriteSig \<Longrightarrow> signalled x writeCh) \<Longrightarrow>
      life_wf fl y \<and> (goal x = closeGoalAbort \<longrightarrow> goal y = closeGoalAbort) \<and> (why x \<noteq> abortNone \<longrightarrow> why y \<noteq> abortNone)
      \<and> (signalled x writeCh \<longrightarrow> signalled y writeCh)"
    and Q: "\<And>x r y. f x = (r, y) \<Longrightarrow> Q r h \<or> settled y \<and> Q r (h(Settled := 1))
      \<or> signalled y writeCh \<and> (Q r (h(WriteSig := 1)) \<or> Q r (h(Settled := 1, WriteSig := 1))) \<or> Q r (h(Settled := 0))"
  shows "wps True g Q (life_op f :: ('x, 'a, 'r) sprog) h"
  unfolding life_op_def
proof (rule wp_atom_moves)
  fix e :: "'x ev" and s s' :: "'a sst_scheme" and r
  assume a: "swf True g s" "holds own s h" "(case f (slife s) of (r, y) \<Rightarrow> Some (s\<lparr>slife := y\<rparr>, r)) = Some (s', r)"
  obtain y where y: "f (slife s) = (r, y)" "s' = s\<lparr>slife := y\<rparr>" using a(3) by (auto split: prod.splits)
  have w: "life_wf (flushed s) (slife s)" "closeOnce s \<or> sdone s \<longrightarrow> settled (slife s)" using a(1) by (simp_all add: swf_def close_wf_def)
  note st = step [OF y(1) w(1) held(7) [OF a(2)] held(8) [OF a(2)] held(9) [OF a(2)]]
  have se: "settled (slife s) \<longrightarrow> settled y" using st by (auto simp: settled_def)
  have "close_wf True s'" using a(1) y(2) st se by (auto simp: swf_def close_wf_def)
  then have "swf True g s'" "keeps s s'"
    using a(1) y(2) st se swf_frame [of True g s s'] by (simp_all add: keeps_def)
  moreover have m: "moves known own s s' h h"
    unfolding moves_def
  proof
    show "0 \<le> h k \<and> (if known k then h k \<le> own s' k else own s' k - own s k = h k - h k)" for k
      using holdsD [OF a(2), of k] st se y(2) by (cases k) (auto simp: pending_def of_bool_def split: if_splits)
  qed
  moreover have "settled y \<Longrightarrow> moves known own s s' h (h(Settled := 1))"
      "signalled y writeCh \<Longrightarrow> moves known own s s' h (h(WriteSig := 1))"
      "signalled y writeCh \<Longrightarrow> moves known own s s' h (h(Settled := 1, WriteSig := 1))" "moves known own s s' h (h(Settled := 0))"
    using m moves_drop y(2) by (auto intro!: moves_learn simp: settled_def)
  ultimately show "swf True g s' \<and> keeps s s' \<and> (\<exists>h'. moves known own s s' h h' \<and> Q r h')"
    using Q [OF y(1)] by blast
qed

text \<open>The operations of the lifecycle.\<close>

lemma close_once_fields [simp]:
  "signalled (close_once c x) d \<longleftrightarrow> d = c \<or> signalled x d"
  "goal (close_once c x) = goal x" "why (close_once c x) = why x" "terminal (close_once c x) = terminal x"
  by (auto simp: close_once_def)

lemma markTerminal_fields [simp]:
  "goal (markTerminal x) = goal x" "why (markTerminal x) = why x" "terminal (markTerminal x)"
  "signalled (markTerminal x) c \<longleftrightarrow> c = readCh \<or> c = writeCh \<or> c = termCh \<or> signalled x c"
  by (simp_all add: markTerminal_def markTerminal_locked_def markTerminalChannels_def)

lemma tryMarkTerminal_eq:
  "tryMarkTerminal x = (if terminal x \<or> goal x = closeGoalAbort then (False, x) else (True, markTerminal x))"
  by (simp add: tryMarkTerminal_def tryMarkTerminal_locked_def markTerminal_def markTerminal_locked_def close_all_def)

lemma request_facts:
  assumes "requestWithPrevious x g = (r, y)"
  shows "why y = why x" "terminal y = terminal x" "c = writeCh \<or> c = abortCh \<or> c = termCh \<Longrightarrow> signalled y c = signalled x c"
    "goal x = closeGoalAbort \<longleftrightarrow> goal y = closeGoalAbort"
proof -
  have "why y = why x \<and> terminal y = terminal x \<and> (c = writeCh \<or> c = abortCh \<or> c = termCh \<longrightarrow> signalled y c = signalled x c)
     \<and> (goal x = closeGoalAbort \<longleftrightarrow> goal y = closeGoalAbort)"
    using assms
    by (cases "g \<le> closeGoalRunning \<or> g \<ge> closeGoalAbort \<or> terminal x \<or> goal x \<ge> g")
       (auto simp: requestWithPrevious_def requestWithPrevious_locked_def close_all_def split: if_splits)
  then show "why y = why x" "terminal y = terminal x" "c = writeCh \<or> c = abortCh \<or> c = termCh \<Longrightarrow> signalled y c = signalled x c"
    "goal x = closeGoalAbort \<longleftrightarrow> goal y = closeGoalAbort" by simp_all
qed

lemma wp_markReadClosed: "Q () h \<Longrightarrow> wps True g Q (life_op (\<lambda>x. ((), markReadClosed x))) h"
  by (rule wp_life_op) (auto simp: markReadClosed_def life_wf_def)

lemma wp_markWriteClosed:
  assumes "1 \<le> h Flushed" "Q () h"
  shows "wps True g Q (life_op (\<lambda>x. ((), markWriteClosed x))) h"
  by (rule wp_life_op) (use assms in \<open>auto simp: markWriteClosed_def life_wf_def\<close>)

lemma wp_markWriteClosed_settled:
  assumes "1 \<le> h Flushed" "Q () (h(Settled := 1, WriteSig := 1))"
  shows "wps True g Q (life_op (\<lambda>x. ((), markWriteClosed x))) h"
  by (rule wp_life_op) (use assms in \<open>auto simp: markWriteClosed_def life_wf_def\<close>)

lemma wp_tryMarkTerminal:
  assumes "1 \<le> h WriteSig" "Q True (h(Settled := 1))" "Q False h"
  shows "wps True g Q (life_op tryMarkTerminal) h"
proof (rule wp_life_op)
  fix x r y fl
  assume "tryMarkTerminal x = (r, y)" "life_wf fl x" "1 \<le> h WriteSig \<Longrightarrow> signalled x writeCh"
  with assms(1) show "life_wf fl y \<and> (goal x = closeGoalAbort \<longrightarrow> goal y = closeGoalAbort)
      \<and> (why x \<noteq> abortNone \<longrightarrow> why y \<noteq> abortNone) \<and> (signalled x writeCh \<longrightarrow> signalled y writeCh)"
    by (auto simp: tryMarkTerminal_eq life_wf_def split: if_splits)
qed (use assms in \<open>auto simp: tryMarkTerminal_eq settled_def split: if_splits\<close>)

lemma wp_markTerminal:
  assumes "1 \<le> h Settled" "Q () h \<or> Q () (h(Settled := 0))"
  shows "wps True g Q (life_op (\<lambda>x. ((), markTerminal x))) h"
proof (rule wp_life_op)
  fix x y :: sessionLifecycle and fl r
  assume a: "((), markTerminal x) = (r, y)" "life_wf fl x" "1 \<le> h Settled \<Longrightarrow> settled x"
  have y: "y = markTerminal x" using a(1) by simp
  show "life_wf fl y \<and> (goal x = closeGoalAbort \<longrightarrow> goal y = closeGoalAbort)
      \<and> (why x \<noteq> abortNone \<longrightarrow> why y \<noteq> abortNone) \<and> (signalled x writeCh \<longrightarrow> signalled y writeCh)"
    unfolding y using a(2,3) assms(1) by (cases "why x = abortNone") (simp_all add: life_wf_def settled_def)
qed (use assms in auto)

lemma wp_read_life: "(\<And>r. Q r h) \<Longrightarrow> wps True g Q (life_op (\<lambda>x. (f x, x))) h"
  by (rule wp_life_op) auto

lemma wp_read_writeCh:
  assumes "Q False h" "Q True (h(WriteSig := 1))"
  shows "wps True g Q (life_op (\<lambda>x. (signalled x writeCh, x))) h"
proof (rule wp_life_op)
  fix x y :: sessionLifecycle and r
  assume "(signalled x writeCh, x) = (r, y)"
  with assms show "Q r h \<or> settled y \<and> Q r (h(Settled := 1))
      \<or> signalled y writeCh \<and> (Q r (h(WriteSig := 1)) \<or> Q r (h(Settled := 1, WriteSig := 1))) \<or> Q r (h(Settled := 0))"
    by (cases "signalled x writeCh") auto
qed auto

lemma wp_requested: "(\<And>r. Q r h) \<Longrightarrow> wps True g Q (life_op (\<lambda>x. requestWithPrevious x c)) h"
  by (rule wp_life_op) (auto dest: request_facts simp: life_wf_def request_facts)

text \<open>An action that only reads, and what it lets the program know.\<close>

lemma wp_learn:
  fixes f :: "'x ev \<Rightarrow> 'a sst_scheme \<Rightarrow> ('a sst_scheme \<times> 'r) option"
  assumes "\<And>e s s' r. swf l g s \<Longrightarrow> holds own s h \<Longrightarrow> f e s = Some (s', r) \<Longrightarrow>
     s' = s \<and> (Q r h \<or> (\<exists>k. known k \<and> own s k = 1 \<and> Q r (h(k := 1))))"
  shows "wps l g Q (atom f) h"
proof (rule wp_atom_moves)
  fix e :: "'x ev" and s s' :: "'a sst_scheme" and r
  assume a: "swf l g s" "holds own s h" "f e s = Some (s', r)"
  have "moves known own s s h h" using moved_moves [OF moved_refl [OF a(2)] a(2)] .
  with assms [OF a] a(1) keeps_refl [of s] moves_learn [OF this]
  show "swf l g s' \<and> keeps s s' \<and> (\<exists>h'. moves known own s s' h h' \<and> Q r h')" by blast
qed

lemma swf_life: "swf True g s \<Longrightarrow> life_wf (flushed s) (slife s) \<and> (closing s \<or> sdone s \<longrightarrow> settled (slife s))"
  by (auto simp: swf_def close_wf_def)

lemma wp_isClosing_settled:
  assumes "Q False h" "Q True (h(Settled := 1))"
  shows "wps True g Q (isClosing :: ('x, 'a, bool) sprog) h"
  unfolding isClosing_def
proof (rule wp_learn)
  fix e :: "'x ev" and s s' :: "'a sst_scheme" and r
  assume "swf True g s" "Some (s, closing s) = Some (s', r)"
  with assms swf_life [of g s]
  show "s' = s \<and> (Q r h \<or> (\<exists>k. known k \<and> own s k = 1 \<and> Q r (h(k := 1))))"
    by (cases "closing s") (auto intro!: exI [of _ Settled])
qed

lemma wp_read_termCh:
  assumes "Q False h" "Q True (h(Settled := 1))"
  shows "wps True g Q (life_op (\<lambda>x. (signalled x termCh, x)) :: ('x, 'a, bool) sprog) h"
  unfolding life_op_def
proof (rule wp_learn)
  fix e :: "'x ev" and s s' :: "'a sst_scheme" and r
  assume a: "swf True g s"
    "(case (signalled (slife s) termCh, slife s) of (r, y) \<Rightarrow> Some (s\<lparr>slife := y\<rparr>, r)) = Some (s', r)"
  have "signalled (slife s) termCh \<Longrightarrow> settled (slife s)"
    using swf_life [OF a(1)] by (simp add: life_wf_def settled_def)
  with a(2) assms
  show "s' = s \<and> (Q r h \<or> (\<exists>k. known k \<and> own s k = 1 \<and> Q r (h(k := 1))))"
    by (cases "signalled (slife s) termCh") (auto intro!: exI [of _ Settled])
qed

text \<open>Once the end of the session is decided, no abort reason means that the queue was flushed.\<close>

lemma wp_read_why:
  assumes "1 \<le> h Settled" "\<And>r. r \<noteq> abortNone \<Longrightarrow> Q r h" "Q abortNone (h(Flushed := 1))"
  shows "wps True g Q (life_op (\<lambda>x. (why x, x)) :: ('x, 'a, abortReason) sprog) h"
  unfolding life_op_def
proof (rule wp_learn)
  fix e :: "'x ev" and s s' :: "'a sst_scheme" and r
  assume a: "swf True g s" "holds own s h"
    "(case (why (slife s), slife s) of (r, y) \<Rightarrow> Some (s\<lparr>slife := y\<rparr>, r)) = Some (s', r)"
  have "why (slife s) = abortNone \<Longrightarrow> flushed s"
    using swf_life [OF a(1)] held(8) [OF a(2) assms(1)] by (auto simp: life_wf_def settled_def)
  with a(3) assms(2,3)
  show "s' = s \<and> (Q r h \<or> (\<exists>k. known k \<and> own s k = 1 \<and> Q r (h(k := 1))))"
    by (cases "why (slife s) = abortNone") (auto intro!: exI [of _ Flushed])
qed

lemma wp_loop_done:
  assumes "Q () h" "x \<noteq> WriterLoop"
  shows "wps l g Q (loop_done x :: ('x, 'a, unit) sprog) h"
  unfolding loop_done_def
proof (rule wp_atom_frame)
  fix e :: "'x ev" and s s' :: "'a sst_scheme" and r
  assume a: "swf l g s" "holds own s h" "Some (s\<lparr>loops := (loops s)(x := False)\<rparr>, ()) = Some (s', r)"
  then have s': "s' = s\<lparr>loops := (loops s)(x := False)\<rparr>" by simp
  have "swf l g s'"
    using a(1) s' assms(2)
    by (auto simp: swf_def ids_wf_def acks_wf_def mode_wf_def close_wf_def split: writer_mode.splits)
  moreover have "own s' k = own s k" for k using s' assms(2) by (cases k) (simp_all add: pending_def)
  ultimately show "swf l g s' \<and> keeps s s' \<and> own s' = own s \<and> Q r h"
    using s' assms(1) by (auto simp: keeps_def)
qed

lemma wp_writer_done:
  assumes "1 \<le> h Ended" "Q () (add Ended (-1) h)"
  shows "wps l g Q (loop_done WriterLoop :: ('x, 'a, unit) sprog) h"
  unfolding loop_done_def
proof (rule wp_atom)
  fix e :: "'x ev" and s s' :: "'a sst_scheme" and r
  assume a: "swf l g s" "holds own s h" "Some (s\<lparr>loops := (loops s)(WriterLoop := False)\<rparr>, ()) = Some (s', r)"
  then have s': "s' = s\<lparr>loops := (loops s)(WriterLoop := False)\<rparr>" by simp
  have m: "wmode s = WEnd" "loops s WriterLoop" using held(6) [OF a(2) assms(1)] by simp_all
  have "swf l g s'"
    using a(1) s' m by (simp add: swf_def ids_wf_def acks_wf_def mode_wf_def close_wf_def) fastforce
  moreover have "moved own s s' h (add Ended (-1) h)"
    using s' m holdsD(1) [OF a(2)] assms(1) by (auto simp: moved_res pending_def)
  ultimately show "swf l g s' \<and> keeps s s' \<and> (\<exists>h'. moved own s s' h h' \<and> Q r h')"
    using s' assms(2) by (auto simp: keeps_def)
qed

text \<open>The quota's two levels, and the body of \<^verbatim>\<open>closeOnce.Do\<close>.\<close>

lemma wp_quota_acquire:
  assumes "sized g" "0 \<le> n" "Q None (add Bytes n h)" "\<And>err. Q (Some err) h" "0 \<le> h Bytes"
  shows "wps l g Q (quota_acquire c n) h" "wps l g Q (quota_try n) h"
  unfolding quota_acquire_def quota_try_def using assms
  by (auto intro!: wp_bind wp_acquire_local wp_try_local wp_parent_acquire wp_release_local split: option.splits)

definition close_body :: "gerr option \<Rightarrow> ('x, 'a, unit) sprog" where
  "close_body err = bind (close_begin err) (\<lambda>first. if first then seq shut_gate close_closing else Ret ())"

lemma wp_close_body:
  assumes "err = None \<and> 1 \<le> h Settled \<or> \<not> l" "Q () h \<or> Q () (h(Settled := 0))" "0 \<le> h Closer"
  shows "wps l g Q (close_body err) h"
proof -
  have *: "(add Closer 1 h)(Closer := (add Closer 1 h) Closer + -1, Settled := v) = h(Settled := v)" for v
    by (simp add: fun_eq_iff)
  show ?thesis
    unfolding close_body_def using assms *
    by (auto intro!: wp_bind wp_close_begin wp_shut_gate wp_close_closing simp: fun_upd_idem)
qed

text \<open>\<^verbatim>\<open>Cause(ctx)\<close>, then the terminal error, then a default.\<close>

definition cause_or :: "nat \<Rightarrow> ('x, 'a, gerr option) sprog \<Rightarrow> ('x, 'a, gerr option) sprog" where
  "cause_or c p = bind (ctx_cause c) (\<lambda>cause. case cause of Some e \<Rightarrow> Ret (Some e) | None \<Rightarrow> p)"

definition err_or :: "gerr option \<Rightarrow> ('x, 'a, gerr option) sprog" where
  "err_or d = bind get_err (\<lambda>t. Ret (case t of Some e \<Rightarrow> Some e | None \<Rightarrow> d))"

lemma wp_cause_or: "(\<And>e. Q (Some e) h) \<Longrightarrow> wps l g Q p h \<Longrightarrow> wps l g Q (cause_or c p) h"
  unfolding cause_or_def by (auto intro!: wp_bind wp_ctx_cause split: option.splits)

lemma wp_err_or: "(\<And>e. Q (Some e) h) \<Longrightarrow> Q d h \<Longrightarrow> wps l g Q (err_or d) h"
  unfolding err_or_def by (auto intro!: wp_bind wp_get_err split: option.splits)

text \<open>Giving back the slot and the bytes of a request that did not reach the queue.\<close>

definition give_back :: "int \<Rightarrow> ('x, 'a, unit) sprog" where
  "give_back n = seq (release_local n) release_slot"

lemma wp_give_back:
  assumes "sized g" "0 \<le> n" "n \<le> h Bytes" "1 \<le> h Slot" "Q () (add Slot (-1) (add Bytes (-n) h))"
  shows "wps l g Q (give_back n) h"
  unfolding give_back_def using assms by (auto intro!: wp_bind wp_release_local wp_release_slot)

text \<open>A \<^verbatim>\<open>select\<close> that only waits: for either of two signals, or for the context.\<close>

datatype wait_result = First | Second | CtxCause gerr

definition wait_signal ::
  "('a sst_scheme \<Rightarrow> bool) \<Rightarrow> ('a sst_scheme \<Rightarrow> bool) \<Rightarrow> nat \<Rightarrow> ('x, 'a, wait_result) sprog"
where
  "wait_signal p q c = atom (\<lambda>e s.
     case e of
       Chan \<Rightarrow> if p s then Some (s, First) else None
     | Sig \<Rightarrow> if q s then Some (s, Second) else None
     | CtxDone \<Rightarrow> map_option (\<lambda>x. (s, CtxCause (snd x))) (ctxs s c)
     | _ \<Rightarrow> None)"

lemma wp_wait_signal: "(\<And>r. Q r h) \<Longrightarrow> wps l g Q (wait_signal p q c) h"
  unfolding wait_signal_def by (rule wp_frame) (auto split: ev.splits if_splits)

lemma wp_wait_settled:
  assumes "\<And>s :: 'a sst_scheme. swf l g s \<Longrightarrow> p s \<or> q s \<Longrightarrow> settled (slife s)"
    "\<And>c. Q (CtxCause c) h" "Q First (h(Settled := 1))" "Q Second (h(Settled := 1))"
  shows "wps l g Q (wait_signal p q c :: ('x, 'a, wait_result) sprog) h"
  unfolding wait_signal_def
proof (rule wp_learn)
  fix e :: "'x ev" and s s' :: "'a sst_scheme" and r
  assume a: "swf l g s" "(case e of
       Chan \<Rightarrow> if p s then Some (s, First) else None
     | Sig \<Rightarrow> if q s then Some (s, Second) else None
     | CtxDone \<Rightarrow> map_option (\<lambda>x. (s, CtxCause (snd x))) (ctxs s c)
     | _ \<Rightarrow> None) = Some (s', r)"
  have "s' = s \<and> (Q r h \<or> own s Settled = 1 \<and> Q r (h(Settled := 1)))"
    using a(2) assms(1) [OF a(1)] assms(2-4) by (auto split: ev.splits if_splits)
  then show "s' = s \<and> (Q r h \<or> (\<exists>k. known k \<and> own s k = 1 \<and> Q r (h(k := 1))))"
    using known.simps(2) by blast
qed

text \<open>A call on the connection that returns \<open>f x\<close>.\<close>

definition io_call :: "('x \<Rightarrow> 'r option) \<Rightarrow> ('x, 'a, 'r) sprog" where
  "io_call f = atom (\<lambda>e s. case e of Io x \<Rightarrow> map_option (Pair s) (f x) | _ \<Rightarrow> None)"

lemma wp_io_call: "(\<And>x r. f x = Some r \<Longrightarrow> Q r h) \<Longrightarrow> wps l g Q (io_call f) h"
proof -
  assume a: "\<And>x r. f x = Some r \<Longrightarrow> Q r h"
  show "wps l g Q (io_call f) h"
    unfolding io_call_def by (rule wp_frame) (use a in \<open>auto split: ev.splits\<close>)
qed

text \<open>The rules that move nothing, the same for every session.\<close>

lemmas wp_neutral = wp_bind wp_ctx_cause wp_cancel_ctx wp_isClosing wp_get_err wp_bump wp_call_out
  wp_markWriterDrained wp_shut_gate wp_await_ack wp_poll_ack wp_cause_or wp_err_or wp_wait_signal
  wp_io_call

section \<open>What the invariant says of a session\<close>

lemma keeps_trans: "keeps s s' \<Longrightarrow> keeps s' s'' \<Longrightarrow> keeps s s''"
  using prefix_order.trans [of "enq s" "enq s'" "enq s''"] prefix_order.trans [of "written s" "written s'" "written s''"]
  by (simp add: keeps_def)

lemma prefix_upt:
  assumes "xs @ ys = [0..<n]"
  shows "xs = [0..<length xs] \<and> length xs \<le> n"
proof -
  have n: "length xs \<le> n" using arg_cong [OF assms, of length] by simp
  have "xs = take (length xs) [0..<n]" using arg_cong [OF assms, of "take (length xs)"] by simp
  also have "\<dots> = [0..<length xs]" using n by (simp add: take_upt)
  finally show ?thesis using n by simp
qed

lemma written_order:
  assumes "swf l g s"
  shows "written s = [0..<length (written s)] \<and> length (written s) \<le> length (enq s)"
proof -
  obtain zs where "taken s = written s @ zs" "taken s @ map rid (queue s) = [0..<length (enq s)]"
    using assms by (auto simp: swf_def ids_wf_def prefix_def)
  then show ?thesis using prefix_upt [of "written s" "zs @ map rid (queue s)"] by simp
qed

lemma flushed_all: "swf l g s \<Longrightarrow> flushed s \<Longrightarrow> written s = [0..<length (enq s)] \<and> gclosed (gate s) \<and> gactive (gate s) = 0"
  by (auto simp: swf_def ids_wf_def mode_wf_def gate_wf_def)

lemma session_done: "swf l g s \<Longrightarrow> sdone s \<Longrightarrow> queue s = [] \<and> gclosed (gate s) \<and> gactive (gate s) = 0"
  by (cases "wmode s") (auto simp: swf_def close_wf_def mode_wf_def gate_wf_def)

lemma session_idle:
  assumes "swf l g s" and "\<And>k. \<not> known k \<Longrightarrow> own s k = 0"
  shows "slots s = 0" "encs s = 0" "qused (quota s) = 0" "gactive (gate s) = 0" "queue s = []"
    "r < length (acks s) \<Longrightarrow> acks s ! r \<noteq> AckEmpty"
proof -
  have "wmode s = WEnd" using assms(2) [of "Mode (wmode s)"] by (simp split: if_splits)
  then show q: "queue s = []" using mode_of [OF assms(1)] by (simp add: mode_wf_def)
  show "slots s = 0" "encs s = 0" "qused (quota s) = 0" "gactive (gate s) = 0"
    using q assms(2) [of Slot] assms(2) [of Enc] assms(2) [of Bytes] assms(2) [of Inside] by (simp_all add: load_def)
  show "r < length (acks s) \<Longrightarrow> acks s ! r \<noteq> AckEmpty"
    using q assms(2) [of "Ack r"] assms(2) [of "Wrote r"] by (auto simp: pending_def split: if_splits)
qed

section \<open>What the sessions' proofs share\<close>

lemma none_upd [simp]: "none(k := 0) = none"
  by auto

lemma none_one [simp]: "none(k := 1) \<noteq> none"
  by (metis fun_upd_same zero_neq_one)

lemma mode_switch:
  assumes "m \<noteq> m'"
  shows "switch m m' (none(Mode m := 1)) = none(Mode m' := 1)"
  using assms by (auto simp: fun_eq_iff)

lemma new_session_wf:
  assumes "0 \<le> maxQueued" "2 * maxQueued \<le> max_int64" "ls WriterLoop"
  shows "swf l g (new_session ls wq maxQueued ext)"
  using assms
  by (auto simp: swf_def new_session_def quota_wf_def newByteQuota_def gate_wf_def newSendGate_def ids_wf_def
      acks_wf_def mode_wf_def close_wf_def life_wf_def newSessionLifecycle_def)

lemma new_session_own: "own (new_session ls wq maxQueued ext) = none(Mode WIdle := 1)"
  by (simp only: fun_eq_iff all_res)
     (auto simp: new_session_def newByteQuota_def newSendGate_def load_def pending_def settled_def newSessionLifecycle_def)

text \<open>When the end is decided and there is neither a terminal error nor an abort, the queue was flushed.\<close>

definition told :: "gerr option \<Rightarrow> res holding \<Rightarrow> bool" where
  "told r h \<longleftrightarrow> (\<forall>k. \<not> known k \<longrightarrow> h k = 0) \<and> (\<forall>k. 0 \<le> h k) \<and> (r = None \<longrightarrow> 1 \<le> h Flushed)"

lemma abort_signal: "swf True g s \<Longrightarrow> signalled (slife s) writeCh \<or> signalled (slife s) abortCh \<Longrightarrow> settled (slife s)"
  using swf_life [of g s] by (auto simp: life_wf_def settled_def)

end
