(* ===== verification/Stream_Session.thy ===== *)
theory Stream_Session
  imports Session_Core Stream_IO
begin

text \<open>
  The stream session (\<^verbatim>\<open>transport/conn.go\<close>, \<^verbatim>\<open>transport/admission.go\<close>,
  \<^verbatim>\<open>transport/stream_graceful.go\<close>): each method and each goroutine is a program over the actions of
  \<open>Session_Core\<close>, with the early returns and deferred calls of the source. A session is started with
  its writer, reader, activity and finalizer goroutines; any number of calls of \<^verbatim>\<open>Send\<close>, \<^verbatim>\<open>TrySend\<close>,
  \<^verbatim>\<open>Close\<close>, \<^verbatim>\<open>CloseWrite\<close> and \<^verbatim>\<open>Shutdown\<close> run beside them.
\<close>

section \<open>The connection and its parameters\<close>

record conn_cfg = session_env +
  cEncode :: "rng \<Rightarrow> Message \<Rightarrow> gerr + bytes"
  cDecode :: framer
  wireFramer :: bool
  cKind :: stream_kind
  protocolName :: string
  readSize :: int
  maxRead :: int
  readIdle :: int

text \<open>
  What the calls outside the session return: the random source used by an encoding, a write, a write
  half-close, and a read with the results of setting and clearing its deadline.
\<close>

datatype conn_io = IoRand rng | IoWrite write_io | IoCloseWrite close_io
  | IoRead "gerr option" bytes "gerr option" "gerr option" | IoExpire TimeoutKind

type_synonym 'r cprog = "(conn_io, unit, 'r) sprog"

section \<open>Admission\<close>

definition acquireFrameSlot :: "nat \<Rightarrow> gerr option cprog" where
  "acquireFrameSlot c = acquire_chan slot_room slot_put c"

definition tryAcquireFrameSlot :: "gerr option cprog" where
  "tryAcquireFrameSlot = try_chan slot_room slot_put"

definition releaseFrameSlot :: "unit cprog" where
  "releaseFrameSlot = release_slot"

definition releaseEncoder :: "unit cprog" where
  "releaseEncoder = release_enc"

text \<open>A slot taken while the session closes is given back.\<close>

definition closed_recheck :: "gerr option \<Rightarrow> gerr option cprog" where
  "closed_recheck r =
     (case r of
        Some err \<Rightarrow> Ret (Some err)
      | None \<Rightarrow> bind isClosing (\<lambda>b. if b then seq releaseEncoder (Ret (Some (Sentinel ErrClosed))) else Ret None))"

definition acquireEncoder :: "nat \<Rightarrow> gerr option cprog" where
  "acquireEncoder c = bind (acquire_chan enc_room enc_put c) closed_recheck"

definition tryAcquireEncoder :: "gerr option cprog" where
  "tryAcquireEncoder = bind (try_chan enc_room enc_put) closed_recheck"

definition encode :: "conn_cfg \<Rightarrow> Message \<Rightarrow> (gerr + bytes) cprog" where
  "encode cfg msg = io_call (\<lambda>x. case x of IoRand r \<Rightarrow> Some (cEncode cfg r msg) | _ \<Rightarrow> None)"

definition prepareSend :: "conn_cfg \<Rightarrow> nat \<Rightarrow> Message \<Rightarrow> (gerr + bytes) cprog" where
  "prepareSend cfg c msg =
     bind (acquireFrameSlot c) (\<lambda>r. case r of
       Some err \<Rightarrow> Ret (Inl err)
     | None \<Rightarrow> bind (acquireEncoder c) (\<lambda>r. case r of
         Some err \<Rightarrow> seq releaseFrameSlot (Ret (Inl err))
       | None \<Rightarrow> bind (encode cfg msg) (\<lambda>x. case x of
           Inl err \<Rightarrow> seq releaseEncoder (seq releaseFrameSlot (Ret (Inl err)))
         | Inr frame \<Rightarrow> bind (quota_acquire c (int (length frame))) (\<lambda>r. case r of
             Some err \<Rightarrow> seq releaseEncoder (seq releaseFrameSlot (Ret (Inl err)))
           | None \<Rightarrow> seq releaseEncoder (Ret (Inr frame))))))"

definition prepareTrySend :: "conn_cfg \<Rightarrow> Message \<Rightarrow> (gerr + bytes) cprog" where
  "prepareTrySend cfg msg =
     bind tryAcquireFrameSlot (\<lambda>r. case r of
       Some err \<Rightarrow> Ret (Inl err)
     | None \<Rightarrow> bind tryAcquireEncoder (\<lambda>r. case r of
         Some err \<Rightarrow> seq releaseFrameSlot (Ret (Inl err))
       | None \<Rightarrow> bind (encode cfg msg) (\<lambda>x. case x of
           Inl err \<Rightarrow> seq releaseEncoder (seq releaseFrameSlot (Ret (Inl err)))
         | Inr frame \<Rightarrow> bind (quota_try (int (length frame))) (\<lambda>r. case r of
             Some err \<Rightarrow> seq releaseEncoder (seq releaseFrameSlot (Ret (Inl err)))
           | None \<Rightarrow> seq releaseEncoder (Ret (Inr frame))))))"

section \<open>Sending\<close>

definition closedError :: "conn_cfg \<Rightarrow> gerr option" where
  "closedError cfg = operationalError cfg OpSend (Some (Sentinel ErrClosed)) hintNone"

definition sendError :: "conn_cfg \<Rightarrow> nat \<Rightarrow> gerr \<Rightarrow> gerr option cprog" where
  "sendError cfg c err = cause_or c (Ret (operationalError cfg OpSend (Some err) hintNone))"

definition conn_request :: "bool \<Rightarrow> Message \<Rightarrow> bytes \<Rightarrow> outbound" where
  "conn_request ack msg frame =
     \<lparr>rid = 0, otyp = 0, oframe = frame, oack = ack, obytes = int (length frame), opayload = int (length (msgData msg)),
      odest = None\<rparr>"

text \<open>Waiting for the outcome of a queued request.\<close>

definition awaitOutcome :: "conn_cfg \<Rightarrow> nat \<Rightarrow> nat \<Rightarrow> gerr option cprog" where
  "awaitOutcome cfg c r =
     bind (await_ack c r) (\<lambda>a. case a of
       AVal v \<Rightarrow> Ret v
     | ACtx cause \<Rightarrow> Ret (Some cause)
     | AClosing \<Rightarrow> bind (poll_ack r) (\<lambda>p. case p of
         Some v \<Rightarrow> Ret v
       | None \<Rightarrow> cause_or c (err_or (closedError cfg))))"

definition Send :: "conn_cfg \<Rightarrow> nat option \<Rightarrow> Message \<Rightarrow> gerr option cprog" where
  "Send cfg ctx msg =
     (case ctx of
        None \<Rightarrow> Ret (Some (Sentinel ErrNilContext))
      | Some c \<Rightarrow> cause_or c (bind enter (\<lambda>ok.
          if \<not> ok then Ret (closedError cfg) else
          after
            (case Validate msg of
               Some err \<Rightarrow> Ret (Some err)
             | None \<Rightarrow> bind (prepareSend cfg c msg) (\<lambda>x. case x of
                 Inl err \<Rightarrow> sendError cfg c err
               | Inr frame \<Rightarrow> bind (enqueue c (conn_request True msg frame)) (\<lambda>q. case q of
                   QCtx cause \<Rightarrow> seq (give_back (int (length frame))) (Ret (Some cause))
                 | QClosing \<Rightarrow> seq (give_back (int (length frame))) (cause_or c (Ret (closedError cfg)))
                 | QSent r \<Rightarrow> awaitOutcome cfg c r
                 | QFull \<Rightarrow> Ret None)))
            leave)))"

definition backpressureEvent :: "gerr option \<Rightarrow> unit cprog" where
  "backpressureEvent opErr = seq (bump Backpressure 1) (call_out (Observe EventBackpressure 0 opErr))"

definition TrySend :: "conn_cfg \<Rightarrow> Message \<Rightarrow> gerr option cprog" where
  "TrySend cfg msg = bind enter (\<lambda>ok.
     if \<not> ok then Ret (closedError cfg) else
     after
       (case Validate msg of
          Some err \<Rightarrow> Ret (Some err)
        | None \<Rightarrow> bind (prepareTrySend cfg msg) (\<lambda>x. case x of
            Inl err \<Rightarrow>
              (let opErr = operationalError cfg OpSend (Some err) hintNone in
               seq (if errors_is err ErrWouldBlock then backpressureEvent opErr else Ret ()) (Ret opErr))
          | Inr frame \<Rightarrow> bind (try_enqueue (conn_request False msg frame)) (\<lambda>q. case q of
              QClosing \<Rightarrow> seq (give_back (int (length frame))) (Ret (closedError cfg))
            | QSent r \<Rightarrow> Ret None
            | QFull \<Rightarrow>
                (let opErr = operationalError cfg OpSend (Some (Sentinel ErrWouldBlock)) hintNone in
                 seq (give_back (int (length frame))) (seq (backpressureEvent opErr) (Ret opErr)))
            | QCtx cause \<Rightarrow> Ret None)))
       leave)"

section \<open>Closing\<close>

definition abort :: "abortReason \<Rightarrow> gerr option \<Rightarrow> bool cprog" where
  "abort reason cause =
     (let cause' = (case cause of
            None \<Rightarrow> None
          | Some e \<Rightarrow> if errors_as is_Error e = None then normalizeConnError (Some e) else Some e)
      in bind (abort_with reason cause') (\<lambda>won.
           if \<not> won then Ret False else seq (close_body None) (Ret True)))"

definition initiateClose :: "gerr option \<Rightarrow> unit cprog" where
  "initiateClose cause = seq (abort abortFailure cause) (Ret ())"

definition closeConn :: "gerr option cprog" where
  "closeConn = bind (atom (\<lambda>e s. Some (s, sdone s))) (\<lambda>d.
     if d then Ret None else seq (abort abortExplicit None) (Ret None))"

definition lifecycleResult :: "gerr option cprog" where
  "lifecycleResult = bind get_err (\<lambda>t. case t of
     Some e \<Rightarrow> Ret (Some e)
   | None \<Rightarrow> bind (life_op (\<lambda>x. (why x, x))) (\<lambda>r.
       Ret (if r = abortNone then None else Some (Sentinel ErrClosed))))"

definition maybeFinishGraceful :: "unit cprog" where
  "maybeFinishGraceful =
     bind (life_op (\<lambda>x. (signalled x readCh, x))) (\<lambda>r.
     if \<not> r then Ret () else
     bind (life_op (\<lambda>x. (signalled x writeCh, x))) (\<lambda>w.
     if \<not> w then Ret () else
     bind (life_op tryMarkTerminal) (\<lambda>won.
     if \<not> won then Ret () else close_body None)))"

definition requestClose :: "closeGoal \<Rightarrow> (bool \<times> closeGoal) cprog" where
  "requestClose g = bind (life_op (\<lambda>x. requestWithPrevious x g)) (\<lambda>r.
     seq (if fst r then shut_gate else Ret ()) (Ret r))"

definition requestWriteClose :: "bool cprog" where
  "requestWriteClose = bind (requestClose closeGoalWrite) (\<lambda>r. Ret (fst r))"

definition requestShutdown :: "(bool \<times> bool) cprog" where
  "requestShutdown = bind (requestClose closeGoalFull) (\<lambda>r. Ret (fst r, snd r = closeGoalRunning))"

text \<open>The owner of a request that is cancelled aborts the session.\<close>

definition cancelRequest :: "bool \<Rightarrow> gerr \<Rightarrow> gerr option cprog" where
  "cancelRequest owner cause =
     seq (if owner then seq (abort abortCaller None) (Ret ()) else Ret ()) (Ret (Some cause))"

definition CloseWrite :: "nat option \<Rightarrow> gerr option cprog" where
  "CloseWrite ctx =
     (case ctx of
        None \<Rightarrow> Ret (Some (Sentinel ErrNilContext))
      | Some c \<Rightarrow> cause_or c (bind requestWriteClose (\<lambda>owner.
          bind (wait_signal (\<lambda>s. signalled (slife s) writeCh) (\<lambda>s. signalled (slife s) abortCh) c) (\<lambda>w. case w of
            First \<Rightarrow> lifecycleResult
          | Second \<Rightarrow> lifecycleResult
          | CtxCause cause \<Rightarrow> cancelRequest owner cause))))"

definition Shutdown :: "nat option \<Rightarrow> gerr option cprog" where
  "Shutdown ctx =
     (case ctx of
        None \<Rightarrow> Ret (Some (Sentinel ErrNilContext))
      | Some c \<Rightarrow> cause_or c (bind requestShutdown (\<lambda>(owner, ownsWrite).
          bind (wait_signal (\<lambda>s. signalled (slife s) writeCh) (\<lambda>s. signalled (slife s) abortCh) c) (\<lambda>w. case w of
            Second \<Rightarrow> lifecycleResult
          | CtxCause cause \<Rightarrow> cancelRequest (owner \<and> ownsWrite) cause
          | First \<Rightarrow>
              bind (wait_signal sdone (\<lambda>s. signalled (slife s) abortCh) c) (\<lambda>w. case w of
                First \<Rightarrow> lifecycleResult
              | Second \<Rightarrow> lifecycleResult
              | CtxCause cause \<Rightarrow> cancelRequest owner cause)))))"

section \<open>The writer\<close>

definition handleOutbound :: "conn_cfg \<Rightarrow> bool \<Rightarrow> outbound \<Rightarrow> bool cprog" where
  "handleOutbound cfg draining req =
     bind (do_write (\<lambda>x. case x of IoWrite w \<Rightarrow> map_option fst (writeFrame (oframe req) w) | _ \<Rightarrow> None)
             (\<lambda>err. err = None) draining req) (\<lambda>err.
     seq (give_back (obytes req))
       (case err of
          None \<Rightarrow>
            seq (bump BytesTX (of_int (opayload req))) (seq (bump MessagesTX 1)
              (seq (call_out (Observe EventWrite (of_int (opayload req)) None))
                (seq (send_ack req None) (Ret True))))
        | Some e \<Rightarrow>
            (let opErr = operationalError cfg OpWrite (Some e) hintNone in
             bind (abort abortFailure opErr) (\<lambda>won.
               bind (if won then Ret opErr else err_or (Some (Sentinel ErrClosed))) (\<lambda>sendErr.
                 seq (send_ack req sendErr) (Ret False))))))"

text \<open>One iteration of \<^verbatim>\<open>failPending\<close>; \<open>False\<close> when the queue is empty.\<close>

definition failPending :: "conn_cfg \<Rightarrow> bool cprog" where
  "failPending cfg = bind select_fail (\<lambda>r. case r of
     None \<Rightarrow> Ret False
   | Some req \<Rightarrow> seq (give_back (obytes req)) (seq (send_ack req (closedError cfg)) (Ret True)))"

section \<open>The reader\<close>

function decodeLoop :: "conn_cfg \<Rightarrow> bytes \<Rightarrow> bytes option cprog" where
  "decodeLoop cfg rem =
     (if rem = [] then Ret (Some [])
      else case decode_step (cDecode cfg) (wireFramer cfg) rem of
             NeedMore \<Rightarrow> Ret (Some rem)
           | BadFrame err hint \<Rightarrow>
               seq (bump DecodeErrors 1)
                 (seq (initiateClose (operationalError cfg OpRead (Some err) hint)) (Ret None))
           | Deliver msg n \<Rightarrow>
               seq (bump BytesRX (of_nat (length (msgData msg)))) (seq (bump MessagesRX 1)
                 (seq (call_out (Observe EventRead (of_nat (length (msgData msg))) None))
                   (seq (call_out (OnMessage msg))
                     (bind isClosing (\<lambda>b. if b then Ret None else decodeLoop cfg (drop n rem)))))))"
  by pat_completeness auto
termination
  by (relation "measure (\<lambda>(cfg, rem). length rem)") (auto dest: decode_step_Deliver)

declare decodeLoop.simps [simp del]

text \<open>
  One iteration of \<^verbatim>\<open>readerLoop\<close> on the pending bytes; the result is the next pending bytes, or \<open>None\<close>
  when the loop returns. \<^verbatim>\<open>Read\<close> returns \<open>data\<close> with an error that may be nil.
\<close>

definition readError :: "conn_cfg \<Rightarrow> gerr \<Rightarrow> unit cprog" where
  "readError cfg e =
     bind isClosing (\<lambda>b.
       if b then Ret ()
       else if readIdle cfg > 0 \<and> isTimeoutFailure e
         then initiateClose (operationalError cfg OpRead (Some (TimeoutErr TimeoutReadIdle (Some e))) hintNone)
       else case normalizeConnError (Some e) of
              Some n \<Rightarrow> initiateClose (operationalError cfg OpRead (Some n) hintNone)
            | None \<Rightarrow> seq (life_op (\<lambda>x. ((), markReadClosed x))) maybeFinishGraceful)"

definition after_read :: "conn_cfg \<Rightarrow> gerr option \<Rightarrow> bytes \<Rightarrow> bytes option cprog" where
  "after_read cfg readErr rest =
     (case readErr of
        Some e \<Rightarrow> seq (readError cfg e) (Ret None)
      | None \<Rightarrow> bind isClosing (\<lambda>b. Ret (if b then None else Some rest)))"

definition readerIteration :: "conn_cfg \<Rightarrow> bytes \<Rightarrow> bytes option cprog" where
  "readerIteration cfg buf =
     bind (io_call (\<lambda>x. case x of IoRead d1 data rerr d2 \<Rightarrow> Some (d1, data, rerr, d2) | _ \<Rightarrow> None))
       (\<lambda>(d1, data, rerr, d2).
     if readIdle cfg > 0 \<and> d1 \<noteq> None then
       seq (initiateClose (operationalError cfg OpRead
              (map_option (FmtErrorf ''transport: set read deadline: '') d1) hintNone)) (Ret None)
     else if readIdle cfg > 0 \<and> d2 \<noteq> None \<and> rerr = None then
       seq (initiateClose (operationalError cfg OpRead
              (map_option (FmtErrorf ''transport: clear read deadline: '') d2) hintNone)) (Ret None)
     else if data = [] then after_read cfg rerr buf
     else
       bind (decodeLoop cfg (buf @ data)) (\<lambda>r. case r of
         None \<Rightarrow> Ret None
       | Some rest \<Rightarrow>
           if int (length rest) > maxRead cfg then
             seq (bump DecodeErrors 1)
               (seq (initiateClose (operationalError cfg OpRead (Some (Sentinel ErrReadBufferFull)) hintNone)) (Ret None))
           else
             after_read cfg (case rerr of Some e \<Rightarrow> if isTimeoutFailure e then None else Some e | None \<Rightarrow> None) rest))"

section \<open>The goroutines\<close>

definition finalize :: "unit cprog" where
  "finalize = bind final_begin (\<lambda>first.
     if \<not> first then Ret () else
     seq (bind (life_op (\<lambda>x. (signalled x termCh, x))) (\<lambda>t.
            if t then Ret () else
            seq (bind isClosing (\<lambda>b. if b then Ret () else initiateClose None))
              (life_op (\<lambda>x. ((), markTerminal x)))))
       (bind get_err (\<lambda>err.
          seq (call_out (Observe EventClose 0 err)) (seq (call_out (OnClose err)) close_done))))"

text \<open>
  The loops of the session's goroutines by their iterations, and the calls a client makes.
\<close>

datatype clabel = LWriter | LGraceful | LDrain | LExit | LFail
  | LOpen | LRead bytes | LActivity | LFinalize
  | LSend "nat option" Message | LTrySend Message | LClose | LCloseWrite "nat option" | LShutdown "nat option"
  | LCancel nat gerr gerr | LReturned closeGoal "gerr option"

definition reader_end :: "clabel option cprog" where
  "reader_end = seq (loop_done ReaderLoop) (Ret None)"

text \<open>\<^verbatim>\<open>activity.run\<close> returns when the session closes, or calls back with the kind that expired.\<close>

definition activity_wait :: "TimeoutKind option cprog" where
  "activity_wait = atom (\<lambda>e s. case e of
       Closing \<Rightarrow> if closing s then Some (s, None) else None
     | Io (IoExpire k) \<Rightarrow> Some (s, Some k)
     | _ \<Rightarrow> None)"

fun conn_body :: "conn_cfg \<Rightarrow> clabel \<Rightarrow> clabel option cprog" where
  "conn_body cfg LWriter =
     bind (select_running (\<lambda>s. signalled (slife s) writeReq)) (\<lambda>w. case w of
       WClosing \<Rightarrow> Ret (Some LExit)
     | WDrain \<Rightarrow> Ret (Some LGraceful)
     | WReq req \<Rightarrow> bind (handleOutbound cfg False req) (\<lambda>ok. Ret (Some (if ok then LWriter else LExit)))
     | _ \<Rightarrow> Ret None)"
| "conn_body cfg LGraceful =
     bind select_graceful (\<lambda>w. case w of
       WClosing \<Rightarrow> Ret (Some LExit)
     | WGateDone \<Rightarrow> Ret (Some LDrain)
     | WReq req \<Rightarrow> bind (handleOutbound cfg False req) (\<lambda>ok. Ret (Some (if ok then LGraceful else LExit)))
     | _ \<Rightarrow> Ret None)"
| "conn_body cfg LDrain =
     bind select_drain (\<lambda>w. case w of
       WReq req \<Rightarrow> bind (handleOutbound cfg True req) (\<lambda>ok. Ret (Some (if ok then LDrain else LExit)))
     | WEmpty \<Rightarrow>
         bind (io_call (\<lambda>x. case x of
             IoCloseWrite y \<Rightarrow> Some (closeProtocolWrite (protocolName cfg) (cKind cfg) y) | _ \<Rightarrow> None)) (\<lambda>err. case err of
           Some e \<Rightarrow> seq (initiateClose (operationalError cfg OpClose (Some e) hintNone)) (Ret (Some LExit))
         | None \<Rightarrow>
             seq (life_op (\<lambda>x. ((), markWriteClosed x)))
               (seq markWriterDrained (seq maybeFinishGraceful (Ret (Some LExit)))))
     | _ \<Rightarrow> Ret None)"
| "conn_body cfg LExit = seq wait_gate (Ret (Some LFail))"
| "conn_body cfg LFail = bind (failPending cfg) (\<lambda>more.
     if more then Ret (Some LFail) else seq markWriterDrained (seq (loop_done WriterLoop) (Ret None)))"
| "conn_body cfg LOpen = seq (call_out OnOpen) (bind isClosing (\<lambda>b. if b then reader_end else Ret (Some (LRead []))))"
| "conn_body cfg (LRead buf) = bind (readerIteration cfg buf) (\<lambda>r. case r of
     Some rest \<Rightarrow> Ret (Some (LRead rest)) | None \<Rightarrow> reader_end)"
| "conn_body cfg LActivity =
     bind activity_wait (\<lambda>r.
     seq (case r of None \<Rightarrow> Ret () | Some k \<Rightarrow> initiateClose (Some (TimeoutErr k None)))
       (seq (loop_done ActivityLoop) (Ret None)))"
| "conn_body cfg LFinalize = seq finalize (Ret None)"
| "conn_body cfg (LSend ctx msg) = seq (Send cfg ctx msg) (Ret None)"
| "conn_body cfg (LTrySend msg) = seq (TrySend cfg msg) (Ret None)"
| "conn_body cfg LClose = seq closeConn (Ret None)"
| "conn_body cfg (LCloseWrite ctx) = bind (CloseWrite ctx) (\<lambda>err. Ret (Some (LReturned closeGoalWrite err)))"
| "conn_body cfg (LShutdown ctx) = bind (Shutdown ctx) (\<lambda>err. Ret (Some (LReturned closeGoalFull err)))"
| "conn_body cfg (LReturned g err) = Ret None"
| "conn_body cfg (LCancel c err cause) = seq (cancel_ctx c err cause) (Ret None)"

text \<open>The goroutines that \<^verbatim>\<open>start\<close> launches, and the calls that may arrive at any time.\<close>

definition conn_start :: "bool \<Rightarrow> clabel list" where
  "conn_start activity = [LWriter, LOpen] @ (if activity then [LActivity] else []) @ [LFinalize]"

definition conn_call :: "clabel \<Rightarrow> bool" where
  "conn_call l = (case l of LSend _ _ \<Rightarrow> True | LTrySend _ \<Rightarrow> True | LClose \<Rightarrow> True | LCloseWrite _ \<Rightarrow> True
     | LShutdown _ \<Rightarrow> True | LCancel _ _ _ \<Rightarrow> True | _ \<Rightarrow> False)"

definition conn_init :: "conn_cfg \<Rightarrow> (conn_io ev, sst, clabel) psys \<Rightarrow> bool" where
  "conn_init cfg sys \<longleftrightarrow> (\<exists>activity wq maxQueued. 0 \<le> maxQueued \<and> 2 * maxQueued \<le> max_int64 \<and>
     sys = \<lparr>pst = new_session (\<lambda>l. l = WriterLoop \<or> l = ReaderLoop \<or> l = ActivityLoop \<and> activity) wq maxQueued (),
            threads = map (conn_body cfg) (conn_start activity)\<rparr>)"

section \<open>The contract of the goroutines\<close>

text \<open>Every queued frame is the encoding of a valid message, with its length as its charge.\<close>

definition conn_good :: "conn_cfg \<Rightarrow> outbound \<Rightarrow> bool" where
  "conn_good cfg req \<longleftrightarrow> obytes req = int (length (oframe req))
     \<and> (\<exists>r m. Validate m = None \<and> cEncode cfg r m = Inr (oframe req) \<and> opayload req = int (length (msgData m)))"

definition conn_hold :: "clabel \<Rightarrow> res holding" where
  "conn_hold l =
     (case l of
        LWriter \<Rightarrow> none(Mode WIdle := 1)
      | LGraceful \<Rightarrow> none(Mode WIdle := 1)
      | LDrain \<Rightarrow> none(Mode WDraining := 1)
      | LExit \<Rightarrow> none(Mode WStopped := 1)
      | LFail \<Rightarrow> none(Mode WFailing := 1)
      | LReturned g err \<Rightarrow> if err = None then none(Flushed := 1) else none
      | _ \<Rightarrow> none)"

abbreviation wpc ::
  "conn_cfg \<Rightarrow> ('r \<Rightarrow> res holding \<Rightarrow> bool) \<Rightarrow> 'r cprog \<Rightarrow> res holding \<Rightarrow> bool"
where
  "wpc cfg \<equiv> wps True (conn_good cfg)"

lemma sized_conn [simp]: "sized (conn_good cfg)"
  by (simp add: sized_def conn_good_def)

text \<open>An abort that wins closes the session; after either outcome its end is decided.\<close>

lemma abort_settled:
  assumes "reason \<noteq> abortNone" "0 \<le> h Closer" "\<And>won. Q won (h(Settled := 1))"
  shows "wpc cfg Q (abort reason cause) h"
  unfolding abort_def Let_def using assms
  by (auto intro!: wp_neutral wp_abort_with wp_close_body)

lemma wp_abort:
  assumes "reason \<noteq> abortNone" "0 \<le> h Closer" "h Settled = 0" "\<And>won. Q won h"
  shows "wpc cfg Q (abort reason cause) h"
  unfolding abort_def Let_def using assms
  by (auto intro!: wp_neutral wp_abort_with wp_close_body simp: fun_upd_idem)

lemma wp_initiateClose:
  assumes "0 \<le> h Closer" "h Settled = 0" "Q () h"
  shows "wpc cfg Q (initiateClose cause) h"
  unfolding initiateClose_def using assms by (auto intro!: wp_neutral wp_abort)

lemma initiateClose_settled: "0 \<le> h Closer \<Longrightarrow> Q () (h(Settled := 1)) \<Longrightarrow> wpc cfg Q (initiateClose cause) h"
  unfolding initiateClose_def by (auto intro!: wp_neutral abort_settled)

lemma wp_acquireEncoder:
  assumes "Q None (add Enc 1 h)" and "\<And>err. Q (Some err) h" and "0 \<le> h Enc"
  shows "wpc cfg Q (acquireEncoder c) h" "wpc cfg Q tryAcquireEncoder h"
  unfolding acquireEncoder_def tryAcquireEncoder_def closed_recheck_def releaseEncoder_def using assms
  by (auto intro!: wp_neutral wp_acquire_enc wp_release_enc split: option.splits)

lemma wp_frameSlot:
  assumes "Q None (add Slot 1 h)" and "\<And>err. Q (Some err) h"
  shows "wpc cfg Q (acquireFrameSlot c) h" "wpc cfg Q tryAcquireFrameSlot h"
  unfolding acquireFrameSlot_def tryAcquireFrameSlot_def using assms by (simp_all only: wp_acquire_slot)

lemma wp_prepareSend:
  assumes "Validate msg = None" "0 \<le> h Enc" "0 \<le> h Slot" "0 \<le> h Bytes" "\<And>err. Q (Inl err) h"
    "\<And>frame r. cEncode cfg r msg = Inr frame \<Longrightarrow> Q (Inr frame) (add Bytes (int (length frame)) (add Slot 1 h))"
  shows "wpc cfg Q (prepareSend cfg c msg) h" "wpc cfg Q (prepareTrySend cfg msg) h"
  unfolding prepareSend_def prepareTrySend_def encode_def releaseFrameSlot_def releaseEncoder_def using assms
  by (auto intro!: wp_neutral wp_frameSlot wp_acquireEncoder wp_release_slot wp_release_enc wp_quota_acquire
      simp: fun_upd_twist fun_upd_idem split: option.splits sum.splits conn_io.splits)

lemma wp_awaitOutcome: "(\<And>r. Q r h) \<Longrightarrow> wpc cfg Q (awaitOutcome cfg' c r) h"
  unfolding awaitOutcome_def by (auto intro!: wp_neutral split: ares.splits option.splits)

lemma wp_sendError: "(\<And>r. Q r h) \<Longrightarrow> wpc cfg Q (sendError cfg' c err) h"
  unfolding sendError_def by (auto intro!: wp_neutral)

lemma good_request:
  "Validate msg = None \<Longrightarrow> cEncode cfg r msg = Inr frame \<Longrightarrow> conn_good cfg ((conn_request ack msg frame)\<lparr>rid := i\<rparr>)"
  by (auto simp: conn_good_def conn_request_def)

lemma request_bytes [simp]: "obytes (conn_request ack msg frame) = int (length frame)"
  by (simp add: conn_request_def)

text \<open>A call of \<^verbatim>\<open>Send\<close> or \<^verbatim>\<open>TrySend\<close> returns with nothing in its hands.\<close>

lemma wp_Send: "wpc cfg (\<lambda>r h. h = none) (Send cfg ctx msg) none"
  unfolding Send_def
  by (auto intro!: wp_neutral wp_enter wp_leave wp_prepareSend wp_sendError wp_enqueue wp_give_back wp_awaitOutcome good_request
      simp: fun_upd_twist fun_upd_idem split: option.splits sum.splits qres.splits)

lemma wp_backpressure: "Q () h \<Longrightarrow> wpc cfg Q (backpressureEvent e) h"
  unfolding backpressureEvent_def by (auto intro!: wp_neutral)

lemma wp_TrySend: "wpc cfg (\<lambda>r h. h = none) (TrySend cfg msg) none"
  unfolding TrySend_def Let_def
  by (auto intro!: wp_neutral wp_enter wp_leave wp_prepareSend wp_enqueue wp_give_back wp_backpressure good_request
      simp: fun_upd_twist fun_upd_idem split: option.splits sum.splits qres.splits)

lemma wp_handleOutbound:
  assumes "conn_good cfg req" "Q True (none(Mode (idle_mode dr) := 1))" "Q False (none(Mode WStopped := 1))"
  shows "wpc cfg Q (handleOutbound cfg dr req) (grab req (none(Mode (busy dr (rid req)) := 1)))"
proof -
  have "0 \<le> obytes req" using assms(1) by (simp add: conn_good_def)
  with assms operationalError_Some show ?thesis
    unfolding handleOutbound_def Let_def
    by (auto intro!: wp_neutral wp_do_write wp_give_back wp_send_ack_ok wp_send_ack_err wp_abort
        simp: fun_upd_twist fun_upd_idem split: option.splits)
qed

lemma wp_maybeFinishGraceful:
  assumes "0 \<le> h Closer" "h Settled = 0" "Q () h" "Q () (h(WriteSig := 1))"
  shows "wpc cfg Q maybeFinishGraceful h"
  unfolding maybeFinishGraceful_def using assms
  by (auto intro!: wp_neutral wp_read_life [where f = "\<lambda>x. signalled x readCh"] wp_read_writeCh wp_tryMarkTerminal wp_close_body
      simp: fun_upd_twist fun_upd_idem)

lemma wp_decodeLoop: "0 \<le> h Closer \<Longrightarrow> h Settled = 0 \<Longrightarrow> (\<And>r. Q r h) \<Longrightarrow> wpc cfg Q (decodeLoop cfg' rem) h"
proof (induction cfg' rem rule: decodeLoop.induct)
  case (1 cfg' rem)
  then show ?case
    unfolding decodeLoop.simps [of cfg' rem]
    by (auto intro!: wp_neutral wp_initiateClose split: decode_step.splits)
qed

lemma wp_readerIteration:
  assumes "\<And>r. Q r none" "\<And>r. Q r (none(WriteSig := 1))"
  shows "wpc cfg Q (readerIteration cfg' buf) none"
  unfolding readerIteration_def after_read_def readError_def using assms
  by (auto intro!: wp_neutral wp_initiateClose wp_decodeLoop wp_markReadClosed wp_maybeFinishGraceful
      split: option.splits prod.splits)

lemma wp_finalize: "Q () none \<Longrightarrow> Q () (none(Settled := 1)) \<Longrightarrow> wpc cfg Q finalize none"
  unfolding finalize_def
  by (auto intro!: wp_bind wp_final_begin wp_read_termCh wp_isClosing_settled initiateClose_settled wp_markTerminal wp_close_done
      wp_get_err wp_call_out simp: fun_upd_idem fun_upd_twist)

lemma wp_lifecycleResult: "wpc cfg told lifecycleResult (none(Settled := 1))"
  unfolding lifecycleResult_def
  by (auto intro!: wp_neutral wp_read_why simp: told_def split: option.splits)

lemma wp_requestClose: "(\<And>r. Q r h) \<Longrightarrow> wpc cfg Q (requestClose g) h"
  unfolding requestClose_def by (auto intro!: wp_neutral wp_requested)

lemma wp_cancelRequest: "0 \<le> v \<Longrightarrow> wpc cfg told (cancelRequest owner cause) (none(Settled := v))"
  unfolding cancelRequest_def by (auto intro!: wp_neutral abort_settled simp: told_def)

lemma wp_CloseWrite: "wpc cfg told (CloseWrite ctx) none"
  unfolding CloseWrite_def requestWriteClose_def using wp_cancelRequest [of 0]
  by (auto intro!: wp_bind wp_cause_or wp_requestClose wp_wait_settled wp_lifecycleResult abort_signal
      simp: told_def split: option.splits)

lemma wp_Shutdown: "wpc cfg told (Shutdown ctx) none"
proof -
  let ?ab = "\<lambda>s :: sst. signalled (slife s) abortCh"
  have r: "wpc cfg told (case w of CtxCause cause \<Rightarrow> cancelRequest owner cause | _ \<Rightarrow> lifecycleResult) (none(Settled := 1))" for w owner
    using wp_lifecycleResult wp_cancelRequest [of 1] by (cases w) simp_all
  have "wpc cfg told (bind (wait_signal sdone ?ab c) (\<lambda>w. case w of
      First \<Rightarrow> lifecycleResult | Second \<Rightarrow> lifecycleResult | CtxCause cause \<Rightarrow> cancelRequest owner cause))
      (none(Settled := 1))" for c owner
    by (rule wp_bind, rule wp_wait_signal) (use r in simp)
  then show ?thesis
    unfolding Shutdown_def requestShutdown_def using wp_cancelRequest [of 0]
    by (auto intro!: wp_bind wp_cause_or wp_requestClose wp_wait_settled [where p = "\<lambda>s. signalled (slife s) writeCh"]
        wp_lifecycleResult abort_signal simp: told_def split: option.splits)
qed

lemma wp_closeConn: "wpc cfg (\<lambda>r h. h = none) closeConn none"
  unfolding closeConn_def
  by (rule wp_bind, rule wp_frame) (auto intro!: wp_bind wp_abort)

lemmas handle_running = wp_handleOutbound [where dr = False, simplified]
lemmas handle_draining = wp_handleOutbound [where dr = True, simplified]

lemma body_writer: "wpc cfg (next_hold known conn_hold) (conn_body cfg LWriter) (none(Mode WIdle := 1))"
  unfolding conn_body.simps
  by (rule wp_bind, rule wp_select_running, simp_all only: mode_switch writer_mode.distinct wres.case)
     (auto intro!: wp_bind handle_running simp: next_hold_def Let_def conn_hold_def)

lemma body_graceful: "wpc cfg (next_hold known conn_hold) (conn_body cfg LGraceful) (none(Mode WIdle := 1))"
  unfolding conn_body.simps
  by (rule wp_bind, rule wp_select_graceful, simp_all only: mode_switch writer_mode.distinct wres.case)
     (auto intro!: wp_bind handle_running simp: next_hold_def Let_def conn_hold_def)

lemma body_drain: "wpc cfg (next_hold known conn_hold) (conn_body cfg LDrain) (none(Mode WDraining := 1))"
  unfolding conn_body.simps
  by (rule wp_bind, rule wp_select_drain, simp_all only: mode_switch writer_mode.distinct wres.case)
     (auto intro!: wp_neutral handle_draining wp_initiateClose wp_markWriteClosed wp_maybeFinishGraceful
      simp: next_hold_def Let_def conn_hold_def split: option.splits)

lemma body_exit: "wpc cfg (next_hold known conn_hold) (conn_body cfg LExit) (none(Mode WStopped := 1))"
  unfolding conn_body.simps
  by (rule wp_bind, rule wp_wait_gate) (auto simp: next_hold_def Let_def conn_hold_def fun_eq_iff)

lemma body_fail: "wpc cfg (next_hold known conn_hold) (conn_body cfg LFail) (none(Mode WFailing := 1))"
proof -
  have "conn_good cfg req \<Longrightarrow> 0 \<le> obytes req" for req by (simp add: conn_good_def)
  with operationalError_Some show ?thesis
    unfolding conn_body.simps failPending_def closedError_def
    by (auto intro!: wp_neutral wp_select_fail wp_give_back wp_send_ack_err wp_writer_done
        simp: next_hold_def Let_def conn_hold_def fun_upd_twist fun_upd_idem split: option.splits)
qed

lemma wp_activity_wait: "(\<And>r. Q r h) \<Longrightarrow> wpc cfg Q activity_wait h"
  unfolding activity_wait_def by (rule wp_frame) (auto split: ev.splits conn_io.splits if_splits)

lemma returned_hold: "told r h \<Longrightarrow> next_hold known conn_hold (Some (LReturned g r)) h"
  by (auto simp: told_def next_hold_def Let_def conn_hold_def)

lemma reader_end_ok: "0 \<le> w \<Longrightarrow> wpc cfg (next_hold known conn_hold) reader_end (none(WriteSig := w))"
  unfolding reader_end_def by (auto intro!: wp_bind wp_loop_done simp: next_hold_def Let_def)

lemma body_rest:
  assumes "conn_hold l = none"
  shows "wpc cfg (next_hold known conn_hold) (conn_body cfg l) none"
proof (cases l)
  case LOpen
  then show ?thesis using reader_end_ok [of 0 cfg]
    by (auto intro!: wp_neutral simp: next_hold_def Let_def conn_hold_def)
next
  case (LRead buf)
  then show ?thesis using reader_end_ok [of 0 cfg] reader_end_ok [of 1 cfg]
    by (auto intro!: wp_bind wp_readerIteration simp: next_hold_def Let_def conn_hold_def split: option.splits)
next
  case LActivity
  then show ?thesis
    by (auto intro!: wp_neutral wp_activity_wait wp_initiateClose wp_loop_done simp: next_hold_def Let_def split: option.splits)
next
  case LFinalize
  then show ?thesis by (auto intro!: wp_bind wp_finalize simp: next_hold_def Let_def)
next
  case (LSend ctx msg)
  then show ?thesis by (auto intro!: wp_bind wp_mono [OF wp_Send] simp: next_hold_def Let_def)
next
  case (LTrySend msg)
  then show ?thesis by (auto intro!: wp_bind wp_mono [OF wp_TrySend] simp: next_hold_def Let_def)
next
  case LClose
  then show ?thesis by (auto intro!: wp_bind wp_mono [OF wp_closeConn] simp: next_hold_def Let_def)
next
  case (LCloseWrite ctx)
  then show ?thesis by (auto intro!: wp_bind wp_mono [OF wp_CloseWrite] returned_hold)
next
  case (LShutdown ctx)
  then show ?thesis by (auto intro!: wp_bind wp_mono [OF wp_Shutdown] returned_hold)
qed (use assms in \<open>auto intro!: wp_neutral simp: next_hold_def Let_def conn_hold_def split: if_splits\<close>)

lemma body_returned: "wpc cfg (next_hold known conn_hold) (conn_body cfg (LReturned g r)) (conn_hold (LReturned g r))"
  by (simp add: next_hold_def conn_hold_def)

interpretation conn_loops: session_loops "conn_body cfg" "Collect conn_call" conn_hold
    "swf True (conn_good cfg)" keeps known own "conn_init cfg" for cfg
proof
  fix l k
  show "wpc cfg (next_hold known conn_hold) (conn_body cfg l) (conn_hold l)"
    using body_writer body_graceful body_drain body_exit body_fail body_rest body_returned
    by (cases l) (simp_all only: conn_hold_def clabel.case)
  show "0 \<le> conn_hold l k" by (auto simp: conn_hold_def split: clabel.splits)
  show "l \<in> Collect conn_call \<Longrightarrow> conn_hold l = none" by (auto simp: conn_call_def conn_hold_def split: clabel.splits)
  show "keeps s s" for s :: sst by (rule keeps_refl)
  show "keeps s s' \<Longrightarrow> keeps s' s'' \<Longrightarrow> keeps s s''" for s s' s'' :: sst by (rule keeps_trans)
  show "known k \<Longrightarrow> 0 \<le> own s k" "known k \<Longrightarrow> keeps s s' \<Longrightarrow> own s k \<le> own s' k" for s s' :: sst
    by (cases k; simp add: keeps_def)+
next
  fix sys
  assume "conn_init cfg sys"
  then show "swf True (conn_good cfg) (pst sys) \<and> (\<exists>ls. threads sys = map (conn_body cfg) ls
      \<and> (\<forall>l \<in> set ls. \<forall>k. known k \<longrightarrow> conn_hold l k = 0)
      \<and> (\<forall>k. \<not> known k \<longrightarrow> own (pst sys) k = sum_list (map (\<lambda>l. conn_hold l k) ls)))"
    by (auto simp: conn_init_def new_session_wf new_session_own conn_start_def conn_hold_def
        intro!: exI [of _ "conn_start a" for a])
qed

section \<open>Correctness of the session\<close>

abbreviation conn_run :: "conn_cfg \<Rightarrow> (conn_io ev, sst, clabel) psys \<Rightarrow> bool" where
  "conn_run cfg \<equiv> reachable (conn_init cfg) (pstep (conn_body cfg) (Collect conn_call))"

text \<open>
  A run of a whole session: one message is sent, the write side is closed, the peer closes, and
  every goroutine returns.
\<close>

definition demo_conn :: conn_cfg where
  "demo_conn = \<lparr>splat = (\<lambda>_ _. None), sstatus = (\<lambda>_. 0), sprotocol = 1, slocal = None, sremote = None,
     cEncode = (\<lambda>_ m. Inr (msgData m)), cDecode = (\<lambda>_. Inl (Sentinel ErrClosed)), wireFramer = False, cKind = HalfCloser,
     protocolName = ''tcp'', readSize = 64, maxRead = 64, readIdle = 0\<rparr>"

definition demo_sys :: "(conn_io ev, sst, clabel) psys" where
  "demo_sys = \<lparr>pst = new_session (\<lambda>l. l = WriterLoop \<or> l = ReaderLoop \<or> l = ActivityLoop \<and> False) 1 8 (),
     threads = map (conn_body demo_conn) (conn_start False)\<rparr>"

definition demo_send :: "(conn_io ev, clabel) move list" where
  "demo_send = Go (LSend (Some 0) \<lparr>msgType = PayloadBinary, msgData = [7]\<rparr>)
     # map (Do 3) [Tau, Tau, Chan, Chan, Tau, Io (IoRand (\<lambda>_. Inr [])), Tau, Ok, Tau, Chan]
     @ map (Do 0) [Chan, Io (IoWrite \<lparr>wSetDeadline = None, wWrites = [(1, None)], wClearDeadline = None\<rparr>),
         Tau, Tau, Tau, Tau, Tau, Tau]
     @ [Loop 0, Do 3 Chan, Do 3 Tau]"

definition demo_close :: "(conn_io ev, clabel) move list" where
  "demo_close = Go (LCloseWrite (Some 0)) # map (Do 4) [Tau, Tau, Tau]
     @ [Do 0 Sig, Loop 0, Do 0 Sig, Loop 0, Do 0 Tau,
        Do 0 (Io (IoCloseWrite \<lparr>xSetDeadline = None, xCloseWrite = None, xClearDeadline = None\<rparr>)), Do 0 Tau, Do 0 Tau, Do 0 Tau,
        Do 4 Chan, Do 4 Tau, Do 4 Tau]"

definition demo_end :: "(conn_io ev, clabel) move list" where
  "demo_end = [Loop 4, Do 1 Tau, Do 1 Tau, Loop 1, Do 1 (Io (IoRead None [] (Some (Sentinel EOF)) None))]
     @ replicate 9 (Do 1 Tau) @ [Loop 0, Do 0 Tau, Loop 0, Do 0 Tau, Do 0 Tau, Do 0 Tau] @ replicate 6 (Do 2 Tau)"

lemma demo_closed:
  "map_option (\<lambda>c. (returned (threads c ! 4), length (threads c), length (enq (pst c)), acks (pst c)))
     (exec (conn_body demo_conn) conn_call (demo_send @ demo_close) demo_sys)
   = Some (Some (Some (LReturned closeGoalWrite None)), 5, 1, [AckTaken None])"
  by code_simp

lemma demo_ended:
  "map_option (\<lambda>c. (map returned (threads c), length (enq (pst c)), sdone (pst c)))
     (exec (conn_body demo_conn) conn_call (demo_send @ demo_close @ demo_end) demo_sys)
   = Some (replicate 5 (Some None), 1, True)"
  by code_simp

lemma demo_exec:
  assumes "exec (conn_body demo_conn) conn_call ms demo_sys = Some c"
  shows "conn_run demo_conn c"
proof (rule exec_reachable [OF assms], rule reach_init)
  show "conn_init demo_conn demo_sys"
    unfolding conn_init_def demo_sys_def by (intro exI [of _ False] exI [of _ 1] exI [of _ 8]) (simp add: max_int64_def)
qed

lemma demo_closed_run:
  obtains c where "conn_run demo_conn c" "Ret (Some (LReturned closeGoalWrite None)) \<in> set (threads c)"
    "length (enq (pst c)) = 1" "acks (pst c) = [AckTaken None]"
proof -
  obtain c where c: "exec (conn_body demo_conn) conn_call (demo_send @ demo_close) demo_sys = Some c"
    "returned (threads c ! 4) = Some (Some (LReturned closeGoalWrite None))" "length (threads c) = 5"
    "length (enq (pst c)) = 1" "acks (pst c) = [AckTaken None]"
    using demo_closed by auto
  have "threads c ! 4 \<in> set (threads c)" using c(3) by (intro nth_mem) simp
  then have "Ret (Some (LReturned closeGoalWrite None)) \<in> set (threads c)" using c(2) by (simp only: returned_iff)
  with that demo_exec [OF c(1)] c(4,5) show ?thesis by blast
qed

lemma demo_ended_run:
  obtains c where "conn_run demo_conn c" "set (threads c) \<subseteq> {Ret None}" "length (enq (pst c)) = 1" "sdone (pst c)"
proof -
  obtain c where c: "exec (conn_body demo_conn) conn_call (demo_send @ demo_close @ demo_end) demo_sys = Some c"
    "map returned (threads c) = replicate 5 (Some None)" "length (enq (pst c)) = 1" "sdone (pst c)"
    using demo_ended by auto
  with that demo_exec [OF c(1)] all_returned [OF c(2)] show ?thesis by blast
qed

text \<open>
  C3. However the calls and goroutines of a stream session interleave, no channel is closed twice and no
  outcome is sent twice, the frame slots stay within the write queue and its in-flight frame, one
  encoder runs at a time, the queued bytes stay within their limit, every admitted frame is the encoding
  of a valid message, and the frames are written in the order of their admission, none twice and none left out.
\<close>

theorem stream_send_path:
  assumes "conn_run cfg c"
  shows "\<not> fault (pst c)
     \<and> 0 \<le> slots (pst c) \<and> slots (pst c) \<le> int (wqueue (pst c)) + 1 \<and> length (queue (pst c)) \<le> wqueue (pst c)
     \<and> 0 \<le> encs (pst c) \<and> encs (pst c) \<le> 1
     \<and> 0 \<le> qused (quota (pst c)) \<and> qused (quota (pst c)) \<le> qlimit (quota (pst c))
     \<and> (\<forall>req \<in> set (enq (pst c)). conn_good cfg req)
     \<and> written (pst c) = [0..<length (written (pst c))] \<and> length (written (pst c)) \<le> length (enq (pst c))"
  using conn_loops.reachable_W [OF assms] written_order [OF conn_loops.reachable_W [OF assms]]
    conn_loops.own_nonneg [OF assms, of Slot] conn_loops.own_nonneg [OF assms, of Enc]
  by (simp add: swf_def quota_wf_def ids_wf_def)

theorem stream_send_path_witness:
  "\<exists>c. conn_run demo_conn c \<and> length (enq (pst c)) = 1 \<and> \<not> fault (pst c)
     \<and> written (pst c) = [0..<length (written (pst c))]"
  by (rule demo_closed_run) (use stream_send_path in blast)

text \<open>
  The outcome of a request is nil exactly when its frame was completely written.
\<close>

lemma stream_outcome:
  assumes "conn_run cfg c" "r < length (acks (pst c))"
    and "acks (pst c) ! r = AckFull v \<or> acks (pst c) ! r = AckTaken v"
  shows "v = None \<longleftrightarrow> r \<in> set (written (pst c))"
  using conn_loops.reachable_W [OF assms(1)] assms(2,3) by (auto simp: swf_def acks_wf_def)

text \<open>
  C6. When every goroutine and every call has returned, nothing leaks: no frame slot, no encoder, no
  queued byte, no sender inside the gate, no queued request; and every admitted request got its outcome.
\<close>

theorem stream_no_leak:
  assumes "conn_run cfg c" "set (threads c) \<subseteq> {Ret None}"
  shows "slots (pst c) = 0 \<and> encs (pst c) = 0 \<and> qused (quota (pst c)) = 0 \<and> gactive (gate (pst c)) = 0
     \<and> queue (pst c) = [] \<and> (\<forall>r < length (enq (pst c)). acks (pst c) ! r \<noteq> AckEmpty)"
  using session_idle [OF conn_loops.reachable_W [OF assms(1)] conn_loops.quiescent [OF assms]] conn_loops.reachable_W [OF assms(1)]
  by (auto simp: swf_def ids_wf_def)

theorem stream_no_leak_witness:
  "\<exists>c. conn_run demo_conn c \<and> set (threads c) \<subseteq> {Ret None} \<and> length (enq (pst c)) = 1
     \<and> slots (pst c) = 0 \<and> acks (pst c) ! 0 \<noteq> AckEmpty"
proof (rule demo_ended_run)
  fix c
  assume "conn_run demo_conn c" "set (threads c) \<subseteq> {Ret None}" "length (enq (pst c)) = 1"
  with stream_no_leak [of demo_conn c] show ?thesis by (intro exI [of _ c]) simp
qed

text \<open>
  C1. When \<^verbatim>\<open>CloseWrite\<close> or \<^verbatim>\<open>Shutdown\<close> returns nil, every message that was ever admitted has been completely
  written, in order, and no further one can be admitted.
\<close>

theorem stream_graceful:
  assumes "conn_run cfg c" "Ret (Some (LReturned g None)) \<in> set (threads c)"
  shows "written (pst c) = [0..<length (enq (pst c))] \<and> gclosed (gate (pst c)) \<and> gactive (gate (pst c)) = 0"
proof -
  have "flushed (pst c)"
    using conn_loops.label_known [OF assms, of Flushed] by (cases "flushed (pst c)") (simp_all add: conn_hold_def)
  with flushed_all conn_loops.reachable_W [OF assms(1)] show ?thesis by blast
qed

theorem stream_graceful_witness:
  "\<exists>c. conn_run demo_conn c \<and> Ret (Some (LReturned closeGoalWrite None)) \<in> set (threads c)
     \<and> length (enq (pst c)) = 1 \<and> written (pst c) = [0]"
proof (rule demo_closed_run)
  fix c
  assume "conn_run demo_conn c" "Ret (Some (LReturned closeGoalWrite None)) \<in> set (threads c)" "length (enq (pst c)) = 1"
  with stream_graceful [of demo_conn c closeGoalWrite] show ?thesis by (intro exI [of _ c]) simp
qed

text \<open>
  C11. The first terminal error stays, closing is for good, nothing admitted or written is taken back, and
  when the session is done its queue is empty and no sender is inside.
\<close>

theorem stream_terminal:
  assumes "conn_run cfg c" "(pstep (conn_body cfg) (Collect conn_call))\<^sup>*\<^sup>* c d"
  shows "(\<forall>e. cerr (pst c) = Some e \<longrightarrow> cerr (pst d) = Some e) \<and> (closing (pst c) \<longrightarrow> closing (pst d))
     \<and> prefix (enq (pst c)) (enq (pst d)) \<and> prefix (written (pst c)) (written (pst d))
     \<and> (sdone (pst d) \<longrightarrow> queue (pst d) = [] \<and> gclosed (gate (pst d)) \<and> gactive (gate (pst d)) = 0)"
  using conn_loops.reachable_guarantee [OF assms(2,1)] session_done [of True "conn_good cfg" "pst d"] conn_loops.reachable_W [of cfg d]
  by (auto simp: keeps_def)

theorem stream_terminal_witness:
  "\<exists>c. conn_run demo_conn c \<and> sdone (pst c) \<and> length (enq (pst c)) = 1 \<and> queue (pst c) = []"
  by (rule demo_ended_run) (use stream_terminal [of demo_conn, OF _ rtranclp.rtrancl_refl] in blast)

end
