(* ===== verification/WebSocket_IO.thy ===== *)
theory WebSocket_IO
  imports Stream_IO
begin

text \<open>
  The parts of a WebSocket session that run on one goroutine (\<^verbatim>\<open>transport/websocket.go\<close>,
  \<^verbatim>\<open>transport/websocket_graceful.go\<close>, \<^verbatim>\<open>transport/websocket_write_state.go\<close>): the message codec with its
  associated data, the normalisation of close errors, and the state the reader and the writer share to
  decide who reports a failure.
\<close>

section \<open>Messages\<close>

definition MessageText :: int where
  "MessageText = 1"

definition MessageBinary :: int where
  "MessageBinary = 2"

record ws_cfg = session_env +
  wsCipher :: "Cipher option"
  maxMessage :: int
  wsReadIdle :: int

text \<open>\<^verbatim>\<open>[4]byte{'O', 'G', byte(protocol), byte(kind)}\<close>.\<close>

definition wsAAD :: "Scheme \<Rightarrow> PayloadType \<Rightarrow> bytes" where
  "wsAAD protocol kind = [79, 71, protocol, kind]"

definition ws_encode :: "'a ws_cfg_scheme \<Rightarrow> rng \<Rightarrow> Message \<Rightarrow> gerr + (int \<times> bytes)" where
  "ws_encode c rng msg =
     (case Validate msg of Some err \<Rightarrow> Inl err | None \<Rightarrow>
      if int (length (msgData msg)) > maxMessage c then Inl (Sentinel ErrMessageTooLarge) else
      let typ = (if msgType msg = PayloadText then MessageText else MessageBinary);
          sealed =
            (case wsCipher c of
               None \<Rightarrow> Inr (msgData msg)
             | Some ci \<Rightarrow>
                 (case seal_with ci rng (msgData msg) (wsAAD (sprotocol c) (msgType msg)) of
                    Inl err \<Rightarrow> Inl (FmtErrorf ''transport: websocket encrypt: '' err)
                  | Inr payload \<Rightarrow> Inr (if msgType msg = PayloadText then b64_encode payload else payload)))
      in (case sealed of
            Inl err \<Rightarrow> Inl err
          | Inr payload \<Rightarrow>
              if int (length payload) > maxMessage c then Inl (Sentinel ErrMessageTooLarge) else Inr (typ, payload)))"

definition ws_open :: "'a ws_cfg_scheme \<Rightarrow> PayloadType \<Rightarrow> bytes \<Rightarrow> gerr + bytes" where
  "ws_open c kind payload =
     (case wsCipher c of
        None \<Rightarrow> Inr payload
      | Some ci \<Rightarrow>
          (case (if kind = PayloadText then b64_decode payload else Some payload) of
             None \<Rightarrow> Inl (FmtErrorf ''transport: websocket text base64: ''
                          (Foreign (ForeignError ''base64.CorruptInputError'') None []))
           | Some sealed \<Rightarrow>
               (case open_with ci sealed (wsAAD (sprotocol c) kind) of
                  Inl err \<Rightarrow> Inl (FmtErrorf ''transport: websocket decrypt: '' err)
                | Inr plaintext \<Rightarrow> Inr plaintext)))"

definition ws_decode :: "'a ws_cfg_scheme \<Rightarrow> int \<Rightarrow> bytes \<Rightarrow> gerr + Message" where
  "ws_decode c typ payload =
     (if typ \<noteq> MessageText \<and> typ \<noteq> MessageBinary then
        Inl (ErrorString ''transport: unsupported websocket message type'')
      else
      let kind = (if typ = MessageText then PayloadText else PayloadBinary) in
      if int (length payload) > maxMessage c then Inl (Sentinel ErrMessageTooLarge) else
      case ws_open c kind payload of
        Inl err \<Rightarrow> Inl err
      | Inr data \<Rightarrow>
          if int (length data) > maxMessage c then Inl (Sentinel ErrMessageTooLarge) else
          let msg = \<lparr>msgType = kind, msgData = data\<rparr> in
          (case Validate msg of Some err \<Rightarrow> Inl err | None \<Rightarrow> Inr msg))"

section \<open>Close errors\<close>

text \<open>\<open>sstatus\<close> stands for \<^verbatim>\<open>websocket.CloseStatus\<close>.\<close>

definition StatusNormalClosure :: int where
  "StatusNormalClosure = 1000"

definition StatusGoingAway :: int where
  "StatusGoingAway = 1001"

definition normalizeWSError :: "'a session_env_scheme \<Rightarrow> gerr option \<Rightarrow> gerr option" where
  "normalizeWSError c err =
     (case err of
        None \<Rightarrow> None
      | Some e \<Rightarrow>
          if errors_is e EOF \<or> errors_is e NetErrClosed then None
          else if sstatus c e = StatusNormalClosure \<or> sstatus c e = StatusGoingAway then None
          else Some e)"

definition isNormalWSClose :: "'a session_env_scheme \<Rightarrow> gerr option \<Rightarrow> bool" where
  "isNormalWSClose c err =
     (case err of
        None \<Rightarrow> True
      | Some e \<Rightarrow>
          if errors_is e ContextCanceled then False
          else sstatus c e = StatusNormalClosure \<or> sstatus c e = StatusGoingAway)"

section \<open>The write state\<close>

text \<open>\<open>wsCtx\<close> says that a write's context is stored.\<close>

record wsWriteState =
  wsCtx :: bool
  pendingReadObserved :: bool
  pendingReadErr :: "gerr option"

definition newWriteState :: wsWriteState where
  "newWriteState = \<lparr>wsCtx = False, pendingReadObserved = False, pendingReadErr = None\<rparr>"

definition ws_begin :: "wsWriteState \<Rightarrow> wsWriteState" where
  "ws_begin st = \<lparr>wsCtx = True, pendingReadObserved = False, pendingReadErr = None\<rparr>"

definition ws_pendingRead :: "wsWriteState \<Rightarrow> gerr option \<times> bool" where
  "ws_pendingRead st = (pendingReadErr st, pendingReadObserved st)"

definition ws_end :: "wsWriteState \<Rightarrow> (gerr option \<times> bool) \<times> wsWriteState" where
  "ws_end st = ((pendingReadErr st, pendingReadObserved st),
     \<lparr>wsCtx = False, pendingReadObserved = False, pendingReadErr = None\<rparr>)"

definition ws_deferRead :: "gerr option \<Rightarrow> wsWriteState \<Rightarrow> bool \<times> wsWriteState" where
  "ws_deferRead err st =
     (if \<not> wsCtx st then (False, st)
      else (True, if pendingReadObserved st then st
                  else st\<lparr>pendingReadObserved := True, pendingReadErr := err\<rparr>))"

text \<open>\<open>cause\<close> is \<^verbatim>\<open>context.Cause(ctx)\<close> and \<open>expired\<close> says that the context's deadline has passed.\<close>

definition ws_timeoutCause :: "gerr option \<Rightarrow> bool \<Rightarrow> wsWriteState \<Rightarrow> gerr option" where
  "ws_timeoutCause cause expired st =
     (if \<not> wsCtx st then None
      else case cause of
        Some c \<Rightarrow>
          if errors_is c ContextDeadlineExceeded then Some c
          else if expired then Some (Sentinel ContextDeadlineExceeded) else None
      | None \<Rightarrow> if expired then Some (Sentinel ContextDeadlineExceeded) else None)"

text \<open>What the reader and the writer do with it, in the order of the mutex.\<close>

datatype ws_op = WBegin | WEndWrite | WDefer gerr | WPeek

fun ws_run :: "ws_op list \<Rightarrow> wsWriteState \<Rightarrow> wsWriteState" where
  "ws_run [] st = st"
| "ws_run (WBegin # ops) st = ws_run ops (ws_begin st)"
| "ws_run (WEndWrite # ops) st = ws_run ops (snd (ws_end st))"
| "ws_run (WDefer err # ops) st = ws_run ops (snd (ws_deferRead (Some err) st))"
| "ws_run (WPeek # ops) st = ws_run ops st"

text \<open>The failures the reader hands over, in order.\<close>

fun deferred :: "ws_op list \<Rightarrow> gerr list" where
  "deferred (WDefer err # ops) = err # deferred ops"
| "deferred (_ # ops) = deferred ops"
| "deferred [] = []"

section \<open>Properties\<close>

lemma msg_eta: "\<lparr>msgType = msgType m, msgData = msgData m\<rparr> = m"
  by (cases m) simp

lemma Validate_kind: "Validate m = None \<Longrightarrow> msgType m = PayloadText \<or> msgType m = PayloadBinary"
  by (auto simp: Validate_def split: if_splits)

lemma ws_open_sealed:
  assumes "\<forall>ci. wsCipher c = Some ci \<longrightarrow> reversible ci" "rng_ok rng" "wsCipher c = Some ci"
    and "seal_with ci rng data (wsAAD (sprotocol c) kind) = Inr ct"
  shows "ws_open c kind (if kind = PayloadText then b64_encode ct else ct) = Inr data"
  using assms by (auto simp: ws_open_def reversible_def split: sum.splits)

lemma ws_encode_Inr:
  assumes "ws_encode c rng msg = Inr (typ, payload)"
  shows "Validate msg = None" "int (length (msgData msg)) \<le> maxMessage c" "int (length payload) \<le> maxMessage c"
    "typ = (if msgType msg = PayloadText then MessageText else MessageBinary)"
    "wsCipher c = None \<Longrightarrow> payload = msgData msg"
    "wsCipher c = Some ci \<Longrightarrow> \<exists>ct. seal_with ci rng (msgData msg) (wsAAD (sprotocol c) (msgType msg)) = Inr ct
       \<and> payload = (if msgType msg = PayloadText then b64_encode ct else ct)"
  using assms by (auto simp: ws_encode_def Let_def split: option.splits if_splits sum.splits)

text \<open>
  C27. What a WebSocket session encodes its peer decodes: the type, the data and the limit agree, with or
  without a cipher, when the cipher opens what it sealed.
\<close>

theorem ws_roundtrip:
  assumes "\<forall>ci. wsCipher c = Some ci \<longrightarrow> reversible ci" "rng_ok rng" "ws_encode c rng msg = Inr (typ, payload)"
  shows "ws_decode c typ payload = Inr msg \<and> int (length payload) \<le> maxMessage c"
proof -
  note e = ws_encode_Inr [OF assms(3)]
  let ?k = "if typ = MessageText then PayloadText else PayloadBinary"
  have k: "?k = msgType msg" using e(4) Validate_kind [OF e(1)] by (auto simp: MessageText_def MessageBinary_def)
  have "ws_open c (msgType msg) payload = Inr (msgData msg)"
  proof (cases "wsCipher c")
    case None
    then show ?thesis using e(5) by (simp add: ws_open_def)
  next
    case (Some ci)
    then show ?thesis using e(6) [OF Some] ws_open_sealed [OF assms(1,2) Some] by auto
  qed
  moreover have "typ = MessageText \<or> typ = MessageBinary" using e(4) by simp
  ultimately have "ws_decode c typ payload = Inr msg"
    using e(1-3) unfolding ws_decode_def Let_def k by (auto simp: msg_eta)
  with e(3) show ?thesis by blast
qed

definition demo_ws :: ws_cfg where
  "demo_ws = \<lparr>splat = (\<lambda>_ _. None), sstatus = (\<lambda>_. 0), sprotocol = 5, slocal = None, sremote = None,
     wsCipher = Some (aesGCM toy_aead), maxMessage = 64, wsReadIdle = 0\<rparr>"

theorem ws_roundtrip_witness:
  "\<exists>mt payload. ws_encode demo_ws toy_rng (Text [104, 105]) = Inr (mt, payload)
     \<and> ws_decode demo_ws mt payload = Inr (Text [104, 105])"
proof -
  have "map_sum (\<lambda>_. ()) fst (ws_encode demo_ws toy_rng (Text [104, 105])) = Inr MessageText" by code_simp
  then obtain mt payload where e: "ws_encode demo_ws toy_rng (Text [104, 105]) = Inr (mt, payload)"
    by (cases "ws_encode demo_ws toy_rng (Text [104, 105])") auto
  have "\<forall>ci. wsCipher demo_ws = Some ci \<longrightarrow> reversible ci"
    using reversible_aesGCM [OF toy_aead_law] by (simp add: demo_ws_def)
  with ws_roundtrip [OF _ toy_rng_ok e] e show ?thesis by blast
qed

lemma ws_run_deferring:
  assumes "wsCtx st" "WBegin \<notin> set ops" "WEndWrite \<notin> set ops"
  shows "wsCtx (ws_run ops st)"
    and "pendingReadObserved (ws_run ops st) \<longleftrightarrow> pendingReadObserved st \<or> deferred ops \<noteq> []"
    and "pendingReadErr (ws_run ops st) = (if pendingReadObserved st then pendingReadErr st
       else case deferred ops of [] \<Rightarrow> pendingReadErr st | err # _ \<Rightarrow> Some err)"
  using assms
  by (induction ops st rule: ws_run.induct) (auto simp: ws_deferRead_def split: if_splits)

text \<open>
  A read failure the reader hands over while a write is in flight is not lost: whatever else happens
  before the write ends, the writer receives the first such failure; and between writes the
  reader is told to report it itself.
\<close>

lemma ws_deferred_read:
  fixes st st' :: wsWriteState
  assumes "WBegin \<notin> set ops" "WEndWrite \<notin> set ops"
  shows "fst (ws_end (ws_run ops (ws_begin st))) =
      (case deferred ops of [] \<Rightarrow> (None, False) | err # _ \<Rightarrow> (Some err, True))
     \<and> fst (ws_deferRead err (ws_run ops (ws_begin st))) \<and> \<not> fst (ws_deferRead err (snd (ws_end st')))"
proof -
  have "wsCtx (ws_begin st)" "\<not> pendingReadObserved (ws_begin st)" "pendingReadErr (ws_begin st) = None"
    by (simp_all add: ws_begin_def)
  note r = ws_run_deferring [OF this(1) assms] and b = this
  from r b show ?thesis by (cases "deferred ops") (auto simp: ws_end_def ws_deferRead_def)
qed

end
