(* ===== verification/WebSocket_Session.thy ===== *)
theory WebSocket_Session
  imports Session_Core WebSocket_IO
begin

text \<open>
  The WebSocket session (\<^verbatim>\<open>transport/websocket.go\<close>, \<^verbatim>\<open>transport/websocket_graceful.go\<close>): the methods and
  goroutines as programs over the actions of \<open>Session_Core\<close>, with the write state that the reader and
  the writer share added to the session's state.
\<close>

section \<open>State and parameters\<close>

record wss = sst +
  wstate :: wsWriteState

text \<open>
  What calls outside the session return: the random source of an encoding; the cause of a write's
  context and whether its deadline has passed; a write, a read, the close handshake, a ping; the ping
  ticker, the close timer and an expired activity clock.
\<close>

datatype ws_io = WsRand rng | WsContext "gerr option" bool | WsWrite "gerr option" | WsRead "gerr + (int \<times> bytes)"
  | WsClose "gerr option" | WsPing "gerr option" | WsTick | WsTimer | WsExpire TimeoutKind

type_synonym 'r wprog = "(ws_io, unit wss_ext, 'r) sprog"

section \<open>The write state\<close>

definition begin_write :: "unit wprog" where
  "begin_write = atom (\<lambda>e s. Some (s\<lparr>wstate := ws_begin (wstate s)\<rparr>, ()))"

definition pending_read :: "(gerr option \<times> bool) wprog" where
  "pending_read = atom (\<lambda>e s. Some (s, ws_pendingRead (wstate s)))"

text \<open>A writer that finds a failure the reader handed over does not take another request.\<close>

definition end_write :: "(gerr option \<times> bool) wprog" where
  "end_write = atom (\<lambda>e s. case ws_end (wstate s) of
     (r, st) \<Rightarrow> Some (if snd r then s\<lparr>wstate := st, wmode := WStopped\<rparr> else s\<lparr>wstate := st\<rparr>, r))"

definition defer_read :: "gerr option \<Rightarrow> bool wprog" where
  "defer_read err = atom (\<lambda>e s. case ws_deferRead err (wstate s) of (r, st) \<Rightarrow> Some (s\<lparr>wstate := st\<rparr>, r))"

definition writer_drained :: "bool wprog" where
  "writer_drained = atom (\<lambda>e s. Some (s, writerDrained s))"

definition timeout_cause :: "gerr option wprog" where
  "timeout_cause = atom (\<lambda>e s. case e of
     Io (WsContext cause expired) \<Rightarrow> Some (s, ws_timeoutCause cause expired (wstate s)) | _ \<Rightarrow> None)"

section \<open>Sending\<close>

definition ws_acquireFrameSlot :: "nat \<Rightarrow> gerr option wprog" where
  "ws_acquireFrameSlot c = acquire_chan slot_room slot_put c"

definition ws_tryAcquireFrameSlot :: "gerr option wprog" where
  "ws_tryAcquireFrameSlot = try_chan slot_room slot_put"

definition ws_acquireEncoder :: "nat \<Rightarrow> gerr option wprog" where
  "ws_acquireEncoder c = acquire_chan enc_room enc_put c"

definition ws_tryAcquireEncoder :: "gerr option wprog" where
  "ws_tryAcquireEncoder = try_chan enc_room enc_put"

definition ws_closedError :: "ws_cfg \<Rightarrow> gerr option" where
  "ws_closedError cfg = operationalError cfg OpSend (Some (Sentinel ErrClosed)) hintNone"

definition ws_sendError :: "ws_cfg \<Rightarrow> nat \<Rightarrow> gerr \<Rightarrow> gerr option wprog" where
  "ws_sendError cfg c err = cause_or c (Ret (operationalError cfg OpSend (Some err) hintNone))"

definition trySendError :: "ws_cfg \<Rightarrow> gerr \<Rightarrow> gerr option wprog" where
  "trySendError cfg err =
     (let opErr = operationalError cfg OpSend (Some err) hintNone in
      seq (if errors_is err ErrWouldBlock
           then seq (bump Backpressure 1) (call_out (Observe EventBackpressure 0 opErr)) else Ret ())
        (Ret opErr))"

definition ws_encoding :: "ws_cfg \<Rightarrow> Message \<Rightarrow> (gerr + (int \<times> bytes)) wprog" where
  "ws_encoding cfg msg = io_call (\<lambda>x. case x of WsRand r \<Rightarrow> Some (ws_encode cfg r msg) | _ \<Rightarrow> None)"

definition ws_request :: "bool \<Rightarrow> Message \<Rightarrow> int \<Rightarrow> bytes \<Rightarrow> outbound" where
  "ws_request ack msg mt payload =
     \<lparr>rid = 0, otyp = mt, oframe = payload, oack = ack, obytes = int (length payload),
      opayload = int (length (msgData msg)), odest = None\<rparr>"

definition ws_awaitOutcome :: "ws_cfg \<Rightarrow> nat \<Rightarrow> nat \<Rightarrow> gerr option wprog" where
  "ws_awaitOutcome cfg c r =
     bind (await_ack c r) (\<lambda>a. case a of
       AVal v \<Rightarrow> Ret v
     | ACtx cause \<Rightarrow> Ret (Some cause)
     | AClosing \<Rightarrow> bind (poll_ack r) (\<lambda>p. case p of
         Some v \<Rightarrow> Ret v
       | None \<Rightarrow> cause_or c (err_or (ws_closedError cfg))))"

text \<open>The deferred release of the frame slot runs before the deferred \<^verbatim>\<open>gate.leave\<close>.\<close>

definition ws_prepare :: "ws_cfg \<Rightarrow> nat \<Rightarrow> Message \<Rightarrow> (gerr option + (int \<times> bytes)) wprog" where
  "ws_prepare cfg c msg =
     (let fail = (\<lambda>err. bind (after (ws_sendError cfg c err) release_slot) (\<lambda>e. Ret (Inl e))) in
      bind (ws_acquireFrameSlot c) (\<lambda>r. case r of
        Some err \<Rightarrow> bind (ws_sendError cfg c err) (\<lambda>e. Ret (Inl e))
      | None \<Rightarrow> bind (ws_acquireEncoder c) (\<lambda>r. case r of
          Some err \<Rightarrow> fail err
        | None \<Rightarrow> bind (ws_encoding cfg msg) (\<lambda>x. seq release_enc (case x of
            Inl err \<Rightarrow> fail err
          | Inr (mt, payload) \<Rightarrow> bind (quota_acquire c (int (length payload))) (\<lambda>r. case r of
              Some err \<Rightarrow> fail err
            | None \<Rightarrow> Ret (Inr (mt, payload))))))))"

definition ws_Send :: "ws_cfg \<Rightarrow> nat option \<Rightarrow> Message \<Rightarrow> gerr option wprog" where
  "ws_Send cfg ctx msg =
     (case ctx of
        None \<Rightarrow> Ret (Some (Sentinel ErrNilContext))
      | Some c \<Rightarrow> cause_or c (bind enter (\<lambda>ok.
          if \<not> ok then Ret (ws_closedError cfg) else
          after
            (case Validate msg of
               Some err \<Rightarrow> Ret (Some err)
             | None \<Rightarrow> bind (ws_prepare cfg c msg) (\<lambda>x. case x of
                 Inl err \<Rightarrow> Ret err
               | Inr (mt, payload) \<Rightarrow> bind (enqueue c (ws_request True msg mt payload)) (\<lambda>q. case q of
                   QCtx cause \<Rightarrow> seq (give_back (int (length payload))) (Ret (Some cause))
                 | QClosing \<Rightarrow> seq (give_back (int (length payload))) (cause_or c (err_or (ws_closedError cfg)))
                 | QSent r \<Rightarrow> ws_awaitOutcome cfg c r
                 | QFull \<Rightarrow> Ret None)))
            leave)))"

definition ws_tryPrepare :: "ws_cfg \<Rightarrow> Message \<Rightarrow> (gerr option + (int \<times> bytes)) wprog" where
  "ws_tryPrepare cfg msg =
     (let fail = (\<lambda>err. bind (after (trySendError cfg err) release_slot) (\<lambda>e. Ret (Inl e))) in
      bind ws_tryAcquireFrameSlot (\<lambda>r. case r of
        Some err \<Rightarrow> bind (trySendError cfg err) (\<lambda>e. Ret (Inl e))
      | None \<Rightarrow> bind ws_tryAcquireEncoder (\<lambda>r. case r of
          Some err \<Rightarrow> fail err
        | None \<Rightarrow> bind (ws_encoding cfg msg) (\<lambda>x. seq release_enc (case x of
            Inl err \<Rightarrow> seq release_slot (Ret (Inl (operationalError cfg OpSend (Some err) hintNone)))
          | Inr (mt, payload) \<Rightarrow> bind (quota_try (int (length payload))) (\<lambda>r. case r of
              Some err \<Rightarrow> fail err
            | None \<Rightarrow> Ret (Inr (mt, payload))))))))"

definition ws_TrySend :: "ws_cfg \<Rightarrow> Message \<Rightarrow> gerr option wprog" where
  "ws_TrySend cfg msg = bind enter (\<lambda>ok.
     if \<not> ok then Ret (ws_closedError cfg) else
     after
       (case Validate msg of
          Some err \<Rightarrow> Ret (Some err)
        | None \<Rightarrow> bind (ws_tryPrepare cfg msg) (\<lambda>x. case x of
            Inl err \<Rightarrow> Ret err
          | Inr (mt, payload) \<Rightarrow> bind (try_enqueue (ws_request False msg mt payload)) (\<lambda>q. case q of
              QClosing \<Rightarrow> seq (give_back (int (length payload))) (err_or (ws_closedError cfg))
            | QSent r \<Rightarrow> Ret None
            | QFull \<Rightarrow> seq (give_back (int (length payload))) (trySendError cfg (Sentinel ErrWouldBlock))
            | QCtx cause \<Rightarrow> Ret None)))
       leave)"

section \<open>Closing\<close>

text \<open>Only the failure that wins stores its cause; the terminal error is nil until then.\<close>

definition ws_abort :: "abortReason \<Rightarrow> gerr option \<Rightarrow> bool wprog" where
  "ws_abort reason cause =
     bind (abort_with reason (if reason = abortFailure then cause else None)) (\<lambda>won.
       if \<not> won then Ret False else seq (close_body None) (Ret True))"

definition ws_initiateClose :: "gerr option \<Rightarrow> unit wprog" where
  "ws_initiateClose cause = seq (ws_abort abortFailure cause) (Ret ())"

definition ws_Close :: "gerr option wprog" where
  "ws_Close = bind (atom (\<lambda>e s. Some (s, sdone s))) (\<lambda>d.
     if d then Ret None else seq (ws_abort abortExplicit None) (Ret None))"

definition ws_lifecycleResult :: "gerr option wprog" where
  "ws_lifecycleResult = bind get_err (\<lambda>t. case t of
     Some e \<Rightarrow> Ret (Some e)
   | None \<Rightarrow> bind (life_op (\<lambda>x. (why x, x))) (\<lambda>r.
       Ret (if r = abortNone then None else Some (Sentinel ErrClosed))))"

definition ws_requestShutdown :: "bool wprog" where
  "ws_requestShutdown = bind (life_op (\<lambda>x. requestWithPrevious x closeGoalFull)) (\<lambda>r.
     seq (if fst r then shut_gate else Ret ()) (Ret (fst r)))"

definition ws_Shutdown :: "nat option \<Rightarrow> gerr option wprog" where
  "ws_Shutdown ctx =
     (case ctx of
        None \<Rightarrow> Ret (Some (Sentinel ErrNilContext))
      | Some c \<Rightarrow> cause_or c (bind ws_requestShutdown (\<lambda>owner.
          bind (wait_signal sdone (\<lambda>s. signalled (slife s) abortCh) c) (\<lambda>w. case w of
            CtxCause cause \<Rightarrow>
              seq (if owner then seq (ws_abort abortCaller None) (Ret ()) else Ret ()) (Ret (Some cause))
          | _ \<Rightarrow> ws_lifecycleResult))))"

definition finishLocalGraceful :: "ws_cfg \<Rightarrow> gerr option \<Rightarrow> unit wprog" where
  "finishLocalGraceful cfg err =
     (case normalizeWSError cfg err of
        Some e \<Rightarrow> ws_initiateClose (operationalError cfg OpClose (Some e) hintNone)
      | None \<Rightarrow>
          seq (life_op (\<lambda>x. ((), markReadClosed x)))
            (seq (life_op (\<lambda>x. ((), markWriteClosed x)))
              (seq (life_op tryMarkTerminal) (close_body None))))"

text \<open>
  \<^verbatim>\<open>watchCloseTimeout\<close>, which the owner of a shutdown request starts; the two \<^verbatim>\<open>select\<close>s.
\<close>

definition watch_drained :: "bool wprog" where
  "watch_drained = atom (\<lambda>e s.
     if \<not> signalled (slife s) fullReq then None else
     case e of
       Chan \<Rightarrow> if writerDrained s then Some (s, True) else None
     | Sig \<Rightarrow> if signalled (slife s) abortCh \<or> sdone s then Some (s, False) else None
     | _ \<Rightarrow> None)"

definition watch_timer :: "bool wprog" where
  "watch_timer = atom (\<lambda>e s. case e of
       Io WsTimer \<Rightarrow> Some (s, True)
     | Sig \<Rightarrow> if signalled (slife s) abortCh \<or> sdone s then Some (s, False) else None
     | _ \<Rightarrow> None)"

definition watchCloseTimeout :: "ws_cfg \<Rightarrow> unit wprog" where
  "watchCloseTimeout cfg = bind watch_drained (\<lambda>drained.
     if \<not> drained then Ret () else
     bind watch_timer (\<lambda>expired.
       if \<not> expired then Ret () else
       seq (ws_abort abortFailure (operationalError cfg OpClose
              (Some (TimeoutErr TimeoutClose (Some (Sentinel ContextDeadlineExceeded)))) hintNone)) (Ret ())))"

section \<open>The writer\<close>

text \<open>The close a deferred read failure leads to.\<close>

definition read_failure :: "ws_cfg \<Rightarrow> gerr option \<Rightarrow> gerr option" where
  "read_failure cfg err =
     (case normalizeWSError cfg err of
        Some e \<Rightarrow> operationalError cfg OpRead (Some e) hintNone
      | None \<Rightarrow> None)"

definition write_failure :: "ws_cfg \<Rightarrow> gerr \<Rightarrow> gerr option \<Rightarrow> gerr option \<times> bool \<Rightarrow> gerr option" where
  "write_failure cfg err timeoutCause pend =
     (if timeoutCause \<noteq> None \<or> isTimeoutFailure err then
        operationalError cfg OpWrite (Some (TimeoutErr TimeoutWrite (Some err))) hintNone
      else if snd pend then read_failure cfg (fst pend)
      else operationalError cfg OpWrite (Some (FmtErrorf ''transport: websocket write: '' err)) hintNone)"

definition ws_handleOutbound :: "ws_cfg \<Rightarrow> bool \<Rightarrow> outbound \<Rightarrow> bool wprog" where
  "ws_handleOutbound cfg draining req =
     seq begin_write
     (bind (do_write (\<lambda>x. case x of WsWrite err \<Rightarrow> Some err | _ \<Rightarrow> None) (\<lambda>err. err = None) draining req) (\<lambda>err.
      bind timeout_cause (\<lambda>timeoutCause. case err of
        None \<Rightarrow>
          bind end_write (\<lambda>pend.
            seq (give_back (obytes req))
              (seq (bump BytesTX (of_int (opayload req))) (seq (bump MessagesTX 1)
                (seq (call_out (Observe EventWrite (of_int (opayload req)) None))
                  (seq (send_ack req None)
                    (if snd pend then seq (ws_initiateClose (read_failure cfg (fst pend))) (Ret False) else Ret True))))))
      | Some e \<Rightarrow>
          bind pending_read (\<lambda>pend.
            seq (give_back (obytes req))
              (let opErr = write_failure cfg e timeoutCause pend in
               bind (ws_abort abortFailure opErr) (\<lambda>won.
                 seq end_write
                   (bind (if won \<and> opErr \<noteq> None then Ret opErr else err_or (Some (Sentinel ErrClosed))) (\<lambda>sendErr.
                      seq (send_ack req sendErr) (Ret False)))))))))"

text \<open>One iteration of \<^verbatim>\<open>failPending\<close>, with the error it computed at its start.\<close>

definition ws_failPending :: "gerr \<Rightarrow> bool wprog" where
  "ws_failPending pendingErr = bind select_fail (\<lambda>r. case r of
     None \<Rightarrow> Ret False
   | Some req \<Rightarrow> seq (give_back (obytes req)) (seq (send_ack req (Some pendingErr)) (Ret True)))"

section \<open>The reader\<close>

definition ws_readError :: "ws_cfg \<Rightarrow> gerr \<Rightarrow> unit wprog" where
  "ws_readError cfg err =
     (let blame =
        bind timeout_cause (\<lambda>cause. case cause of
          Some c \<Rightarrow> ws_initiateClose (operationalError cfg OpWrite (Some (TimeoutErr TimeoutWrite (Some c))) hintNone)
        | None \<Rightarrow> bind (defer_read (Some err)) (\<lambda>handed.
            if handed then Ret () else ws_initiateClose (read_failure cfg (Some err))));
        report =
        (if wsReadIdle cfg > 0 \<and> isTimeoutFailure err then
           bind isClosing (\<lambda>b.
             if \<not> b then ws_initiateClose (operationalError cfg OpRead (Some (TimeoutErr TimeoutReadIdle (Some err))) hintNone)
             else blame)
         else blame)
      in bind (life_op (\<lambda>x. (signalled x fullReq, x))) (\<lambda>full.
           if \<not> full then report else
           bind (life_op (\<lambda>x. (signalled x abortCh, x))) (\<lambda>aborted.
             if aborted then report else
             bind (if isNormalWSClose cfg (Some err) then Ret True else writer_drained) (\<lambda>owned.
               if owned then life_op (\<lambda>x. ((), markReadClosed x)) else report))))"

definition ws_readerIteration :: "ws_cfg \<Rightarrow> bool wprog" where
  "ws_readerIteration cfg =
     bind (io_call (\<lambda>x. case x of WsRead r \<Rightarrow> Some r | _ \<Rightarrow> None)) (\<lambda>r. case r of
       Inl err \<Rightarrow> seq (ws_readError cfg err) (Ret False)
     | Inr (mt, payload) \<Rightarrow>
         (case ws_decode cfg mt payload of
            Inl err \<Rightarrow>
              seq (bump DecodeErrors 1)
                (seq (ws_initiateClose (operationalError cfg OpRead (Some err) hintMessageDecode)) (Ret False))
          | Inr msg \<Rightarrow>
              seq (bump BytesRX (of_nat (length (msgData msg)))) (seq (bump MessagesRX 1)
                (seq (call_out (Observe EventRead (of_nat (length (msgData msg))) None))
                  (seq (call_out (OnMessage msg)) (bind isClosing (\<lambda>b. Ret (\<not> b))))))))"

section \<open>The goroutines\<close>

definition ws_finalize :: "unit wprog" where
  "ws_finalize = bind final_begin (\<lambda>first.
     if \<not> first then Ret () else
     seq (bind isClosing (\<lambda>b. if b then Ret () else ws_initiateClose None))
       (bind get_err (\<lambda>err.
          seq (call_out (Observe EventClose 0 err)) (bind get_err (\<lambda>err. seq (call_out (OnClose err)) close_done)))))"

datatype wlabel = WsWriter | WsGraceful | WsDrain | WsExit | WsFail gerr
  | WsOpen | WsReader | WsPinger | WsActivity | WsFinalize
  | WsSend "nat option" Message | WsTrySend Message | WsCloseCall | WsShutdown "nat option" | WsWatch
  | WsCancel nat gerr gerr | WsReturned "gerr option"

definition ping_select :: "bool wprog" where
  "ping_select = atom (\<lambda>e s. case e of
       Closing \<Rightarrow> if closing s then Some (s, False) else None
     | Sig \<Rightarrow> if signalled (slife s) fullReq then Some (s, False) else None
     | Io WsTick \<Rightarrow> Some (s, True)
     | _ \<Rightarrow> None)"

definition ws_activity :: "TimeoutKind option wprog" where
  "ws_activity = atom (\<lambda>e s. case e of
       Closing \<Rightarrow> if closing s then Some (s, None) else None
     | Io (WsExpire k) \<Rightarrow> Some (s, Some k)
     | _ \<Rightarrow> None)"

definition ws_reader_end :: "wlabel option wprog" where
  "ws_reader_end = seq (loop_done ReaderLoop) (Ret None)"

fun ws_body :: "ws_cfg \<Rightarrow> wlabel \<Rightarrow> wlabel option wprog" where
  "ws_body cfg WsWriter =
     bind (select_running (\<lambda>s. signalled (slife s) fullReq)) (\<lambda>w. case w of
       WClosing \<Rightarrow> Ret (Some WsExit)
     | WDrain \<Rightarrow> Ret (Some WsGraceful)
     | WReq req \<Rightarrow> bind (ws_handleOutbound cfg False req) (\<lambda>ok. Ret (Some (if ok then WsWriter else WsExit)))
     | _ \<Rightarrow> Ret None)"
| "ws_body cfg WsGraceful =
     bind select_graceful (\<lambda>w. case w of
       WClosing \<Rightarrow> Ret (Some WsExit)
     | WGateDone \<Rightarrow> Ret (Some WsDrain)
     | WReq req \<Rightarrow> bind (ws_handleOutbound cfg False req) (\<lambda>ok. Ret (Some (if ok then WsGraceful else WsExit)))
     | _ \<Rightarrow> Ret None)"
| "ws_body cfg WsDrain =
     bind select_drain (\<lambda>w. case w of
       WReq req \<Rightarrow> bind (ws_handleOutbound cfg True req) (\<lambda>ok. Ret (Some (if ok then WsDrain else WsExit)))
     | WEmpty \<Rightarrow>
         seq markWriterDrained
           (bind (io_call (\<lambda>x. case x of WsClose err \<Rightarrow> Some err | _ \<Rightarrow> None)) (\<lambda>err.
             seq (finishLocalGraceful cfg err) (Ret (Some WsExit))))
     | _ \<Rightarrow> Ret None)"
| "ws_body cfg WsExit = seq wait_gate (bind (err_or (ws_closedError cfg)) (\<lambda>err. Ret (Some (WsFail (the err)))))"
| "ws_body cfg (WsFail err) = bind (ws_failPending err) (\<lambda>more.
     if more then Ret (Some (WsFail err)) else seq markWriterDrained (seq (loop_done WriterLoop) (Ret None)))"
| "ws_body cfg WsOpen = seq (call_out OnOpen) (bind isClosing (\<lambda>b. if b then ws_reader_end else Ret (Some WsReader)))"
| "ws_body cfg WsReader = bind (ws_readerIteration cfg) (\<lambda>more. if more then Ret (Some WsReader) else ws_reader_end)"
| "ws_body cfg WsPinger = bind ping_select (\<lambda>tick.
     if \<not> tick then seq (loop_done PingLoop) (Ret None) else
     bind (io_call (\<lambda>x. case x of WsPing err \<Rightarrow> Some err | _ \<Rightarrow> None)) (\<lambda>err. case err of
       None \<Rightarrow> Ret (Some WsPinger)
     | Some e \<Rightarrow>
         seq (ws_initiateClose (operationalError cfg OpWrite (Some (FmtErrorf ''transport: websocket ping: '' e)) hintNone))
           (seq (loop_done PingLoop) (Ret None))))"
| "ws_body cfg WsActivity =
     bind ws_activity (\<lambda>r.
     seq (case r of None \<Rightarrow> Ret ()
          | Some k \<Rightarrow> ws_initiateClose (operationalError cfg OpRead (Some (TimeoutErr k None)) hintNone))
       (seq (loop_done ActivityLoop) (Ret None)))"
| "ws_body cfg WsFinalize = seq ws_finalize (Ret None)"
| "ws_body cfg (WsSend ctx msg) = seq (ws_Send cfg ctx msg) (Ret None)"
| "ws_body cfg (WsTrySend msg) = seq (ws_TrySend cfg msg) (Ret None)"
| "ws_body cfg WsCloseCall = seq ws_Close (Ret None)"
| "ws_body cfg (WsShutdown ctx) = bind (ws_Shutdown ctx) (\<lambda>err. Ret (Some (WsReturned err)))"
| "ws_body cfg WsWatch = seq (watchCloseTimeout cfg) (Ret None)"
| "ws_body cfg (WsCancel c err cause) = seq (cancel_ctx c err cause) (Ret None)"
| "ws_body cfg (WsReturned err) = Ret None"

definition ws_start :: "bool \<Rightarrow> bool \<Rightarrow> wlabel list" where
  "ws_start ping activity = [WsWriter, WsOpen] @ (if ping then [WsPinger] else [])
     @ (if activity then [WsActivity] else []) @ [WsFinalize]"

definition ws_call :: "wlabel \<Rightarrow> bool" where
  "ws_call l = (case l of WsSend _ _ \<Rightarrow> True | WsTrySend _ \<Rightarrow> True | WsCloseCall \<Rightarrow> True | WsShutdown _ \<Rightarrow> True
     | WsWatch \<Rightarrow> True | WsCancel _ _ _ \<Rightarrow> True | _ \<Rightarrow> False)"

definition ws_init :: "ws_cfg \<Rightarrow> (ws_io ev, wss, wlabel) psys \<Rightarrow> bool" where
  "ws_init cfg sys \<longleftrightarrow> (\<exists>ping activity wq maxQueued. 0 \<le> maxQueued \<and> 2 * maxQueued \<le> max_int64 \<and>
     sys = \<lparr>pst = new_session (\<lambda>l. l = WriterLoop \<or> l = ReaderLoop \<or> l = PingLoop \<and> ping \<or> l = ActivityLoop \<and> activity)
              wq maxQueued (wss.fields newWriteState),
            threads = map (ws_body cfg) (ws_start ping activity)\<rparr>)"

section \<open>The contract of the goroutines\<close>

definition ws_good :: "ws_cfg \<Rightarrow> outbound \<Rightarrow> bool" where
  "ws_good cfg req \<longleftrightarrow> obytes req = int (length (oframe req))
     \<and> (\<exists>r m. ws_encode cfg r m = Inr (otyp req, oframe req) \<and> opayload req = int (length (msgData m)))"

definition ws_hold :: "wlabel \<Rightarrow> res holding" where
  "ws_hold l =
     (case l of
        WsWriter \<Rightarrow> none(Mode WIdle := 1)
      | WsGraceful \<Rightarrow> none(Mode WIdle := 1)
      | WsDrain \<Rightarrow> none(Mode WDraining := 1)
      | WsExit \<Rightarrow> none(Mode WStopped := 1)
      | WsFail err \<Rightarrow> none(Mode WFailing := 1)
      | WsReturned err \<Rightarrow> if err = None then none(Flushed := 1) else none
      | _ \<Rightarrow> none)"

abbreviation wpw ::
  "ws_cfg \<Rightarrow> ('r \<Rightarrow> res holding \<Rightarrow> bool) \<Rightarrow> 'r wprog \<Rightarrow> res holding \<Rightarrow> bool"
where
  "wpw cfg \<equiv> wps True (ws_good cfg)"

lemma sized_ws [simp]: "sized (ws_good cfg)"
  by (simp add: sized_def ws_good_def)

text \<open>The write state is no resource.\<close>

lemma wp_write_state:
  "Q () h \<Longrightarrow> wpw cfg Q begin_write h"
  "(\<And>r. Q' r h) \<Longrightarrow> wpw cfg Q' pending_read h"
  "(\<And>r. Q'' r h) \<Longrightarrow> wpw cfg Q'' (defer_read err) h"
  "(\<And>r. Q3 r h) \<Longrightarrow> wpw cfg Q3 timeout_cause h"
  "(\<And>r. Q4 r h) \<Longrightarrow> wpw cfg Q4 writer_drained h"
  unfolding writer_drained_def begin_write_def pending_read_def defer_read_def timeout_cause_def
  by (rule wp_frame; auto split: ev.splits ws_io.splits prod.splits)+

lemma wp_end_write:
  assumes "1 \<le> h (Mode m)" "\<And>err. Q (err, False) h" "\<And>err. Q (err, True) (switch m WStopped h)"
  shows "wpw cfg Q end_write h"
  unfolding end_write_def
proof (rule wp_atom)
  fix e :: "ws_io ev" and s s' :: wss and r
  let ?st = "snd (ws_end (wstate s))"
  let ?s = "s\<lparr>wstate := ?st\<rparr>"
  assume a: "swf True (ws_good cfg) s" "holds own s h" "(case ws_end (wstate s) of
     (r, st) \<Rightarrow> Some (if snd r then s\<lparr>wstate := st, wmode := WStopped\<rparr> else s\<lparr>wstate := st\<rparr>, r)) = Some (s', r)"
  have own: "own ?s = own s" by (rule own_frame) simp_all
  have w: "swf True (ws_good cfg) ?s" using a(1) by (intro swf_frame [of True "ws_good cfg" s ?s]) (simp_all add: swf_def close_wf_def)
  have h: "holds own ?s h" using a(2) own by (simp add: holds_def)
  have k: "keeps s ?s" by (simp add: keeps_same)
  have m: "swf True (ws_good cfg) (?s\<lparr>wmode := WStopped\<rparr>) \<and> keeps ?s (?s\<lparr>wmode := WStopped\<rparr>)
      \<and> moved own ?s (?s\<lparr>wmode := WStopped\<rparr>) h (switch m WStopped h)"
    using mode_ok [OF w h assms(1), where m' = WStopped, OF mode_wfI(1) [OF mode_of [OF w]]] held(3) [OF h assms(1)] by simp
  have eq: "?s\<lparr>wmode := WStopped\<rparr> = s\<lparr>wstate := ?st, wmode := WStopped\<rparr>" by simp
  have mv: "moved own ?s t h h' = moved own s t h h'" for t h' using own by (simp add: moved_def)
  show "swf True (ws_good cfg) s' \<and> keeps s s' \<and> (\<exists>h'. moved own s s' h h' \<and> Q r h')"
  proof (cases "snd r")
    case True
    then have "s' = ?s\<lparr>wmode := WStopped\<rparr>" using a(3) by (auto split: prod.splits if_splits)
    with m mv keeps_trans [OF k] assms(3) [of "fst r"] True show ?thesis by (cases r) auto
  next
    case False
    then have "s' = ?s" using a(3) by (auto split: prod.splits if_splits)
    moreover have "moved own s ?s h h" using moved_refl [OF h] mv by simp
    ultimately show ?thesis using w k assms(2) [of "fst r"] False by (cases r) auto
  qed
qed

lemma wp_end_write_either:
  assumes "1 \<le> h (Mode WStopped) \<and> (\<forall>r. Q r h)
     \<or> 1 \<le> h (Mode (idle_mode dr)) \<and> (\<forall>err. Q (err, False) h) \<and> (\<forall>err. Q (err, True) (switch (idle_mode dr) WStopped h))"
  shows "wpw cfg Q end_write h"
  using assms
proof
  assume a: "1 \<le> h (Mode WStopped) \<and> (\<forall>r. Q r h)"
  have "switch WStopped WStopped h = h" by (simp add: fun_eq_iff)
  with a show ?thesis using wp_end_write [of h WStopped Q cfg] by simp
qed (auto intro: wp_end_write)

lemma ws_abort_settled:
  assumes "reason \<noteq> abortNone" "0 \<le> h Closer" "\<And>won. Q won (h(Settled := 1))"
  shows "wpw cfg Q (ws_abort reason cause) h"
  unfolding ws_abort_def using assms by (auto intro!: wp_neutral wp_abort_with wp_close_body)

lemma wp_ws_abort:
  assumes "reason \<noteq> abortNone" "0 \<le> h Closer" "h Settled = 0" "\<And>won. Q won h"
  shows "wpw cfg Q (ws_abort reason cause) h"
  unfolding ws_abort_def using assms by (auto intro!: wp_neutral wp_abort_with wp_close_body simp: fun_upd_idem)

lemma wp_ws_initiateClose:
  assumes "0 \<le> h Closer" "h Settled = 0" "Q () h"
  shows "wpw cfg Q (ws_initiateClose cause) h"
  unfolding ws_initiateClose_def using assms by (auto intro!: wp_neutral wp_ws_abort)

lemma ws_initiateClose_settled: "0 \<le> h Closer \<Longrightarrow> Q () (h(Settled := 1)) \<Longrightarrow> wpw cfg Q (ws_initiateClose cause) h"
  unfolding ws_initiateClose_def by (auto intro!: wp_neutral ws_abort_settled)

lemma wp_ws_errors:
  assumes "\<And>r. Q r h"
  shows "wpw cfg Q (ws_sendError cfg' c err) h" "wpw cfg Q (trySendError cfg' err) h" "wpw cfg Q (ws_awaitOutcome cfg' c r) h"
  unfolding ws_sendError_def trySendError_def ws_awaitOutcome_def Let_def using assms
  by (auto intro!: wp_neutral split: ares.splits option.splits)

lemma wp_ws_slots:
  assumes "Q None (add Slot 1 h)" and "\<And>err. Q (Some err) h"
  shows "wpw cfg Q (ws_acquireFrameSlot c) h" "wpw cfg Q ws_tryAcquireFrameSlot h"
  unfolding ws_acquireFrameSlot_def ws_tryAcquireFrameSlot_def using assms by (simp_all only: wp_acquire_slot)

lemma wp_ws_encoders:
  assumes "Q None (add Enc 1 h)" and "\<And>err. Q (Some err) h"
  shows "wpw cfg Q (ws_acquireEncoder c) h" "wpw cfg Q ws_tryAcquireEncoder h"
  unfolding ws_acquireEncoder_def ws_tryAcquireEncoder_def using assms by (simp_all only: wp_acquire_enc)

lemma wp_ws_prepare:
  assumes "0 \<le> h Enc" "0 \<le> h Slot" "0 \<le> h Bytes" "\<And>err. Q (Inl err) h"
    "\<And>mt payload r. ws_encode cfg r msg = Inr (mt, payload) \<Longrightarrow>
       Q (Inr (mt, payload)) (add Bytes (int (length payload)) (add Slot 1 h))"
  shows "wpw cfg Q (ws_prepare cfg c msg) h" "wpw cfg Q (ws_tryPrepare cfg msg) h"
  unfolding ws_prepare_def ws_tryPrepare_def ws_encoding_def Let_def using assms
  by (auto intro!: wp_neutral wp_ws_slots wp_ws_encoders wp_ws_errors wp_release_slot wp_release_enc wp_quota_acquire
      simp: fun_upd_twist fun_upd_idem split: option.splits sum.splits ws_io.splits)

lemma ws_good_request: "ws_encode cfg r msg = Inr (mt, payload) \<Longrightarrow> ws_good cfg ((ws_request ack msg mt payload)\<lparr>rid := i\<rparr>)"
  by (auto simp: ws_good_def ws_request_def)

lemma ws_request_bytes [simp]: "obytes (ws_request ack msg mt payload) = int (length payload)"
  by (simp add: ws_request_def)

lemma wp_ws_Send: "wpw cfg (\<lambda>r h. h = none) (ws_Send cfg ctx msg) none"
  unfolding ws_Send_def
  by (auto intro!: wp_neutral wp_enter wp_leave wp_ws_prepare wp_ws_errors wp_enqueue wp_give_back ws_good_request
      simp: fun_upd_twist fun_upd_idem split: option.splits sum.splits qres.splits)

lemma wp_ws_TrySend: "wpw cfg (\<lambda>r h. h = none) (ws_TrySend cfg msg) none"
  unfolding ws_TrySend_def
  by (auto intro!: wp_neutral wp_enter wp_leave wp_ws_prepare wp_ws_errors wp_enqueue wp_give_back ws_good_request
      simp: fun_upd_twist fun_upd_idem split: option.splits sum.splits qres.splits)

text \<open>A request after its write, by the outcome of the write.\<close>

lemma wp_ws_written:
  assumes "m = WIdle \<or> m = WDraining" "0 \<le> n" "Q True (none(Mode m := 1))" "Q False (none(Mode WStopped := 1))"
  shows "wpw cfg Q (bind end_write (\<lambda>pend. seq (give_back n) (seq (bump BytesTX b) (seq (bump MessagesTX 1)
      (seq (call_out x) (seq (send_ack req None)
        (if snd pend then seq (ws_initiateClose (f pend)) (Ret False) else Ret True)))))))
     (none(Mode m := 1, Slot := 1, Bytes := n, Wrote (rid req) := 1))"
proof -
  have "switch m WStopped (none(Mode m := 1, Slot := 1, Bytes := n, Wrote (rid req) := 1))
      = none(Mode WStopped := 1, Slot := 1, Bytes := n, Wrote (rid req) := 1)"
    using assms(1) by (auto simp: fun_eq_iff)
  with assms show ?thesis
    by (intro wp_bind wp_end_write [where m = m])
       (auto intro!: wp_neutral wp_give_back wp_send_ack_ok wp_ws_initiateClose simp: fun_upd_twist fun_upd_idem)
qed

lemma wp_ws_not_written:
  assumes "0 \<le> n" "Q False (none(Mode WStopped := 1))"
  shows "wpw cfg Q (bind pending_read (\<lambda>pend. seq (give_back n)
      (bind (ws_abort abortFailure (f pend)) (\<lambda>won. seq end_write
         (bind (if won \<and> f pend \<noteq> None then Ret (f pend) else err_or (Some (Sentinel ErrClosed))) (\<lambda>sendErr.
            seq (send_ack req sendErr) (Ret False)))))))
     (none(Mode WStopped := 1, Slot := 1, Bytes := n, Ack (rid req) := 1))"
proof -
  let ?h = "none(Mode WStopped := 1, Ack (rid req) := 1)"
  have sw: "switch WStopped WStopped ?h = ?h" by (simp add: fun_eq_iff)
  have t: "wpw cfg Q (bind (if won \<and> x \<noteq> None then Ret x else err_or (Some (Sentinel ErrClosed))) (\<lambda>sendErr.
      seq (send_ack req sendErr) (Ret False))) (none(Mode WStopped := 1, Ack (rid req) := 1))" for won and x :: "gerr option"
    using assms by (auto intro!: wp_neutral wp_send_ack_err simp: fun_upd_twist fun_upd_idem)
  have e: "wpw cfg Q (seq end_write (bind (if won \<and> x \<noteq> None then Ret x else err_or (Some (Sentinel ErrClosed))) (\<lambda>sendErr.
      seq (send_ack req sendErr) (Ret False)))) (none(Mode WStopped := 1, Ack (rid req) := 1))" for won and x :: "gerr option"
    by (rule wp_bind, rule wp_end_write [where m = WStopped], simp, rule t) (simp only: sw, rule t)
  have k: "wpw cfg Q (bind (ws_abort abortFailure x) (\<lambda>won. seq end_write
      (bind (if won \<and> x \<noteq> None then Ret x else err_or (Some (Sentinel ErrClosed))) (\<lambda>sendErr.
         seq (send_ack req sendErr) (Ret False))))) ?h" for x
    by (rule wp_bind, rule wp_ws_abort, simp, simp, simp, rule e)
  let ?start = "none(Mode WStopped := 1, Slot := 1, Bytes := n, Ack (rid req) := 1)"
  have h0: "add Slot (-1) (add Bytes (- n) ?start) = ?h" by (auto simp: fun_eq_iff)
  show ?thesis
    by (rule wp_bind, rule wp_write_state(2), rule wp_bind, rule wp_give_back, rule sized_ws, rule assms(1), simp, simp)
       (simp only: h0, rule k)
qed

lemma wp_ws_handleOutbound:
  assumes "ws_good cfg req" "Q True (none(Mode (idle_mode dr) := 1))" "Q False (none(Mode WStopped := 1))"
  shows "wpw cfg Q (ws_handleOutbound cfg dr req) (grab req (none(Mode (busy dr (rid req)) := 1)))"
proof -
  let ?h = "grab req (none(Mode (busy dr (rid req)) := 1))"
  have n: "0 \<le> obytes req" using assms(1) by (simp add: ws_good_def)
  have h: "add (Wrote (rid req)) 1 (add (Ack (rid req)) (-1) (switch (busy dr (rid req)) (idle_mode dr) ?h))
      = none(Mode (idle_mode dr) := 1, Slot := 1, Bytes := obytes req, Wrote (rid req) := 1)"
    "switch (busy dr (rid req)) WStopped ?h = none(Mode WStopped := 1, Slot := 1, Bytes := obytes req, Ack (rid req) := 1)"
    by (auto simp: fun_eq_iff)
  note ok = wp_ws_written [of "idle_mode dr" "obytes req" Q cfg _ _ req "\<lambda>p. read_failure cfg (fst p)"]
  note bad = wp_ws_not_written [of "obytes req" Q cfg _ req]
  show ?thesis
    unfolding ws_handleOutbound_def Let_def
    by (intro wp_bind wp_write_state wp_do_write) (use n h assms ok bad in \<open>auto intro!: wp_write_state split: option.splits\<close>)
qed

lemma wp_ws_readError: "Q () none \<Longrightarrow> wpw cfg Q (ws_readError cfg' err) none"
  unfolding ws_readError_def Let_def
  by (auto intro!: wp_neutral wp_write_state wp_read_life wp_markReadClosed wp_ws_initiateClose split: option.splits)

lemma wp_ws_readerIteration: "(\<And>r. Q r none) \<Longrightarrow> wpw cfg Q (ws_readerIteration cfg' ) none"
  unfolding ws_readerIteration_def
  by (auto intro!: wp_neutral wp_ws_readError wp_ws_initiateClose split: option.splits sum.splits prod.splits)

lemma wp_ws_finalize: "Q () none \<Longrightarrow> Q () (none(Settled := 1)) \<Longrightarrow> wpw cfg Q ws_finalize none"
  unfolding ws_finalize_def
  by (auto intro!: wp_bind wp_final_begin wp_isClosing_settled ws_initiateClose_settled wp_close_done
      wp_get_err wp_call_out simp: fun_upd_idem fun_upd_twist)

lemma wp_ws_lifecycleResult: "wpw cfg told ws_lifecycleResult (none(Settled := 1))"
  unfolding ws_lifecycleResult_def
  by (auto intro!: wp_neutral wp_read_why simp: told_def split: option.splits)

lemma done_signal: "swf True g s \<Longrightarrow> sdone s \<or> signalled (slife s) abortCh \<Longrightarrow> settled (slife s)"
  using swf_life [of g s] by (auto simp: life_wf_def settled_def)

lemma wp_ws_Shutdown: "wpw cfg told (ws_Shutdown ctx) none"
  unfolding ws_Shutdown_def ws_requestShutdown_def
  by (auto intro!: wp_bind wp_cause_or wp_requested wp_shut_gate wp_wait_settled wp_ws_lifecycleResult done_signal
      ws_abort_settled simp: told_def split: option.splits)

lemma wp_ws_Close: "wpw cfg (\<lambda>r h. h = none) ws_Close none"
  unfolding ws_Close_def
  by (rule wp_bind, rule wp_frame) (auto intro!: wp_bind wp_ws_abort)

lemma wp_watch_waits:
  assumes "\<And>r. Q r h"
  shows "wpw cfg Q watch_drained h" "wpw cfg Q watch_timer h"
  unfolding watch_drained_def watch_timer_def
  by (rule wp_frame; use assms in \<open>auto split: ev.splits ws_io.splits if_splits\<close>)+

lemma wp_watch: "wpw cfg (\<lambda>r h. h = none) (watchCloseTimeout cfg') none"
  unfolding watchCloseTimeout_def by (auto intro!: wp_bind wp_watch_waits wp_ws_abort)

lemma wp_finishLocalGraceful:
  assumes "1 \<le> h Flushed" "0 \<le> h Closer" "h Settled = 0" "Q () h" "Q () (h(WriteSig := 1))"
  shows "wpw cfg Q (finishLocalGraceful cfg' err) h"
  unfolding finishLocalGraceful_def using assms
  by (auto intro!: wp_bind wp_markReadClosed wp_markWriteClosed_settled wp_tryMarkTerminal wp_close_body wp_ws_initiateClose
      simp: fun_upd_twist fun_upd_idem split: option.splits)

lemmas ws_handle_running = wp_ws_handleOutbound [where dr = False, simplified]
lemmas ws_handle_draining = wp_ws_handleOutbound [where dr = True, simplified]

lemma ws_body_writer: "wpw cfg (next_hold known ws_hold) (ws_body cfg WsWriter) (none(Mode WIdle := 1))"
  unfolding ws_body.simps
  by (rule wp_bind, rule wp_select_running, simp_all only: mode_switch writer_mode.distinct wres.case)
     (auto intro!: wp_bind ws_handle_running simp: next_hold_def Let_def ws_hold_def)

lemma ws_body_graceful: "wpw cfg (next_hold known ws_hold) (ws_body cfg WsGraceful) (none(Mode WIdle := 1))"
  unfolding ws_body.simps
  by (rule wp_bind, rule wp_select_graceful, simp_all only: mode_switch writer_mode.distinct wres.case)
     (auto intro!: wp_bind ws_handle_running simp: next_hold_def Let_def ws_hold_def)

lemma ws_body_drain: "wpw cfg (next_hold known ws_hold) (ws_body cfg WsDrain) (none(Mode WDraining := 1))"
  unfolding ws_body.simps
  by (rule wp_bind, rule wp_select_drain, simp_all only: mode_switch writer_mode.distinct wres.case)
     (auto intro!: wp_neutral ws_handle_draining wp_finishLocalGraceful
      simp: next_hold_def Let_def ws_hold_def split: option.splits)

lemma ws_body_exit: "wpw cfg (next_hold known ws_hold) (ws_body cfg WsExit) (none(Mode WStopped := 1))"
  unfolding ws_body.simps
  by (rule wp_bind, rule wp_wait_gate) (auto intro!: wp_neutral simp: next_hold_def Let_def ws_hold_def fun_eq_iff)

lemma ws_body_fail: "wpw cfg (next_hold known ws_hold) (ws_body cfg (WsFail err)) (none(Mode WFailing := 1))"
proof -
  have "ws_good cfg req \<Longrightarrow> 0 \<le> obytes req" for req by (simp add: ws_good_def)
  then show ?thesis
    unfolding ws_body.simps ws_failPending_def
    by (auto intro!: wp_neutral wp_select_fail wp_give_back wp_send_ack_err wp_writer_done
        simp: next_hold_def Let_def ws_hold_def fun_upd_twist fun_upd_idem split: option.splits)
qed

lemma wp_ws_waits:
  assumes "\<And>r. Q r h" "\<And>r. Q' r h"
  shows "wpw cfg Q ping_select h" "wpw cfg Q' ws_activity h"
  unfolding ping_select_def ws_activity_def
  by (rule wp_frame; use assms in \<open>auto split: ev.splits ws_io.splits if_splits\<close>)+

lemma ws_returned_hold: "told r h \<Longrightarrow> next_hold known ws_hold (Some (WsReturned r)) h"
  by (auto simp: told_def next_hold_def Let_def ws_hold_def)

lemma ws_body_calls:
  "wpw cfg (next_hold known ws_hold) (ws_body cfg (WsSend ctx msg)) none"
  "wpw cfg (next_hold known ws_hold) (ws_body cfg (WsTrySend msg)) none"
  "wpw cfg (next_hold known ws_hold) (ws_body cfg WsCloseCall) none"
  "wpw cfg (next_hold known ws_hold) (ws_body cfg WsWatch) none"
  by (auto intro!: wp_bind wp_mono [OF wp_ws_Send] wp_mono [OF wp_ws_TrySend] wp_mono [OF wp_ws_Close]
      wp_mono [OF wp_watch] simp: next_hold_def Let_def)

lemma ws_body_shutdown: "wpw cfg (next_hold known ws_hold) (ws_body cfg (WsShutdown ctx)) none"
  by (auto intro!: wp_bind wp_mono [OF wp_ws_Shutdown] ws_returned_hold)

lemma ws_body_rest:
  assumes "ws_hold l = none"
  shows "wpw cfg (next_hold known ws_hold) (ws_body cfg l) none"
  using assms ws_body_calls ws_body_shutdown
  by (cases l)
     (auto intro!: wp_neutral wp_ws_waits wp_ws_readerIteration wp_ws_initiateClose wp_ws_finalize wp_loop_done
      simp: next_hold_def Let_def ws_hold_def ws_reader_end_def split: option.splits if_splits)

lemma ws_body_returned: "wpw cfg (next_hold known ws_hold) (ws_body cfg (WsReturned r)) (ws_hold (WsReturned r))"
  by (simp add: next_hold_def ws_hold_def)

interpretation ws_loops: session_loops "ws_body cfg" "Collect ws_call" ws_hold
    "swf True (ws_good cfg)" keeps known own "ws_init cfg" for cfg
proof
  fix l k
  show "wpw cfg (next_hold known ws_hold) (ws_body cfg l) (ws_hold l)"
    using ws_body_writer ws_body_graceful ws_body_drain ws_body_exit ws_body_fail ws_body_rest ws_body_returned
    by (cases l) (simp_all only: ws_hold_def wlabel.case)
  show "0 \<le> ws_hold l k" by (auto simp: ws_hold_def split: wlabel.splits)
  show "l \<in> Collect ws_call \<Longrightarrow> ws_hold l = none" by (auto simp: ws_call_def ws_hold_def split: wlabel.splits)
  show "keeps s s" for s :: wss by (rule keeps_refl)
  show "keeps s s' \<Longrightarrow> keeps s' s'' \<Longrightarrow> keeps s s''" for s s' s'' :: wss by (rule keeps_trans)
  show "known k \<Longrightarrow> 0 \<le> own s k" "known k \<Longrightarrow> keeps s s' \<Longrightarrow> own s k \<le> own s' k" for s s' :: wss
    by (cases k; simp add: keeps_def)+
next
  fix sys
  assume "ws_init cfg sys"
  then show "swf True (ws_good cfg) (pst sys) \<and> (\<exists>ls. threads sys = map (ws_body cfg) ls
      \<and> (\<forall>l \<in> set ls. \<forall>k. known k \<longrightarrow> ws_hold l k = 0)
      \<and> (\<forall>k. \<not> known k \<longrightarrow> own (pst sys) k = sum_list (map (\<lambda>l. ws_hold l k) ls)))"
    by (auto simp: ws_init_def new_session_wf new_session_own ws_start_def ws_hold_def
        intro!: exI [of _ "ws_start a b" for a b])
qed

section \<open>Correctness of the session\<close>

abbreviation ws_running :: "ws_cfg \<Rightarrow> (ws_io ev, wss, wlabel) psys \<Rightarrow> bool" where
  "ws_running cfg \<equiv> reachable (ws_init cfg) (pstep (ws_body cfg) (Collect ws_call))"

text \<open>A run of a whole session: a message is sent, the session is shut down, and everything returns.\<close>

definition demo_plain :: ws_cfg where
  "demo_plain = demo_ws\<lparr>wsCipher := None\<rparr>"

definition ws_demo_sys :: "(ws_io ev, wss, wlabel) psys" where
  "ws_demo_sys = \<lparr>pst = new_session (\<lambda>l. l = WriterLoop \<or> l = ReaderLoop \<or> l = PingLoop \<and> False \<or> l = ActivityLoop \<and> False)
       1 8 (wss.fields newWriteState), threads = map (ws_body demo_plain) (ws_start False False)\<rparr>"

definition ws_demo_send :: "(ws_io ev, wlabel) move list" where
  "ws_demo_send = Go (WsSend (Some 0) \<lparr>msgType = PayloadBinary, msgData = [7]\<rparr>)
     # map (Do 3) [Tau, Tau, Chan, Chan, Io (WsRand (\<lambda>_. Inr [])), Tau, Tau, Ok, Chan]
     @ map (Do 0) [Chan, Tau, Io (WsWrite None), Io (WsContext None False), Tau, Tau, Tau, Tau, Tau, Tau, Tau]
     @ [Loop 0, Do 3 Chan, Do 3 Tau]"

definition ws_demo_end :: "(ws_io ev, wlabel) move list" where
  "ws_demo_end = Go (WsShutdown (Some 0)) # map (Do 4) [Tau, Tau, Tau]
     @ [Do 0 Sig, Loop 0, Do 0 Sig, Loop 0, Do 0 Tau, Do 0 Tau, Do 0 (Io (WsClose None))] @ replicate 6 (Do 0 Tau)
     @ [Loop 0, Do 0 Tau, Do 0 Tau, Loop 0, Do 0 Tau, Do 0 Tau, Do 0 Tau]
     @ [Do 1 Tau, Do 1 Tau, Do 1 Tau] @ replicate 7 (Do 2 Tau) @ [Do 4 Chan, Do 4 Tau, Do 4 Tau]"

lemma ws_demo_shut:
  "map_option (\<lambda>c. (map returned (threads c), length (enq (pst c)), acks (pst c)))
     (exec (ws_body demo_plain) ws_call (ws_demo_send @ ws_demo_end) ws_demo_sys)
   = Some (replicate 4 (Some None) @ [Some (Some (WsReturned None))], 1, [AckTaken None])"
  by code_simp

lemma ws_demo_over:
  "map_option (\<lambda>c. (map returned (threads c), length (enq (pst c))))
     (exec (ws_body demo_plain) ws_call (ws_demo_send @ ws_demo_end @ [Loop 4]) ws_demo_sys)
   = Some (replicate 5 (Some None), 1)"
  by code_simp

lemma ws_demo_exec:
  assumes "exec (ws_body demo_plain) ws_call ms ws_demo_sys = Some c"
  shows "ws_running demo_plain c"
proof (rule exec_reachable [OF assms], rule reach_init)
  show "ws_init demo_plain ws_demo_sys"
    unfolding ws_init_def ws_demo_sys_def
    by (intro exI [of _ False] exI [of _ 1] exI [of _ 8]) (simp add: max_int64_def)
qed

lemma ws_demo_shut_run:
  obtains c where "ws_running demo_plain c" "Ret (Some (WsReturned None)) \<in> set (threads c)"
    "length (enq (pst c)) = 1" "acks (pst c) = [AckTaken None]"
proof -
  obtain c where c: "exec (ws_body demo_plain) ws_call (ws_demo_send @ ws_demo_end) ws_demo_sys = Some c"
    "map returned (threads c) = replicate 4 (Some None) @ [Some (Some (WsReturned None))]"
    "length (enq (pst c)) = 1" "acks (pst c) = [AckTaken None]"
    using ws_demo_shut by auto
  have "Some (Some (WsReturned None)) \<in> set (map returned (threads c))" by (simp add: c(2))
  then obtain p where "p \<in> set (threads c)" "returned p = Some (Some (WsReturned None))" by auto
  with that ws_demo_exec [OF c(1)] c(3,4) show ?thesis by (simp only: returned_iff)
qed

text \<open>
  C25. However the calls and goroutines of a WebSocket session interleave, no channel is closed twice and no
  outcome is sent twice, slots, encoder and queued bytes stay within their limits, every queued
  payload is an encoding with its message type, the messages are written in the order of their
  admission, and an outcome is nil exactly for a message that was written.
\<close>

theorem ws_send_path:
  assumes "ws_running cfg c"
  shows "\<not> fault (pst c)
     \<and> 0 \<le> slots (pst c) \<and> slots (pst c) \<le> int (wqueue (pst c)) + 1 \<and> length (queue (pst c)) \<le> wqueue (pst c)
     \<and> 0 \<le> encs (pst c) \<and> encs (pst c) \<le> 1
     \<and> 0 \<le> qused (quota (pst c)) \<and> qused (quota (pst c)) \<le> qlimit (quota (pst c))
     \<and> (\<forall>req \<in> set (enq (pst c)). ws_good cfg req)
     \<and> written (pst c) = [0..<length (written (pst c))] \<and> length (written (pst c)) \<le> length (enq (pst c))
     \<and> (\<forall>r < length (acks (pst c)). \<forall>v. acks (pst c) ! r = AckFull v \<or> acks (pst c) ! r = AckTaken v \<longrightarrow>
          (v = None \<longleftrightarrow> r \<in> set (written (pst c))))"
  using ws_loops.reachable_W [OF assms] written_order [OF ws_loops.reachable_W [OF assms]]
    ws_loops.own_nonneg [OF assms, of Slot] ws_loops.own_nonneg [OF assms, of Enc]
  by (simp add: swf_def quota_wf_def ids_wf_def acks_wf_def)

theorem ws_send_path_witness:
  "\<exists>c. ws_running demo_plain c \<and> length (enq (pst c)) = 1 \<and> \<not> fault (pst c) \<and> 0 \<in> set (written (pst c))"
proof (rule ws_demo_shut_run)
  fix c
  assume "ws_running demo_plain c" "length (enq (pst c)) = 1" "acks (pst c) = [AckTaken None]"
  with ws_send_path [of demo_plain c] show ?thesis by (intro exI [of _ c]) simp
qed

text \<open>
  C24. When \<^verbatim>\<open>Shutdown\<close> of a WebSocket session returns nil, every message that was ever admitted has been
  written, in order, and no further one can be admitted.
\<close>

theorem ws_graceful:
  assumes "ws_running cfg c" "Ret (Some (WsReturned None)) \<in> set (threads c)"
  shows "written (pst c) = [0..<length (enq (pst c))] \<and> gclosed (gate (pst c)) \<and> gactive (gate (pst c)) = 0"
proof -
  have "flushed (pst c)"
    using ws_loops.label_known [OF assms, of Flushed] by (cases "flushed (pst c)") (simp_all add: ws_hold_def)
  with flushed_all ws_loops.reachable_W [OF assms(1)] show ?thesis by blast
qed

theorem ws_graceful_witness:
  "\<exists>c. ws_running demo_plain c \<and> Ret (Some (WsReturned None)) \<in> set (threads c)
     \<and> length (enq (pst c)) = 1 \<and> written (pst c) = [0]"
proof (rule ws_demo_shut_run)
  fix c
  assume "ws_running demo_plain c" "Ret (Some (WsReturned None)) \<in> set (threads c)" "length (enq (pst c)) = 1"
  with ws_graceful [of demo_plain c] show ?thesis by (intro exI [of _ c]) simp
qed

text \<open>
  C26. When every goroutine and every call of a WebSocket session has returned, no frame slot, encoder,
  queued byte, sender or queued request is left, and every admitted request got its outcome.
\<close>

theorem ws_no_leak:
  assumes "ws_running cfg c" "set (threads c) \<subseteq> {Ret None}"
  shows "slots (pst c) = 0 \<and> encs (pst c) = 0 \<and> qused (quota (pst c)) = 0 \<and> gactive (gate (pst c)) = 0
     \<and> queue (pst c) = [] \<and> (\<forall>r < length (enq (pst c)). acks (pst c) ! r \<noteq> AckEmpty)"
  using session_idle [OF ws_loops.reachable_W [OF assms(1)] ws_loops.quiescent [OF assms]] ws_loops.reachable_W [OF assms(1)]
  by (auto simp: swf_def ids_wf_def)

theorem ws_no_leak_witness:
  "\<exists>c. ws_running demo_plain c \<and> set (threads c) \<subseteq> {Ret None} \<and> length (enq (pst c)) = 1 \<and> slots (pst c) = 0"
proof -
  obtain c where c: "exec (ws_body demo_plain) ws_call (ws_demo_send @ ws_demo_end @ [Loop 4]) ws_demo_sys = Some c"
    "map returned (threads c) = replicate 5 (Some None)" "length (enq (pst c)) = 1"
    using ws_demo_over by auto
  with ws_no_leak [OF ws_demo_exec [OF c(1)] all_returned [OF c(2)]] ws_demo_exec [OF c(1)] all_returned [OF c(2)]
  show ?thesis by blast
qed

end
