(* ===== verification/Packet_Session.thy ===== *)
theory Packet_Session
  imports Session_Core Stream_IO
begin

text \<open>
  The packet connection (\<^verbatim>\<open>transport/packet.go\<close>, \<^verbatim>\<open>transport/packet_graceful.go\<close>,
  \<^verbatim>\<open>transport/packet_error_helpers.go\<close>): the methods and goroutines of a bound or connected UDP socket as
  programs over the actions of \<open>Session_Core\<close>. It has no lifecycle: the first \<^verbatim>\<open>initiateClose\<close> stores the
  terminal error, and a drain request closes the gate and lets the writer empty the queue.
\<close>

section \<open>Parameters\<close>

definition SchemeUDP :: Scheme where
  "SchemeUDP = 2"

text \<open>
  \<open>pplat\<close> is the platform's classification, \<open>pstatus\<close> the WebSocket library's status of an error, and
  \<open>premote\<close> is the address of a connected socket; \<open>udpString\<close> is \<^verbatim>\<open>(*net.UDPAddr).String\<close>.
\<close>

record packet_cfg =
  pplat :: "Op \<Rightarrow> gerr \<Rightarrow> (ErrorKind \<times> sentinel) option"
  pstatus :: "gerr \<Rightarrow> int"
  plocal :: "net_addr option"
  premote :: "ip_addr option"
  udpString :: "ip_addr \<Rightarrow> string"
  maxPacket :: int
  pReadIdle :: int

definition RemoteAddr :: "packet_cfg \<Rightarrow> net_addr option" where
  "RemoteAddr p = (case premote p of None \<Rightarrow> None | Some a \<Rightarrow> Some (UDPAddr (Some a)))"

text \<open>
  A \<^verbatim>\<open>*net.UDPAddr\<close> passed where a \<^verbatim>\<open>net.Addr\<close> is expected: a nil pointer makes an interface value that
  is not nil.
\<close>

definition as_addr :: "ip_addr option \<Rightarrow> net_addr option" where
  "as_addr peer = Some (UDPAddr peer)"

definition packet_operationalError :: "packet_cfg \<Rightarrow> Op \<Rightarrow> gerr option \<Rightarrow> net_addr option \<Rightarrow> gerr option" where
  "packet_operationalError p op cause remote =
     classifyOperational (pplat p) (pstatus p) op SchemeUDP (plocal p)
       (if remote = None then RemoteAddr p else remote) cause hintNone"

definition normalizePacketError :: "gerr option \<Rightarrow> gerr option" where
  "normalizePacketError err =
     (case err of None \<Rightarrow> None | Some e \<Rightarrow> if errors_is e NetErrClosed then None else Some e)"

text \<open>What the socket calls return: the two deadline calls and the transfer between them.\<close>

record packet_write =
  pwSet :: "gerr option"
  pwWrite :: "gerr option"
  pwClear :: "gerr option"

record packet_read =
  prSet :: "gerr option"
  prData :: bytes
  prPeer :: "ip_addr option"
  prErr :: "gerr option"
  prClear :: "gerr option"

datatype packet_io = PWrite packet_write | PRead packet_read | PExpire TimeoutKind

text \<open>\<^verbatim>\<open>drainOnce\<close> is the only state beside that of every session.\<close>

record pss = sst +
  drainOnce :: bool

type_synonym 'r pprog = "(packet_io, unit pss_ext, 'r) sprog"

section \<open>Peers and datagrams\<close>

text \<open>
  \<open>resolved\<close> is the answer of \<^verbatim>\<open>net.ResolveUDPAddr\<close>. A nil \<^verbatim>\<open>*net.UDPAddr\<close> is dereferenced, which panics: \<open>None\<close>.
\<close>

definition resolvePeer :: "packet_cfg \<Rightarrow> gerr + ip_addr \<Rightarrow> net_addr option \<Rightarrow> (gerr option + ip_addr option) option" where
  "resolvePeer p resolved peer =
     (case peer of
        None \<Rightarrow> Some (Inl (Some (Sentinel ErrPeerRequired)))
      | Some (UDPAddr None) \<Rightarrow> None
      | Some a \<Rightarrow>
          (case (case a of UDPAddr (Some u) \<Rightarrow> Inr u | _ \<Rightarrow> resolved) of
             Inl err \<Rightarrow> Some (Inl (packet_operationalError p OpSend
               (Some (FmtErrorf ''transport: resolve UDP peer: '' err)) None))
           | Inr target \<Rightarrow>
               (case premote p of
                  None \<Rightarrow> Some (Inr (Some target))
                | Some r \<Rightarrow>
                    if udpString p target \<noteq> udpString p r then Some (Inl (Some (Sentinel ErrPeerMismatch)))
                    else Some (Inr None))))"

definition validatePacket :: "packet_cfg \<Rightarrow> bytes \<Rightarrow> gerr option" where
  "validatePacket p data = (if int (length data) > maxPacket p then Some (Sentinel ErrDatagramTooLarge) else None)"

definition writeDatagram :: "packet_write \<Rightarrow> gerr option" where
  "writeDatagram w =
     (case pwSet w of
        Some e \<Rightarrow> Some (FmtErrorf ''transport: set UDP write deadline: '' e)
      | None \<Rightarrow>
          (case pwWrite w of
             Some e \<Rightarrow>
               if isTimeoutFailure e then Some (TimeoutErr TimeoutWrite (Some e))
               else Some (FmtErrorf ''transport: UDP write: '' e)
           | None \<Rightarrow> map_option (FmtErrorf ''transport: clear UDP write deadline: '') (pwClear w)))"

section \<open>Sending\<close>

definition packet_trySendError :: "packet_cfg \<Rightarrow> gerr \<Rightarrow> net_addr option \<Rightarrow> gerr option pprog" where
  "packet_trySendError p err peer =
     (let opErr = packet_operationalError p OpSend (Some err) peer in
      seq (if errors_is err ErrWouldBlock
           then seq (bump Backpressure 1) (call_out (Observe EventBackpressure 0 opErr)) else Ret ())
        (Ret opErr))"

definition packet_sendError :: "packet_cfg \<Rightarrow> nat \<Rightarrow> gerr \<Rightarrow> net_addr option \<Rightarrow> gerr option pprog" where
  "packet_sendError p c err remote = cause_or c (Ret (packet_operationalError p OpSend (Some err) remote))"

definition acquireSlot :: "nat \<Rightarrow> gerr option pprog" where
  "acquireSlot c = acquire_chan slot_room slot_put c"

definition tryAcquireSlot :: "gerr option pprog" where
  "tryAcquireSlot = try_chan slot_room slot_put"

definition packet_request :: "bool \<Rightarrow> ip_addr option \<Rightarrow> bytes \<Rightarrow> outbound" where
  "packet_request ack peer data =
     \<lparr>rid = 0, otyp = 0, oframe = data, oack = ack, obytes = int (length data), opayload = int (length data),
      odest = map_option (\<lambda>a. UDPAddr (Some a)) peer\<rparr>"

definition request_peer :: "outbound \<Rightarrow> net_addr option" where
  "request_peer req = (case odest req of None \<Rightarrow> as_addr None | Some a \<Rightarrow> Some a)"

definition packet_closed :: "packet_cfg \<Rightarrow> net_addr option \<Rightarrow> gerr option" where
  "packet_closed p peer = packet_operationalError p OpSend (Some (Sentinel ErrClosed)) peer"

definition packet_awaitOutcome :: "packet_cfg \<Rightarrow> nat \<Rightarrow> ip_addr option \<Rightarrow> nat \<Rightarrow> gerr option pprog" where
  "packet_awaitOutcome p c peer r =
     bind (await_ack c r) (\<lambda>a. case a of
       AVal v \<Rightarrow> Ret v
     | ACtx cause \<Rightarrow> Ret (Some cause)
     | AClosing \<Rightarrow> bind (poll_ack r) (\<lambda>x. case x of
         Some v \<Rightarrow> Ret v
       | None \<Rightarrow> cause_or c (err_or (packet_closed p (as_addr peer)))))"

definition packet_prepare ::
  "packet_cfg \<Rightarrow> nat \<Rightarrow> ip_addr option \<Rightarrow> bytes \<Rightarrow> (gerr option + unit) pprog"
where
  "packet_prepare p c peer data =
     bind (acquireSlot c) (\<lambda>r. case r of
       Some err \<Rightarrow> bind (packet_sendError p c err (as_addr peer)) (\<lambda>e. Ret (Inl e))
     | None \<Rightarrow> bind (quota_acquire c (int (length data))) (\<lambda>r. case r of
         Some err \<Rightarrow> bind (after (packet_sendError p c err (as_addr peer)) release_slot) (\<lambda>e. Ret (Inl e))
       | None \<Rightarrow> Ret (Inr ())))"

definition packet_send :: "packet_cfg \<Rightarrow> nat option \<Rightarrow> ip_addr option \<Rightarrow> bytes \<Rightarrow> gerr option pprog" where
  "packet_send p ctx peer data =
     (case ctx of
        None \<Rightarrow> Ret (Some (Sentinel ErrNilContext))
      | Some c \<Rightarrow> cause_or c (bind enter (\<lambda>ok.
          if \<not> ok then Ret (packet_closed p (as_addr peer)) else
          after
            (case validatePacket p data of
               Some err \<Rightarrow> Ret (packet_operationalError p OpSend (Some err) (as_addr peer))
             | None \<Rightarrow> bind (packet_prepare p c peer data) (\<lambda>x. case x of
                 Inl err \<Rightarrow> Ret err
               | Inr _ \<Rightarrow> bind (enqueue c (packet_request True peer data)) (\<lambda>q. case q of
                   QCtx cause \<Rightarrow> seq (give_back (int (length data))) (Ret (Some cause))
                 | QClosing \<Rightarrow>
                     seq (give_back (int (length data))) (cause_or c (err_or (packet_closed p (as_addr peer))))
                 | QSent r \<Rightarrow> packet_awaitOutcome p c peer r
                 | QFull \<Rightarrow> Ret None)))
            leave)))"

definition packet_tryPrepare :: "packet_cfg \<Rightarrow> ip_addr option \<Rightarrow> bytes \<Rightarrow> (gerr option + unit) pprog" where
  "packet_tryPrepare p peer data =
     bind tryAcquireSlot (\<lambda>r. case r of
       Some err \<Rightarrow> bind (packet_trySendError p err (as_addr peer)) (\<lambda>e. Ret (Inl e))
     | None \<Rightarrow> bind (quota_try (int (length data))) (\<lambda>r. case r of
         Some err \<Rightarrow> bind (after (packet_trySendError p err (as_addr peer)) release_slot) (\<lambda>e. Ret (Inl e))
       | None \<Rightarrow> Ret (Inr ())))"

definition packet_trySend :: "packet_cfg \<Rightarrow> ip_addr option \<Rightarrow> bytes \<Rightarrow> gerr option pprog" where
  "packet_trySend p peer data = bind enter (\<lambda>ok.
     if \<not> ok then Ret (packet_closed p (as_addr peer)) else
     after
       (case validatePacket p data of
          Some err \<Rightarrow> Ret (packet_operationalError p OpSend (Some err) (as_addr peer))
        | None \<Rightarrow> bind (packet_tryPrepare p peer data) (\<lambda>x. case x of
            Inl err \<Rightarrow> Ret err
          | Inr _ \<Rightarrow> bind (try_enqueue (packet_request False peer data)) (\<lambda>q. case q of
              QClosing \<Rightarrow> seq (give_back (int (length data))) (err_or (packet_closed p (as_addr peer)))
            | QSent r \<Rightarrow> Ret None
            | QFull \<Rightarrow> seq (give_back (int (length data))) (packet_trySendError p (Sentinel ErrWouldBlock) (as_addr peer))
            | QCtx cause \<Rightarrow> Ret None)))
       leave)"

definition packet_Send :: "packet_cfg \<Rightarrow> nat option \<Rightarrow> bytes \<Rightarrow> gerr option pprog" where
  "packet_Send p ctx data =
     (if premote p = None then Ret (Some (Sentinel ErrNotConnected)) else packet_send p ctx None data)"

definition packet_TrySend :: "packet_cfg \<Rightarrow> bytes \<Rightarrow> gerr option pprog" where
  "packet_TrySend p data =
     (if premote p = None then Ret (Some (Sentinel ErrNotConnected)) else packet_trySend p None data)"

text \<open>A call that panics never returns.\<close>

definition panic :: "'r pprog" where
  "panic = Act (\<lambda>e s. None)"

definition SendTo :: "packet_cfg \<Rightarrow> nat option \<Rightarrow> gerr + ip_addr \<Rightarrow> net_addr option \<Rightarrow> bytes \<Rightarrow> gerr option pprog" where
  "SendTo p ctx resolved peer data =
     (case resolvePeer p resolved peer of
        None \<Rightarrow> panic
      | Some (Inl err) \<Rightarrow> Ret err
      | Some (Inr target) \<Rightarrow> packet_send p ctx target data)"

definition TrySendTo :: "packet_cfg \<Rightarrow> gerr + ip_addr \<Rightarrow> net_addr option \<Rightarrow> bytes \<Rightarrow> gerr option pprog" where
  "TrySendTo p resolved peer data =
     (case resolvePeer p resolved peer of
        None \<Rightarrow> panic
      | Some (Inl err) \<Rightarrow> Ret err
      | Some (Inr target) \<Rightarrow> packet_trySend p target data)"

section \<open>Closing\<close>

definition packet_initiateClose :: "gerr option \<Rightarrow> unit pprog" where
  "packet_initiateClose cause =
     close_body (case cause of
        None \<Rightarrow> None
      | Some e \<Rightarrow> if errors_as is_Error e = None then normalizePacketError (Some e) else Some e)"

definition packet_Close :: "gerr option pprog" where
  "packet_Close = seq (packet_initiateClose None) (Ret None)"

text \<open>\<^verbatim>\<open>drainOnce.Do\<close>: a later caller waits until the first one has run the body.\<close>

definition drain_begin :: "bool pprog" where
  "drain_begin = atom (\<lambda>e s.
     if \<not> drainOnce s then Some (s\<lparr>drainOnce := True\<rparr>, True)
     else if drainReq s then Some (s, False) else None)"

definition close_drainReq :: "unit pprog" where
  "close_drainReq = atom (\<lambda>e s. Some (s\<lparr>drainReq := True\<rparr>, ()))"

definition requestDrain :: "unit pprog" where
  "requestDrain = bind drain_begin (\<lambda>first. if first then seq shut_gate close_drainReq else Ret ())"

section \<open>The writer\<close>

definition packet_handleOutbound :: "packet_cfg \<Rightarrow> bool \<Rightarrow> outbound \<Rightarrow> bool pprog" where
  "packet_handleOutbound p draining req =
     bind (do_write (\<lambda>x. case x of PWrite w \<Rightarrow> Some (writeDatagram w) | _ \<Rightarrow> None) (\<lambda>err. err = None) draining req) (\<lambda>err.
     seq (give_back (obytes req))
       (case err of
          None \<Rightarrow>
            seq (bump BytesTX (of_int (obytes req))) (seq (bump MessagesTX 1)
              (seq (call_out (Observe EventWrite (of_int (obytes req)) None))
                (seq (send_ack req None) (Ret True))))
        | Some e \<Rightarrow>
            seq (packet_initiateClose (packet_operationalError p OpWrite (Some e) (request_peer req)))
              (bind (err_or (packet_closed p (request_peer req))) (\<lambda>sendErr.
                 seq (send_ack req sendErr) (Ret False)))))"

definition packet_failPending :: "packet_cfg \<Rightarrow> bool pprog" where
  "packet_failPending p = bind select_fail (\<lambda>r. case r of
     None \<Rightarrow> Ret False
   | Some req \<Rightarrow>
       seq (give_back (obytes req))
         (bind (err_or (packet_closed p (request_peer req))) (\<lambda>err. seq (send_ack req err) (Ret True))))"

section \<open>The reader\<close>

definition read_deadline :: "packet_cfg \<Rightarrow> bool" where
  "read_deadline p \<longleftrightarrow> premote p \<noteq> None \<and> pReadIdle p > 0"

definition packet_readError :: "packet_cfg \<Rightarrow> gerr \<Rightarrow> net_addr option \<Rightarrow> unit pprog" where
  "packet_readError p err peer = bind isClosing (\<lambda>b.
     if b then Ret ()
     else if read_deadline p \<and> isTimeoutFailure err then
       packet_initiateClose (packet_operationalError p OpReceive (Some (TimeoutErr TimeoutReadIdle (Some err))) peer)
     else packet_initiateClose (case normalizePacketError (Some err) of
         Some e \<Rightarrow> packet_operationalError p OpReceive (Some e) peer
       | None \<Rightarrow> None))"

text \<open>One iteration; \<open>False\<close> when the loop returns. An oversize datagram is dropped and counted.\<close>

definition packet_readerIteration :: "packet_cfg \<Rightarrow> bool pprog" where
  "packet_readerIteration p =
     bind (io_call (\<lambda>x. case x of PRead r \<Rightarrow> Some r | _ \<Rightarrow> None)) (\<lambda>r.
       let peer = (if premote p = None then prPeer r else premote p); n = length (prData r) in
       if read_deadline p \<and> prSet r \<noteq> None then
         seq (packet_initiateClose (packet_operationalError p OpReceive
                (map_option (FmtErrorf ''transport: set UDP read deadline: '') (prSet r)) (as_addr (premote p)))) (Ret False)
       else if read_deadline p \<and> prClear r \<noteq> None \<and> prErr r = None then
         seq (packet_initiateClose (packet_operationalError p OpReceive
                (map_option (FmtErrorf ''transport: clear UDP read deadline: '') (prClear r)) (as_addr peer))) (Ret False)
       else case prErr r of
         Some err \<Rightarrow> seq (packet_readError p err (as_addr peer)) (Ret False)
       | None \<Rightarrow>
           if int n > maxPacket p then
             seq (bump DroppedDatagrams 1) (seq (call_out (Observe EventDrop (of_nat n) None)) (Ret True))
           else
             seq (bump BytesRX (of_nat n)) (seq (bump MessagesRX 1)
               (seq (call_out (Observe EventRead (of_nat n) None))
                 (seq (call_out (OnPacket (as_addr peer) (prData r))) (bind isClosing (\<lambda>b. Ret (\<not> b)))))))"

section \<open>The goroutines\<close>

definition packet_finalize :: "unit pprog" where
  "packet_finalize = bind final_begin (\<lambda>first.
     if \<not> first then Ret () else
     seq (packet_initiateClose None)
       (bind get_err (\<lambda>err.
          seq (call_out (Observe EventClose 0 err)) (bind get_err (\<lambda>err. seq (call_out (OnClose err)) close_done)))))"

datatype plabel = PWriter | PDraining | PDrain | PExit | PFail | PReader | PActivity | PFinalize
  | PSend "nat option" bytes | PTrySend bytes
  | PSendTo "nat option" "gerr + ip_addr" "net_addr option" bytes | PTrySendTo "gerr + ip_addr" "net_addr option" bytes
  | PClose | PRequestDrain | PListenCtx nat | PCancel nat gerr gerr

definition packet_activity :: "TimeoutKind option pprog" where
  "packet_activity = atom (\<lambda>e s. case e of
       Closing \<Rightarrow> if closing s then Some (s, None) else None
     | Io (PExpire k) \<Rightarrow> Some (s, Some k)
     | _ \<Rightarrow> None)"

fun packet_body :: "packet_cfg \<Rightarrow> plabel \<Rightarrow> plabel option pprog" where
  "packet_body p PWriter =
     bind (select_running drainReq) (\<lambda>w. case w of
       WClosing \<Rightarrow> Ret (Some PExit)
     | WDrain \<Rightarrow> Ret (Some PDraining)
     | WReq req \<Rightarrow> bind (packet_handleOutbound p False req) (\<lambda>ok. Ret (Some (if ok then PWriter else PExit)))
     | _ \<Rightarrow> Ret None)"
| "packet_body p PDraining =
     bind select_graceful (\<lambda>w. case w of
       WClosing \<Rightarrow> Ret (Some PExit)
     | WGateDone \<Rightarrow> Ret (Some PDrain)
     | WReq req \<Rightarrow> bind (packet_handleOutbound p False req) (\<lambda>ok. Ret (Some (if ok then PDraining else PExit)))
     | _ \<Rightarrow> Ret None)"
| "packet_body p PDrain =
     bind select_drain (\<lambda>w. case w of
       WReq req \<Rightarrow> bind (packet_handleOutbound p True req) (\<lambda>ok. Ret (Some (if ok then PDrain else PExit)))
     | WEmpty \<Rightarrow> seq (packet_initiateClose None) (Ret (Some PExit))
     | _ \<Rightarrow> Ret None)"
| "packet_body p PExit = seq wait_gate (Ret (Some PFail))"
| "packet_body p PFail = bind (packet_failPending p) (\<lambda>more.
     if more then Ret (Some PFail) else seq (loop_done WriterLoop) (Ret None))"
| "packet_body p PReader = bind (packet_readerIteration p) (\<lambda>more.
     if more then Ret (Some PReader) else seq (loop_done ReaderLoop) (Ret None))"
| "packet_body p PActivity =
     bind packet_activity (\<lambda>r.
     seq (case r of None \<Rightarrow> Ret ()
          | Some k \<Rightarrow> packet_initiateClose (packet_operationalError p OpReceive (Some (TimeoutErr k None)) (as_addr (premote p))))
       (seq (loop_done ActivityLoop) (Ret None)))"
| "packet_body p PFinalize = seq packet_finalize (Ret None)"
| "packet_body p (PSend ctx data) = seq (packet_Send p ctx data) (Ret None)"
| "packet_body p (PTrySend data) = seq (packet_TrySend p data) (Ret None)"
| "packet_body p (PSendTo ctx resolved peer data) = seq (SendTo p ctx resolved peer data) (Ret None)"
| "packet_body p (PTrySendTo resolved peer data) = seq (TrySendTo p resolved peer data) (Ret None)"
| "packet_body p PClose = seq packet_Close (Ret None)"
| "packet_body p PRequestDrain = seq requestDrain (Ret None)"
| "packet_body p (PListenCtx c) =
     bind (wait_signal sdone (\<lambda>s. False) c) (\<lambda>w. case w of
       CtxCause cause \<Rightarrow> seq (packet_initiateClose None) (Ret None)
     | _ \<Rightarrow> Ret None)"
| "packet_body p (PCancel c err cause) = seq (cancel_ctx c err cause) (Ret None)"

definition packet_start :: "bool \<Rightarrow> plabel list" where
  "packet_start activity = [PWriter, PReader] @ (if activity then [PActivity] else []) @ [PFinalize]"

definition packet_call :: "plabel \<Rightarrow> bool" where
  "packet_call l = (case l of PSend _ _ \<Rightarrow> True | PTrySend _ \<Rightarrow> True | PSendTo _ _ _ _ \<Rightarrow> True | PTrySendTo _ _ _ \<Rightarrow> True
     | PClose \<Rightarrow> True | PRequestDrain \<Rightarrow> True | PListenCtx _ \<Rightarrow> True | PCancel _ _ _ \<Rightarrow> True | _ \<Rightarrow> False)"

definition packet_init :: "packet_cfg \<Rightarrow> (packet_io ev, pss, plabel) psys \<Rightarrow> bool" where
  "packet_init p sys \<longleftrightarrow> (\<exists>activity wq maxQueued. 0 \<le> maxQueued \<and> 2 * maxQueued \<le> max_int64 \<and>
     sys = \<lparr>pst = new_session (\<lambda>l. l = WriterLoop \<or> l = ReaderLoop \<or> l = ActivityLoop \<and> activity) wq maxQueued (pss.fields False),
            threads = map (packet_body p) (packet_start activity)\<rparr>)"

section \<open>The contract of the goroutines\<close>

text \<open>
  A queued datagram fits the limit, and names a destination exactly on a socket that is not connected.
\<close>

definition packet_good :: "packet_cfg \<Rightarrow> outbound \<Rightarrow> bool" where
  "packet_good p req \<longleftrightarrow> obytes req = int (length (oframe req)) \<and> obytes req \<le> maxPacket p
     \<and> (odest req = None \<longleftrightarrow> premote p \<noteq> None)"

definition packet_hold :: "plabel \<Rightarrow> res holding" where
  "packet_hold l =
     (case l of
        PWriter \<Rightarrow> none(Mode WIdle := 1)
      | PDraining \<Rightarrow> none(Mode WIdle := 1)
      | PDrain \<Rightarrow> none(Mode WDraining := 1)
      | PExit \<Rightarrow> none(Mode WStopped := 1)
      | PFail \<Rightarrow> none(Mode WFailing := 1)
      | _ \<Rightarrow> none)"

abbreviation wpp ::
  "packet_cfg \<Rightarrow> ('r \<Rightarrow> res holding \<Rightarrow> bool) \<Rightarrow> 'r pprog \<Rightarrow> res holding \<Rightarrow> bool"
where
  "wpp p \<equiv> wps False (packet_good p)"

lemma sized_packet [simp]: "sized (packet_good p)"
  by (simp add: sized_def packet_good_def)

lemma classify_closed: "classifyOperational plat st OpSend pr l r (Some (Sentinel ErrClosed)) hintNone =
    Some (OpErr OpSend pr ErrorClosed (snapshotAddr l) (snapshotAddr r) (Some (Sentinel ErrClosed)))"
  by code_simp

lemma packet_closed_Some [simp]: "\<exists>err. packet_closed p a = Some err"
  by (simp add: packet_closed_def packet_operationalError_def classify_closed)

lemma wp_packet_initiateClose: "0 \<le> h Closer \<Longrightarrow> Q () h \<Longrightarrow> wpp p Q (packet_initiateClose cause) h"
  unfolding packet_initiateClose_def by (auto intro!: wp_close_body)

lemma wp_drain:
  "(\<And>r. Q r h) \<Longrightarrow> wpp p Q drain_begin h" "Q' () h \<Longrightarrow> wpp p Q' close_drainReq h"
  unfolding drain_begin_def close_drainReq_def by (rule wp_frame; auto split: if_splits)+

lemma wp_packet_errors:
  assumes "\<And>r. Q r h"
  shows "wpp p Q (packet_sendError p' c err a) h" "wpp p Q (packet_trySendError p' err a) h"
    "wpp p Q (packet_awaitOutcome p' c peer r) h"
  unfolding packet_sendError_def packet_trySendError_def packet_awaitOutcome_def Let_def using assms
  by (auto intro!: wp_neutral split: ares.splits option.splits)

lemma wp_packet_slots:
  assumes "Q None (add Slot 1 h)" and "\<And>err. Q (Some err) h"
  shows "wpp p Q (acquireSlot c) h" "wpp p Q tryAcquireSlot h"
  unfolding acquireSlot_def tryAcquireSlot_def using assms by (simp_all only: wp_acquire_slot)

lemma wp_packet_prepare:
  assumes "0 \<le> h Slot" "0 \<le> h Bytes" "\<And>err. Q (Inl err) h" "Q (Inr ()) (add Bytes (int (length data)) (add Slot 1 h))"
  shows "wpp p Q (packet_prepare p' c peer data) h" "wpp p Q (packet_tryPrepare p' peer data) h"
  unfolding packet_prepare_def packet_tryPrepare_def using assms
  by (auto intro!: wp_neutral wp_packet_slots wp_packet_errors wp_release_slot wp_quota_acquire
      simp: fun_upd_twist fun_upd_idem split: option.splits sum.splits)

lemma packet_good_request:
  "validatePacket p data = None \<Longrightarrow> (peer = None \<longleftrightarrow> premote p \<noteq> None) \<Longrightarrow>
    packet_good p ((packet_request ack peer data)\<lparr>rid := i\<rparr>)"
  by (auto simp: packet_good_def packet_request_def validatePacket_def split: if_splits)

lemma packet_request_bytes [simp]: "obytes (packet_request ack peer data) = int (length data)"
  by (simp add: packet_request_def)

lemma wp_packet_send:
  assumes "peer = None \<longleftrightarrow> premote p \<noteq> None"
  shows "wpp p (\<lambda>r h. h = none) (packet_send p ctx peer data) none"
  unfolding packet_send_def using assms
  by (auto intro!: wp_neutral wp_enter wp_leave wp_packet_prepare wp_packet_errors wp_enqueue wp_give_back packet_good_request
      simp: fun_upd_twist fun_upd_idem split: option.splits sum.splits qres.splits)

lemma wp_packet_trySend:
  assumes "peer = None \<longleftrightarrow> premote p \<noteq> None"
  shows "wpp p (\<lambda>r h. h = none) (packet_trySend p peer data) none"
  unfolding packet_trySend_def using assms
  by (auto intro!: wp_neutral wp_enter wp_leave wp_packet_prepare wp_packet_errors wp_enqueue wp_give_back packet_good_request
      simp: fun_upd_twist fun_upd_idem split: option.splits sum.splits qres.splits)

lemma resolvePeer_peer: "resolvePeer p resolved peer = Some (Inr target) \<Longrightarrow> target = None \<longleftrightarrow> premote p \<noteq> None"
  by (auto simp: resolvePeer_def split: option.splits net_addr.splits sum.splits if_splits)

lemma wp_panic: "wpp p Q panic h"
  unfolding panic_def by (rule wp_Act) simp

lemma wp_packet_sends:
  "wpp p (\<lambda>r h. h = none) (packet_Send p ctx data) none"
  "wpp p (\<lambda>r h. h = none) (packet_TrySend p data) none"
  "wpp p (\<lambda>r h. h = none) (SendTo p ctx resolved peer data) none"
  "wpp p (\<lambda>r h. h = none) (TrySendTo p resolved peer data) none"
  unfolding packet_Send_def packet_TrySend_def SendTo_def TrySendTo_def
  by (auto intro!: wp_packet_send wp_packet_trySend wp_panic dest: resolvePeer_peer split: option.splits sum.splits)

text \<open>A request after its write, by the outcome of the write.\<close>

lemma wp_packet_written:
  assumes "0 \<le> n" "Q True (none(Mode m := 1))"
  shows "wpp p Q (seq (give_back n) (seq (bump BytesTX b) (seq (bump MessagesTX 1) (seq (call_out x)
      (seq (send_ack req None) (Ret True)))))) (none(Mode m := 1, Slot := 1, Bytes := n, Wrote (rid req) := 1))"
  using assms by (auto intro!: wp_neutral wp_give_back wp_send_ack_ok simp: fun_upd_twist fun_upd_idem)

lemma wp_packet_not_written:
  assumes "0 \<le> n" "Q False (none(Mode WStopped := 1))"
  shows "wpp p Q (seq (give_back n) (seq (packet_initiateClose x) (bind (err_or (packet_closed p' a)) (\<lambda>sendErr.
      seq (send_ack req sendErr) (Ret False))))) (none(Mode WStopped := 1, Slot := 1, Bytes := n, Ack (rid req) := 1))"
  using assms
  by (auto intro!: wp_neutral wp_give_back wp_packet_initiateClose wp_send_ack_err simp: fun_upd_twist fun_upd_idem)

lemma wp_packet_handleOutbound:
  assumes "packet_good p req" "Q True (none(Mode (idle_mode dr) := 1))" "Q False (none(Mode WStopped := 1))"
  shows "wpp p Q (packet_handleOutbound p dr req) (grab req (none(Mode (busy dr (rid req)) := 1)))"
proof -
  let ?h = "grab req (none(Mode (busy dr (rid req)) := 1))"
  have n: "0 \<le> obytes req" using assms(1) by (simp add: packet_good_def)
  have h: "add (Wrote (rid req)) 1 (add (Ack (rid req)) (-1) (switch (busy dr (rid req)) (idle_mode dr) ?h))
      = none(Mode (idle_mode dr) := 1, Slot := 1, Bytes := obytes req, Wrote (rid req) := 1)"
    "switch (busy dr (rid req)) WStopped ?h = none(Mode WStopped := 1, Slot := 1, Bytes := obytes req, Ack (rid req) := 1)"
    by (auto simp: fun_eq_iff)
  note ok = wp_packet_written [of "obytes req" Q "idle_mode dr" p _ _ req, OF n assms(2)]
  note bad = wp_packet_not_written [of "obytes req" Q p _ p _ req, OF n assms(3)]
  show ?thesis
    unfolding packet_handleOutbound_def
    by (rule wp_bind, rule wp_do_write) (use h ok bad in \<open>auto split: option.splits\<close>)
qed

lemma wp_packet_readerIteration: "(\<And>r. Q r none) \<Longrightarrow> wpp p Q (packet_readerIteration p') none"
  unfolding packet_readerIteration_def packet_readError_def Let_def
  by (auto intro!: wp_neutral wp_packet_initiateClose split: option.splits)

lemma wp_packet_finalize: "Q () none \<Longrightarrow> wpp p Q packet_finalize none"
  unfolding packet_finalize_def
  by (auto intro!: wp_neutral wp_final_begin wp_packet_initiateClose wp_close_done simp: fun_upd_idem fun_upd_twist)

lemmas packet_handle_running = wp_packet_handleOutbound [where dr = False, simplified]
lemmas packet_handle_draining = wp_packet_handleOutbound [where dr = True, simplified]

lemma packet_body_writer: "wpp p (next_hold known packet_hold) (packet_body p PWriter) (none(Mode WIdle := 1))"
  unfolding packet_body.simps
  by (rule wp_bind, rule wp_select_running, simp_all only: mode_switch writer_mode.distinct wres.case)
     (auto intro!: wp_bind packet_handle_running simp: next_hold_def Let_def packet_hold_def)

lemma packet_body_draining: "wpp p (next_hold known packet_hold) (packet_body p PDraining) (none(Mode WIdle := 1))"
  unfolding packet_body.simps
  by (rule wp_bind, rule wp_select_graceful, simp_all only: mode_switch writer_mode.distinct wres.case)
     (auto intro!: wp_bind packet_handle_running simp: next_hold_def Let_def packet_hold_def)

lemma packet_body_drain: "wpp p (next_hold known packet_hold) (packet_body p PDrain) (none(Mode WDraining := 1))"
  unfolding packet_body.simps
  by (rule wp_bind, rule wp_select_drain, simp_all only: mode_switch writer_mode.distinct wres.case)
     (auto intro!: wp_neutral packet_handle_draining wp_packet_initiateClose
      simp: next_hold_def Let_def packet_hold_def)

lemma packet_body_exit: "wpp p (next_hold known packet_hold) (packet_body p PExit) (none(Mode WStopped := 1))"
  unfolding packet_body.simps
  by (rule wp_bind, rule wp_wait_gate) (auto intro!: wp_neutral simp: next_hold_def Let_def packet_hold_def fun_eq_iff)

lemma packet_body_fail: "wpp p (next_hold known packet_hold) (packet_body p PFail) (none(Mode WFailing := 1))"
proof -
  have "packet_good p req \<Longrightarrow> 0 \<le> obytes req" for req by (simp add: packet_good_def)
  then show ?thesis
    unfolding packet_body.simps packet_failPending_def
    by (auto intro!: wp_neutral wp_select_fail wp_give_back wp_send_ack_err wp_writer_done
        simp: next_hold_def Let_def packet_hold_def fun_upd_twist fun_upd_idem split: option.splits)
qed

lemma wp_packet_activity: "(\<And>r. Q r h) \<Longrightarrow> wpp p Q packet_activity h"
  unfolding packet_activity_def by (rule wp_frame) (auto split: ev.splits packet_io.splits if_splits)

lemma packet_body_calls:
  "wpp p (next_hold known packet_hold) (packet_body p (PSend ctx data)) none"
  "wpp p (next_hold known packet_hold) (packet_body p (PTrySend data)) none"
  "wpp p (next_hold known packet_hold) (packet_body p (PSendTo ctx resolved peer data)) none"
  "wpp p (next_hold known packet_hold) (packet_body p (PTrySendTo resolved peer data)) none"
  by (auto intro!: wp_bind wp_mono [OF wp_packet_sends(1)] wp_mono [OF wp_packet_sends(2)]
      wp_mono [OF wp_packet_sends(3)] wp_mono [OF wp_packet_sends(4)] simp: next_hold_def Let_def)

lemma packet_body_rest:
  assumes "packet_hold l = none"
  shows "wpp p (next_hold known packet_hold) (packet_body p l) none"
  using assms packet_body_calls
  by (cases l)
     (auto intro!: wp_neutral wp_packet_activity wp_packet_readerIteration wp_packet_initiateClose wp_packet_finalize
      wp_loop_done wp_drain simp: next_hold_def Let_def packet_hold_def packet_Close_def requestDrain_def
      split: option.splits if_splits wait_result.splits)

interpretation packet_loops: session_loops "packet_body p" "Collect packet_call" packet_hold
    "swf False (packet_good p)" keeps known own "packet_init p" for p
proof
  fix l k
  show "wpp p (next_hold known packet_hold) (packet_body p l) (packet_hold l)"
    using packet_body_writer packet_body_draining packet_body_drain packet_body_exit packet_body_fail packet_body_rest
    by (cases l) (simp_all only: packet_hold_def plabel.case)
  show "0 \<le> packet_hold l k" by (auto simp: packet_hold_def split: plabel.splits)
  show "l \<in> Collect packet_call \<Longrightarrow> packet_hold l = none" by (auto simp: packet_call_def packet_hold_def split: plabel.splits)
  show "keeps s s" for s :: pss by (rule keeps_refl)
  show "keeps s s' \<Longrightarrow> keeps s' s'' \<Longrightarrow> keeps s s''" for s s' s'' :: pss by (rule keeps_trans)
  show "known k \<Longrightarrow> 0 \<le> own s k" "known k \<Longrightarrow> keeps s s' \<Longrightarrow> own s k \<le> own s' k" for s s' :: pss
    by (cases k; simp add: keeps_def)+
next
  fix sys
  assume "packet_init p sys"
  then show "swf False (packet_good p) (pst sys) \<and> (\<exists>ls. threads sys = map (packet_body p) ls
      \<and> (\<forall>l \<in> set ls. \<forall>k. known k \<longrightarrow> packet_hold l k = 0)
      \<and> (\<forall>k. \<not> known k \<longrightarrow> own (pst sys) k = sum_list (map (\<lambda>l. packet_hold l k) ls)))"
    by (auto simp: packet_init_def new_session_wf new_session_own packet_start_def packet_hold_def
        intro!: exI [of _ "packet_start a" for a])
qed

section \<open>Correctness of the packet connection\<close>

abbreviation packet_running :: "packet_cfg \<Rightarrow> (packet_io ev, pss, plabel) psys \<Rightarrow> bool" where
  "packet_running p \<equiv> reachable (packet_init p) (pstep (packet_body p) (Collect packet_call))"

text \<open>A run of a whole connection: two datagrams are sent, it is drained, and everything returns.\<close>

definition demo_peer :: ip_addr where
  "demo_peer = \<lparr>addrIP = [127, 0, 0, 1], addrPort = 53, addrZone = []\<rparr>"

definition demo_packet :: packet_cfg where
  "demo_packet = \<lparr>pplat = (\<lambda>_ _. None), pstatus = (\<lambda>_. 0), plocal = None, premote = Some demo_peer,
     udpString = (\<lambda>a. addrZone a), maxPacket = 4, pReadIdle = 0\<rparr>"

definition packet_demo_sys :: "(packet_io ev, pss, plabel) psys" where
  "packet_demo_sys = \<lparr>pst = new_session (\<lambda>l. l = WriterLoop \<or> l = ReaderLoop \<or> l = ActivityLoop \<and> False)
       1 8 (pss.fields False), threads = map (packet_body demo_packet) (packet_start False)\<rparr>"

definition packet_demo_run :: "(packet_io ev, plabel) move list" where
  "packet_demo_run = Go (PSend (Some 0) [7, 7])
     # map (Do 3) [Tau, Tau, Chan, Tau, Ok, Chan]
     @ [Go (PTrySend [1]), Do 4 Tau, Do 4 Chan, Do 4 Tau, Do 4 Ok, Do 0 Chan, Do 4 Chan, Do 4 Tau]
     @ map (Do 0) [Io (PWrite \<lparr>pwSet = None, pwWrite = None, pwClear = None\<rparr>), Tau, Tau, Tau, Tau, Tau, Tau]
     @ [Loop 0, Do 3 Chan, Do 3 Tau, Go PRequestDrain, Do 5 Tau, Do 5 Tau, Do 5 Tau, Do 0 Sig, Loop 0, Do 0 Sig, Loop 0]
     @ map (Do 0) [Tau, Io (PWrite \<lparr>pwSet = None, pwWrite = None, pwClear = None\<rparr>), Tau, Tau, Tau, Tau, Tau, Tau]
     @ [Loop 0, Do 0 Tau, Do 0 Tau, Do 0 Tau, Do 0 Tau, Loop 0, Do 0 Tau, Loop 0, Do 0 Tau, Do 0 Tau]
     @ [Do 1 (Io (PRead \<lparr>prSet = None, prData = [], prPeer = None, prErr = Some (Sentinel NetErrClosed), prClear = None\<rparr>)),
        Do 1 Tau, Do 1 Tau]
     @ replicate 7 (Do 2 Tau)"

lemma packet_demo_over:
  "map_option (\<lambda>c. (map returned (threads c), length (enq (pst c)), acks (pst c)))
     (exec (packet_body demo_packet) packet_call packet_demo_run packet_demo_sys)
   = Some (replicate 6 (Some None), 2, [AckTaken None, AckFull None])"
  by code_simp

lemma packet_demo:
  obtains c where "packet_running demo_packet c" "set (threads c) \<subseteq> {Ret None}"
    "length (enq (pst c)) = 2" "acks (pst c) = [AckTaken None, AckFull None]"
proof -
  obtain c where c: "exec (packet_body demo_packet) packet_call packet_demo_run packet_demo_sys = Some c"
    "map returned (threads c) = replicate 6 (Some None)" "length (enq (pst c)) = 2"
    "acks (pst c) = [AckTaken None, AckFull None]"
    using packet_demo_over by auto
  have "packet_init demo_packet packet_demo_sys"
    unfolding packet_init_def packet_demo_sys_def
    by (intro exI [of _ False] exI [of _ 1] exI [of _ 8]) (simp add: max_int64_def)
  then have "packet_running demo_packet c" by (rule exec_reachable [OF c(1) reach_init])
  with that all_returned [OF c(2)] c(3,4) show ?thesis by blast
qed

text \<open>
  C28. However the calls and goroutines of a packet connection interleave, no channel is closed twice and
  no outcome is sent twice, slots and queued bytes stay within their limits, every queued datagram
  fits \<^verbatim>\<open>maxPacket\<close> and names a destination exactly on an unconnected socket, the datagrams are written
  in the order of their admission, an outcome is nil exactly for a datagram that was written, and a
  terminal error is stored only by the close.
\<close>

theorem packet_send_path:
  assumes "packet_running p c"
  shows "\<not> fault (pst c)
     \<and> 0 \<le> slots (pst c) \<and> slots (pst c) \<le> int (wqueue (pst c)) + 1 \<and> length (queue (pst c)) \<le> wqueue (pst c)
     \<and> 0 \<le> qused (quota (pst c)) \<and> qused (quota (pst c)) \<le> qlimit (quota (pst c))
     \<and> (\<forall>req \<in> set (enq (pst c)). int (length (oframe req)) \<le> maxPacket p \<and> (odest req = None \<longleftrightarrow> premote p \<noteq> None))
     \<and> written (pst c) = [0..<length (written (pst c))] \<and> length (written (pst c)) \<le> length (enq (pst c))
     \<and> (\<forall>r < length (acks (pst c)). \<forall>v. acks (pst c) ! r = AckFull v \<or> acks (pst c) ! r = AckTaken v \<longrightarrow>
          (v = None \<longleftrightarrow> r \<in> set (written (pst c))))
     \<and> (cerr (pst c) \<noteq> None \<longrightarrow> closeOnce (pst c))"
  using packet_loops.reachable_W [OF assms] written_order [OF packet_loops.reachable_W [OF assms]]
    packet_loops.own_nonneg [OF assms, of Slot]
  by (auto simp: swf_def quota_wf_def ids_wf_def acks_wf_def close_wf_def packet_good_def)

theorem packet_send_path_witness:
  "\<exists>c. packet_running demo_packet c \<and> length (enq (pst c)) = 2 \<and> \<not> fault (pst c) \<and> 0 \<in> set (written (pst c))
     \<and> 1 \<in> set (written (pst c))"
proof (rule packet_demo)
  fix c
  assume "packet_running demo_packet c" "length (enq (pst c)) = 2" "acks (pst c) = [AckTaken None, AckFull None]"
  with packet_send_path [of demo_packet c] show ?thesis by (intro exI [of _ c]) (simp add: numeral_2_eq_2 All_less_Suc)
qed

text \<open>
  C29. When every goroutine and every call of a packet connection has returned, no slot, queued byte,
  sender or queued datagram is left, and every admitted datagram got its outcome.
\<close>

theorem packet_no_leak:
  assumes "packet_running p c" "set (threads c) \<subseteq> {Ret None}"
  shows "slots (pst c) = 0 \<and> qused (quota (pst c)) = 0 \<and> gactive (gate (pst c)) = 0
     \<and> queue (pst c) = [] \<and> (\<forall>r < length (enq (pst c)). acks (pst c) ! r \<noteq> AckEmpty)"
  using session_idle [OF packet_loops.reachable_W [OF assms(1)] packet_loops.quiescent [OF assms]]
    packet_loops.reachable_W [OF assms(1)]
  by (auto simp: swf_def ids_wf_def)

theorem packet_no_leak_witness:
  "\<exists>c. packet_running demo_packet c \<and> set (threads c) \<subseteq> {Ret None} \<and> length (enq (pst c)) = 2 \<and> slots (pst c) = 0"
proof (rule packet_demo)
  fix c
  assume "packet_running demo_packet c" "set (threads c) \<subseteq> {Ret None}" "length (enq (pst c)) = 2"
  with packet_no_leak [of demo_packet c] show ?thesis by blast
qed

section \<open>The remote address of a send error\<close>

text \<open>A call alone, with the given events.\<close>

fun run_call :: "'e list \<Rightarrow> ('e, 's, 'r) prog \<Rightarrow> 's \<Rightarrow> ('s \<times> 'r) option" where
  "run_call es (Ret r) s = Some (s, r)"
| "run_call [] (Act f) s = None"
| "run_call (e # es) (Act f) s = (case f e s of Some (s', p) \<Rightarrow> run_call es p s' | None \<Rightarrow> None)"

text \<open>
  C30. \<^verbatim>\<open>Send\<close> on a closed connection returns an \<^verbatim>\<open>*Error\<close> without a remote address, though the connection
  has one: \<^verbatim>\<open>send\<close> passes its nil \<^verbatim>\<open>*net.UDPAddr\<close> as a \<^verbatim>\<open>net.Addr\<close> that is not nil, so that \<^verbatim>\<open>operationalError\<close>
  does not put \<^verbatim>\<open>RemoteAddr()\<close> in its place.
\<close>

theorem packet_error_remote:
  assumes "premote p = Some a" "ctxs s c = None" "gclosed (gate s)"
  shows "run_call [Tau, Tau] (packet_Send p (Some c) data) s =
       Some (s, Some (OpErr OpSend SchemeUDP ErrorClosed (snapshotAddr (plocal p)) None (Some (Sentinel ErrClosed))))
     \<and> packet_operationalError p OpSend (Some (Sentinel ErrClosed)) None =
       Some (OpErr OpSend SchemeUDP ErrorClosed (snapshotAddr (plocal p)) (Some (UDPAddr (Some a))) (Some (Sentinel ErrClosed)))"
  using assms
  by (simp add: packet_Send_def packet_send_def cause_or_def ctx_cause_def enter_def gate_enter_def packet_closed_def
      packet_operationalError_def as_addr_def RemoteAddr_def classify_closed snapshotAddr_def atom_def)

theorem packet_error_remote_witness:
  "packet_operationalError demo_packet OpSend (Some (Sentinel ErrClosed)) None =
     Some (OpErr OpSend SchemeUDP ErrorClosed None (Some (UDPAddr (Some demo_peer))) (Some (Sentinel ErrClosed)))"
  using packet_error_remote [of demo_packet demo_peer "(pst packet_demo_sys)\<lparr>gate := \<lparr>gclosed = True, gactive = 0, gdrained = True\<rparr>\<rparr>" 0 "[]"]
  by (simp add: demo_packet_def packet_demo_sys_def new_session_def snapshotAddr_def)

end
