(* ===== verification/Pollers.thy ===== *)
theory Pollers
  imports Session_Prog "HOL-Library.Word"
begin

unbundle bit_operations_syntax

text \<open>
  The native pollers (\<^verbatim>\<open>epoll/epoll_linux.go\<close>, \<^verbatim>\<open>kqueue/kqueue_bsd.go\<close>, \<^verbatim>\<open>iocp/iocp_windows.go\<close>): their methods as
  programs over one state, which holds the \<^verbatim>\<open>sync.RWMutex\<close>, the atomic flags and counters, and what
  the kernel knows of the internal wake-up. The kernel is the source of the events: which
  readiness it reports and which calls fail is arbitrary, within what the calls document.

  The state also keeps a history that the code does not have: \<open>users\<close>, the callers that hold the read lock
  and found the poller open, \<open>armed\<close> and \<open>getting\<close>, the calls that wait in the kernel, \<open>signalled\<close>, \<open>snapped\<close>
  and \<open>lost\<close>, how far \<^verbatim>\<open>Close\<close> got with its wake-ups, and \<open>pfault\<close>, set by a system call on a descriptor
  that is closed.
\<close>

section \<open>State\<close>

datatype errno = EINTR | EAGAIN | EBADF | EOther int

datatype perr = ErrPollerClosed | ErrConcurrentWait | ErrNoEvents | ErrReserved | ErrWaitTimeout | ErrHandle
  | SysErr string errno

record poller =
  closedF :: bool
  readers :: int
  lockq :: bool
  locked :: bool
  fdopen :: bool
  pwaiting :: bool
  wakeset :: bool
  waiters :: int
  reserved :: int
  users :: int
  armed :: int
  getting :: int
  todo :: int
  signalled :: bool
  snapped :: bool
  lost :: bool
  pfault :: bool

definition new_poller :: poller where
  "new_poller = \<lparr>closedF = False, readers = 0, lockq = False, locked = False, fdopen = True, pwaiting = False,
     wakeset = False, waiters = 0, reserved = 0, users = 0, armed = 0, getting = 0, todo = 0, signalled = False,
     snapped = False, lost = False, pfault = False\<rparr>"

text \<open>
  What the kernel answers: events, one completion packet or the one \<^verbatim>\<open>Close\<close> posts, an error, success, or
  the clock's reading.
\<close>

datatype ('x, 'y) kev = KTau | KReady "'x list" | KPacket 'y | KReserved | KFail errno | KOk | KElapsed int

type_synonym ('x, 'y, 'r) kprog = "(('x, 'y) kev, poller, 'r) prog"

section \<open>The lock and the flags\<close>

text \<open>A writer that waits for the lock keeps new readers out.\<close>

definition rlock :: "('x, 'y, unit) kprog" where
  "rlock = atom (\<lambda>e s. if lockq s \<or> locked s then None else Some (s\<lparr>readers := readers s + 1\<rparr>, ()))"

definition runlock :: "('x, 'y, unit) kprog" where
  "runlock = atom (\<lambda>e s. Some (s\<lparr>readers := readers s - 1\<rparr>, ()))"

definition runlock_use :: "('x, 'y, unit) kprog" where
  "runlock_use = atom (\<lambda>e s. Some (s\<lparr>readers := readers s - 1, users := users s - 1\<rparr>, ()))"

definition lock_queue :: "('x, 'y, unit) kprog" where
  "lock_queue = atom (\<lambda>e s. if lockq s \<or> locked s then None else Some (s\<lparr>lockq := True\<rparr>, ()))"

definition lock_take :: "('x, 'y, unit) kprog" where
  "lock_take = atom (\<lambda>e s. if readers s = 0 then Some (s\<lparr>lockq := False, locked := True\<rparr>, ()) else None)"

definition unlock :: "('x, 'y, unit) kprog" where
  "unlock = atom (\<lambda>e s. Some (s\<lparr>locked := False\<rparr>, ()))"

definition load_closed :: "('x, 'y, bool) kprog" where
  "load_closed = atom (\<lambda>e s. Some (s, closedF s))"

text \<open>The same load under the read lock: who finds the poller open uses its descriptor.\<close>

definition check_open :: "('x, 'y, bool) kprog" where
  "check_open = atom (\<lambda>e s. if closedF s then Some (s, True) else Some (s\<lparr>users := users s + 1\<rparr>, False))"

definition cas_closed :: "('x, 'y, bool) kprog" where
  "cas_closed = atom (\<lambda>e s. if closedF s then Some (s, False) else Some (s\<lparr>closedF := True\<rparr>, True))"

definition syscall :: "(('x, 'y) kev \<Rightarrow> poller \<Rightarrow> (poller \<times> 'r) option) \<Rightarrow> ('x, 'y, 'r) kprog" where
  "syscall f = atom (\<lambda>e s. map_option (\<lambda>(s', r). (if fdopen s then s' else s'\<lparr>pfault := True\<rparr>, r)) (f e s))"

text \<open>A call whose only effect is in the kernel's tables.\<close>

definition simple_call :: "('x, 'y, errno option) kprog" where
  "simple_call = syscall (\<lambda>e s. case e of KOk \<Rightarrow> Some (s, None) | KFail x \<Rightarrow> Some (s, Some x) | _ \<Rightarrow> None)"

text \<open>Closing the last descriptor; \<^verbatim>\<open>EBADF\<close> is no error.\<close>

definition close_last :: "('x, 'y, errno option) kprog" where
  "close_last = syscall (\<lambda>e s.
     case e of KOk \<Rightarrow> Some (s\<lparr>fdopen := False\<rparr>, None) | KFail x \<Rightarrow> Some (s\<lparr>fdopen := False\<rparr>, Some x) | _ \<Rightarrow> None)"

definition unless_badf :: "errno option \<Rightarrow> errno option" where
  "unless_badf r = (if r = Some EBADF then None else r)"

section \<open>Waiting on readiness: epoll and kqueue\<close>

definition cas_waiting :: "('x, 'y, bool) kprog" where
  "cas_waiting = atom (\<lambda>e s. if pwaiting s then Some (s, False) else Some (s\<lparr>pwaiting := True\<rparr>, True))"

definition stop_waiting :: "('x, 'y, unit) kprog" where
  "stop_waiting = atom (\<lambda>e s. Some (s\<lparr>pwaiting := False\<rparr>, ()))"

text \<open>The load before the kernel call of \<^verbatim>\<open>Wait\<close>.\<close>

definition arm :: "('x, 'y, bool) kprog" where
  "arm = atom (\<lambda>e s. if closedF s then Some (s, True)
     else Some (s\<lparr>users := users s + 1, armed := armed s + 1\<rparr>, False))"

definition since :: "('x, 'y, int) kprog" where
  "since = atom (\<lambda>e s. case e of KElapsed d \<Rightarrow> Some (s, d) | _ \<Rightarrow> None)"

text \<open>
  The blocking call. The kernel reports the wake-up only when it is set, at most as many events as there is
  room for, and none only after a timeout; \<open>clear\<close> tells whether reporting the wake-up resets it.
\<close>

definition kernel_wait :: "('x \<Rightarrow> bool) \<Rightarrow> bool \<Rightarrow> nat \<Rightarrow> int \<Rightarrow> ('x, 'y, errno + 'x list) kprog" where
  "kernel_wait wake clear n timeout = syscall (\<lambda>e s.
     case e of
       KReady evs \<Rightarrow>
         if length evs \<le> n \<and> (list_ex wake evs \<longrightarrow> wakeset s) \<and> (evs = [] \<longrightarrow> 0 \<le> timeout)
         then Some (s\<lparr>armed := armed s - 1, wakeset := wakeset s \<and> \<not> (clear \<and> list_ex wake evs)\<rparr>, Inr evs) else None
     | KFail x \<Rightarrow> Some (s\<lparr>armed := armed s - 1\<rparr>, Inl x)
     | _ \<Rightarrow> None)"

text \<open>
  \<^verbatim>\<open>signalWake\<close> and \<^verbatim>\<open>drainWake\<close> of epoll (\<open>retry\<close>): an interrupted write or read is repeated and changes nothing, so only
  the last attempt is an action; writing to a full eventfd fails with \<^verbatim>\<open>EAGAIN\<close>, and then it is set already.
  \<^verbatim>\<open>triggerWake\<close> of kqueue makes one attempt and returns its error.
\<close>

definition set_wake :: "bool \<Rightarrow> (poller \<Rightarrow> poller) \<Rightarrow> ('x, 'y, errno option) kprog" where
  "set_wake retry done = syscall (\<lambda>e s.
     case e of
       KOk \<Rightarrow> Some (done (s\<lparr>wakeset := True\<rparr>), None)
     | KFail EAGAIN \<Rightarrow> if retry then if wakeset s then Some (done s, None) else None else Some (s, Some EAGAIN)
     | KFail EINTR \<Rightarrow> if retry then None else Some (s, Some EINTR)
     | KFail x \<Rightarrow> Some (s, Some x)
     | _ \<Rightarrow> None)"

definition signalWake :: "('x, 'y, errno option) kprog" where
  "signalWake = set_wake True id"

definition triggerWake :: "('x, 'y, errno option) kprog" where
  "triggerWake = set_wake False id"

definition drainWake :: "('x, 'y, unit) kprog" where
  "drainWake = syscall (\<lambda>e s.
     case e of
       KOk \<Rightarrow> Some (s\<lparr>wakeset := False\<rparr>, ())
     | KFail EINTR \<Rightarrow> None
     | KFail x \<Rightarrow> Some (s, ())
     | _ \<Rightarrow> None)"

text \<open>The signal of \<^verbatim>\<open>Close\<close>, whose result is ignored.\<close>

definition signal_close :: "bool \<Rightarrow> ('x, 'y, unit) kprog" where
  "signal_close retry = bind (set_wake retry (\<lambda>s. s\<lparr>signalled := True\<rparr>)) (\<lambda>_. Ret ())"

text \<open>A method that uses the descriptor under the read lock.\<close>

definition under_rlock :: "('x, 'y, errno option) kprog \<Rightarrow> string \<Rightarrow> ('x, 'y, perr option) kprog" where
  "under_rlock call what = seq rlock (bind check_open (\<lambda>c.
     if c then seq runlock (Ret (Some ErrPollerClosed))
     else bind call (\<lambda>r. seq runlock_use (Ret (map_option (SysErr what) r)))))"

definition wait_begin :: "nat \<Rightarrow> ('x, 'y, perr option) kprog" where
  "wait_begin n =
     (if n = 0 then Ret (Some ErrNoEvents)
      else bind load_closed (\<lambda>c. if c then Ret (Some ErrPollerClosed)
        else bind cas_waiting (\<lambda>ok. Ret (if ok then None else Some ErrConcurrentWait))))"

fun drains :: "('x \<Rightarrow> bool) \<Rightarrow> 'x list \<Rightarrow> ('x, 'y, unit) kprog" where
  "drains wake [] = Ret ()"
| "drains wake (ev # evs) = (if wake ev then seq drainWake (drains wake evs) else drains wake evs)"

text \<open>One turn of the loop in \<^verbatim>\<open>Wait\<close>; \<open>None\<close> for \<^verbatim>\<open>continue\<close>.\<close>

definition wait_turn ::
  "('x \<Rightarrow> bool) \<Rightarrow> bool \<Rightarrow> ('x list \<Rightarrow> 'v) \<Rightarrow> string \<Rightarrow> nat \<Rightarrow> int \<Rightarrow> ('x, 'y, (perr + 'v) option) kprog"
where
  "wait_turn wake clear collect what n timeout =
     seq rlock (bind arm (\<lambda>c.
       if c then seq runlock (seq stop_waiting (Ret (Some (Inl ErrPollerClosed))))
       else bind (kernel_wait wake clear n timeout) (\<lambda>r.
         seq (case r of Inr evs \<Rightarrow> if clear then Ret () else drains wake evs | Inl _ \<Rightarrow> Ret ())
           (seq runlock_use (bind load_closed (\<lambda>c.
              if c then seq stop_waiting (Ret (Some (Inl ErrPollerClosed)))
              else case r of
                Inr evs \<Rightarrow> seq stop_waiting (Ret (Some (Inr (collect evs))))
              | Inl EINTR \<Rightarrow> bind since (\<lambda>d.
                  if 0 \<le> timeout \<and> timeout \<le> d then seq stop_waiting (Ret (Some (Inr (collect [])))) else Ret None)
              | Inl x \<Rightarrow> seq stop_waiting (Ret (Some (Inl (SysErr what x))))))))))"

definition close_poller :: "bool \<Rightarrow> ('x, 'y, 'r) kprog \<Rightarrow> 'r \<Rightarrow> ('x, 'y, 'r) kprog" where
  "close_poller retry release again = bind cas_closed (\<lambda>first.
     if \<not> first then Ret again
     else seq (signal_close retry) (seq lock_queue (seq lock_take (after release unlock))))"

section \<open>epoll\<close>

text \<open>\<^verbatim>\<open>unix.EpollEvent\<close> keeps the 64-bit data in two 32-bit fields.\<close>

record epoll_event =
  evEvents :: "32 word"
  evFd :: "32 word"
  evPad :: "32 word"

record epoll_Event =
  Events :: "32 word"
  Data :: "64 word"

definition wakeData :: "64 word" where
  "wakeData = - 1"

definition putData :: "epoll_event \<Rightarrow> 64 word \<Rightarrow> epoll_event" where
  "putData ev data = ev\<lparr>evFd := ucast data, evPad := ucast (drop_bit 32 data)\<rparr>"

definition eventData :: "epoll_event \<Rightarrow> 64 word" where
  "eventData ev = ucast (evFd ev) OR push_bit 32 (ucast (evPad ev))"

text \<open>The event that \<^verbatim>\<open>ctl\<close> registers, and what \<^verbatim>\<open>Wait\<close> makes of the events of the kernel.\<close>

definition ctl_event :: "32 word \<Rightarrow> 64 word \<Rightarrow> perr + epoll_event" where
  "ctl_event events data =
     (if data = wakeData then Inl ErrReserved else Inr (putData \<lparr>evEvents = events, evFd = 0, evPad = 0\<rparr> data))"

definition is_wake :: "epoll_event \<Rightarrow> bool" where
  "is_wake ev \<longleftrightarrow> eventData ev = wakeData"

fun epoll_collect :: "epoll_event list \<Rightarrow> epoll_Event list" where
  "epoll_collect [] = []"
| "epoll_collect (ev # evs) =
     (if is_wake ev then epoll_collect evs else \<lparr>Events = evEvents ev, Data = eventData ev\<rparr> # epoll_collect evs)"

definition Millisecond :: int where
  "Millisecond = 1000000"

definition timeoutMillis :: "int \<Rightarrow> int \<Rightarrow> int" where
  "timeoutMillis timeout elapsed =
     (if timeout < 0 then -1
      else let remaining = timeout - elapsed in
        if remaining \<le> 0 then 0
        else let ms = remaining div Millisecond + (if remaining mod Millisecond \<noteq> 0 then 1 else 0) in
          if ms > 2 ^ 31 - 1 then 2 ^ 31 - 1 else ms)"

type_synonym 'r eprog = "(epoll_event, unit, 'r) kprog"

definition epoll_ctl :: "32 word \<Rightarrow> 64 word \<Rightarrow> perr option eprog" where
  "epoll_ctl events data =
     (case ctl_event events data of Inl err \<Rightarrow> Ret (Some err) | Inr ev \<Rightarrow> under_rlock simple_call ''epoll: control fd'')"

definition epoll_Del :: "perr option eprog" where
  "epoll_Del = under_rlock simple_call ''epoll: delete fd''"

definition epoll_Wake :: "perr option eprog" where
  "epoll_Wake = under_rlock signalWake ''epoll: wake''"

definition epoll_release :: "errno list eprog" where
  "epoll_release = bind simple_call (\<lambda>epollErr. bind close_last (\<lambda>wakeErr.
     Ret (List.map_filter unless_badf [epollErr, wakeErr])))"

definition epoll_Close :: "errno list eprog" where
  "epoll_Close = close_poller True epoll_release []"

datatype elabel = EpWait nat int | EpLoop nat int | EpAdd "32 word" "64 word" | EpDel | EpWake | EpClose
  | EpReturned "perr + epoll_Event list"

fun epoll_body :: "elabel \<Rightarrow> elabel option eprog" where
  "epoll_body (EpWait n timeout) = bind (wait_begin n) (\<lambda>r.
     Ret (Some (case r of Some err \<Rightarrow> EpReturned (Inl err) | None \<Rightarrow> EpLoop n timeout)))"
| "epoll_body (EpLoop n timeout) = bind (wait_turn is_wake False epoll_collect ''epoll: wait'' n timeout) (\<lambda>r.
     Ret (Some (case r of None \<Rightarrow> EpLoop n timeout | Some v \<Rightarrow> EpReturned v)))"
| "epoll_body (EpAdd events data) = seq (epoll_ctl events data) (Ret None)"
| "epoll_body EpDel = seq epoll_Del (Ret None)"
| "epoll_body EpWake = seq epoll_Wake (Ret None)"
| "epoll_body EpClose = seq epoll_Close (Ret None)"
| "epoll_body (EpReturned r) = Ret None"

definition epoll_call :: "elabel \<Rightarrow> bool" where
  "epoll_call l = (case l of EpLoop _ _ \<Rightarrow> False | EpReturned _ \<Rightarrow> False | _ \<Rightarrow> True)"

definition epoll_init :: "((epoll_event, unit) kev, poller, elabel) psys \<Rightarrow> bool" where
  "epoll_init c \<longleftrightarrow> c = \<lparr>pst = new_poller, threads = []\<rparr>"

section \<open>kqueue\<close>

record kevent =
  kIdent :: "64 word"
  kFilter :: "16 word"
  kFlags :: "16 word"
  kFflags :: "32 word"
  kData :: "64 word"

definition User :: "16 word" where
  "User = - 10"

definition Delete :: "16 word" where
  "Delete = 2"

definition wakeIdent :: "64 word" where
  "wakeIdent = - 1"

definition is_wake_kevent :: "kevent \<Rightarrow> bool" where
  "is_wake_kevent ev \<longleftrightarrow> kIdent ev = wakeIdent \<and> kFilter ev = User"

type_synonym 'r qprog = "(kevent, unit, 'r) kprog"

definition kqueue_Apply :: "kevent \<Rightarrow> perr option qprog" where
  "kqueue_Apply c =
     (if is_wake_kevent c then Ret (Some ErrReserved) else under_rlock simple_call ''kqueue: apply'')"

definition kqueue_Del :: "64 word \<Rightarrow> 16 word \<Rightarrow> perr option qprog" where
  "kqueue_Del ident filt = kqueue_Apply \<lparr>kIdent = ident, kFilter = filt, kFlags = Delete, kFflags = 0, kData = 0\<rparr>"

fun kqueue_collect :: "kevent list \<Rightarrow> kevent list" where
  "kqueue_collect [] = []"
| "kqueue_collect (ev # evs) = (if is_wake_kevent ev then kqueue_collect evs else ev # kqueue_collect evs)"

definition kqueue_Wake :: "perr option qprog" where
  "kqueue_Wake = under_rlock triggerWake ''kqueue: wake''"

definition kqueue_Close :: "perr option qprog" where
  "kqueue_Close = close_poller False (bind close_last (\<lambda>r. Ret (map_option (SysErr ''kqueue: close'') (unless_badf r)))) None"

datatype qlabel = KqWait nat int | KqLoop nat int | KqApply kevent | KqDel "64 word" "16 word" | KqWake | KqClose
  | KqReturned "perr + kevent list"

fun kqueue_body :: "qlabel \<Rightarrow> qlabel option qprog" where
  "kqueue_body (KqWait n timeout) = bind (wait_begin n) (\<lambda>r.
     Ret (Some (case r of Some err \<Rightarrow> KqReturned (Inl err) | None \<Rightarrow> KqLoop n timeout)))"
| "kqueue_body (KqLoop n timeout) = bind (wait_turn is_wake_kevent True kqueue_collect ''kqueue: wait'' n timeout) (\<lambda>r.
     Ret (Some (case r of None \<Rightarrow> KqLoop n timeout | Some v \<Rightarrow> KqReturned v)))"
| "kqueue_body (KqApply c) = seq (kqueue_Apply c) (Ret None)"
| "kqueue_body (KqDel ident filt) = seq (kqueue_Del ident filt) (Ret None)"
| "kqueue_body KqWake = seq kqueue_Wake (Ret None)"
| "kqueue_body KqClose = seq kqueue_Close (Ret None)"
| "kqueue_body (KqReturned r) = Ret None"

definition kqueue_call :: "qlabel \<Rightarrow> bool" where
  "kqueue_call l = (case l of KqLoop _ _ \<Rightarrow> False | KqReturned _ \<Rightarrow> False | _ \<Rightarrow> True)"

definition kqueue_init :: "((kevent, unit) kev, poller, qlabel) psys \<Rightarrow> bool" where
  "kqueue_init c \<longleftrightarrow> c = \<lparr>pst = new_poller, threads = []\<rparr>"

section \<open>I/O completion ports\<close>

record completion =
  cBytes :: "32 word"
  cKey :: "64 word"
  cOverlapped :: "nat option"

definition reservedKey :: "64 word" where
  "reservedKey = - 1"

definition iocp_timeoutMillis :: "int \<Rightarrow> int" where
  "iocp_timeoutMillis timeout =
     (if timeout < 0 then 2 ^ 32 - 1
      else if timeout = 0 then 0
      else let ms = timeout div Millisecond + (if timeout mod Millisecond \<noteq> 0 then 1 else 0) in
        if ms \<ge> 2 ^ 32 - 1 then 2 ^ 32 - 2 else ms)"

type_synonym 'r iprog = "(unit, completion, 'r) kprog"

definition add_waiter :: "unit iprog" where
  "add_waiter = atom (\<lambda>e s. Some (s\<lparr>waiters := waiters s + 1\<rparr>, ()))"

definition drop_waiter :: "unit iprog" where
  "drop_waiter = atom (\<lambda>e s. Some (s\<lparr>waiters := waiters s - 1\<rparr>, ()))"

definition arm_get :: "bool iprog" where
  "arm_get = atom (\<lambda>e s. if closedF s then Some (s, True)
     else Some (s\<lparr>users := users s + 1, getting := getting s + 1\<rparr>, False))"

datatype dequeued = Dequeued completion | Woken | TimedOut | Failed errno

text \<open>\<^verbatim>\<open>GetQueuedCompletionStatus\<close>; \<^verbatim>\<open>WAIT_TIMEOUT\<close> is the answer \<open>KElapsed\<close>, and only a bounded wait can have it.\<close>

definition get_queued :: "int \<Rightarrow> dequeued iprog" where
  "get_queued timeout = syscall (\<lambda>e s.
     case e of
       KPacket c \<Rightarrow> if cKey c = reservedKey \<and> cOverlapped c = None then None
                    else Some (s\<lparr>getting := getting s - 1\<rparr>, Dequeued c)
     | KReserved \<Rightarrow> if 0 < reserved s then Some (s\<lparr>getting := getting s - 1, reserved := reserved s - 1\<rparr>, Woken) else None
     | KElapsed d \<Rightarrow> if 0 \<le> timeout then Some (s\<lparr>getting := getting s - 1\<rparr>, TimedOut) else None
     | KFail x \<Rightarrow> Some (s\<lparr>getting := getting s - 1\<rparr>, Failed x)
     | _ \<Rightarrow> None)"

definition iocp_Get :: "int \<Rightarrow> (perr + completion) iprog" where
  "iocp_Get timeout = bind load_closed (\<lambda>c.
     if c then Ret (Inl ErrPollerClosed) else
     seq add_waiter (seq rlock (bind arm_get (\<lambda>c.
       if c then seq runlock (seq drop_waiter (Ret (Inl ErrPollerClosed)))
       else bind (get_queued timeout) (\<lambda>r.
         bind (case r of
             Woken \<Rightarrow> Ret (Inl ErrPollerClosed)
           | Dequeued c \<Rightarrow> Ret (Inr c)
           | TimedOut \<Rightarrow> Ret (Inl ErrWaitTimeout)
           | Failed x \<Rightarrow> bind load_closed (\<lambda>c. Ret (Inl (if c then ErrPollerClosed else SysErr ''iocp: get completion'' x))))
           (\<lambda>v. seq runlock_use (seq drop_waiter (Ret v))))))))"

definition iocp_Associate :: "64 word \<Rightarrow> bool \<Rightarrow> perr option iprog" where
  "iocp_Associate key same =
     (if key = reservedKey then Ret (Some ErrReserved)
      else bind (under_rlock simple_call ''iocp: associate handle'') (\<lambda>r.
        Ret (case r of None \<Rightarrow> if same then None else Some ErrHandle | Some err \<Rightarrow> Some err)))"

definition iocp_Post :: "completion \<Rightarrow> perr option iprog" where
  "iocp_Post c =
     (if cKey c = reservedKey then Ret (Some ErrReserved) else under_rlock simple_call ''iocp: post completion'')"

text \<open>\<^verbatim>\<open>Close\<close> posts one reserved packet for every call it counted.\<close>

definition snapshot_waiters :: "int iprog" where
  "snapshot_waiters = atom (\<lambda>e s. Some (s\<lparr>todo := waiters s, snapped := True\<rparr>, waiters s))"

definition post_reserved :: "unit iprog" where
  "post_reserved = syscall (\<lambda>e s.
     case e of
       KOk \<Rightarrow> Some (s\<lparr>reserved := reserved s + 1, todo := todo s - 1\<rparr>, ())
     | KFail x \<Rightarrow> Some (s\<lparr>lost := True, todo := todo s - 1\<rparr>, ())
     | _ \<Rightarrow> None)"

datatype ilabel = IcGet int | IcAssociate "64 word" bool | IcPost completion | IcClose | IcWake nat
  | IcReturned "perr + completion"

definition iocp_finish :: "perr option iprog" where
  "iocp_finish = seq lock_queue (seq lock_take (bind close_last (\<lambda>r.
     seq unlock (Ret (map_option (SysErr ''iocp: close'') r)))))"

fun iocp_body :: "ilabel \<Rightarrow> ilabel option iprog" where
  "iocp_body (IcGet timeout) = bind (iocp_Get timeout) (\<lambda>r. Ret (Some (IcReturned r)))"
| "iocp_body (IcAssociate key same) = seq (iocp_Associate key same) (Ret None)"
| "iocp_body (IcPost c) = seq (iocp_Post c) (Ret None)"
| "iocp_body IcClose = bind cas_closed (\<lambda>first.
     if \<not> first then Ret None else bind snapshot_waiters (\<lambda>n. Ret (Some (IcWake (nat n)))))"
| "iocp_body (IcWake 0) = seq iocp_finish (Ret None)"
| "iocp_body (IcWake (Suc n)) = seq post_reserved (Ret (Some (IcWake n)))"
| "iocp_body (IcReturned r) = Ret None"

definition iocp_call :: "ilabel \<Rightarrow> bool" where
  "iocp_call l = (case l of IcWake _ \<Rightarrow> False | IcReturned _ \<Rightarrow> False | _ \<Rightarrow> True)"

definition iocp_init :: "((unit, completion) kev, poller, ilabel) psys \<Rightarrow> bool" where
  "iocp_init c \<longleftrightarrow> c = \<lparr>pst = new_poller, threads = []\<rparr>"

section \<open>Ownership\<close>

datatype pres = Reader | Using | Queue | Writer | Closer | Snapper | Waiting | Armed | Count | Getting | Todo

fun pown :: "poller \<Rightarrow> pres holding" where
  "pown s Reader = readers s - users s"
| "pown s Using = users s"
| "pown s Queue = of_bool (lockq s)"
| "pown s Writer = of_bool (locked s)"
| "pown s Closer = of_bool (closedF s \<and> fdopen s \<and> \<not> snapped s)"
| "pown s Snapper = of_bool (snapped s \<and> fdopen s)"
| "pown s Waiting = of_bool (pwaiting s) - armed s"
| "pown s Armed = armed s"
| "pown s Count = waiters s - getting s"
| "pown s Getting = getting s"
| "pown s Todo = todo s"

text \<open>
  A user of the descriptor keeps it open, because it holds the read lock; a call that waits in the kernel
  after the signal of \<^verbatim>\<open>Close\<close> has its wake-up waiting for it.
\<close>

definition pwf :: "poller \<Rightarrow> bool" where
  "pwf s \<longleftrightarrow> \<not> pfault s \<and> (closedF s \<or> fdopen s) \<and> 0 \<le> users s \<and> users s \<le> readers s \<and> (0 < users s \<longrightarrow> fdopen s)
     \<and> (locked s \<longrightarrow> readers s = 0 \<and> \<not> lockq s)
     \<and> 0 \<le> armed s \<and> armed s \<le> 1 \<and> (\<not> pwaiting s \<longrightarrow> armed s = 0) \<and> (signalled s \<longrightarrow> closedF s \<and> (0 < armed s \<longrightarrow> wakeset s))
     \<and> 0 \<le> getting s \<and> getting s \<le> waiters s \<and> 0 \<le> reserved s \<and> (\<not> snapped s \<longrightarrow> todo s = 0)
     \<and> (snapped s \<longrightarrow> closedF s \<and> (lost s \<or> getting s \<le> reserved s + todo s))"

definition stays_closed :: "poller \<Rightarrow> poller \<Rightarrow> bool" where
  "stays_closed s s' \<longleftrightarrow> (closedF s \<longrightarrow> closedF s')"

abbreviation wpk :: "('r \<Rightarrow> pres holding \<Rightarrow> bool) \<Rightarrow> ('x, 'y, 'r) kprog \<Rightarrow> pres holding \<Rightarrow> bool" where
  "wpk \<equiv> wp pwf stays_closed (\<lambda>_. False) pown"

text \<open>What the resources a program holds say of the state.\<close>

definition tokens :: "poller \<Rightarrow> pres holding \<Rightarrow> bool" where
  "tokens s h \<longleftrightarrow> (1 \<le> h Reader \<longrightarrow> users s < readers s \<and> \<not> locked s)
     \<and> (1 \<le> h Using \<longrightarrow> 0 < users s \<and> \<not> locked s \<and> fdopen s) \<and> (1 \<le> h Queue \<longrightarrow> lockq s)
     \<and> (1 \<le> h Writer \<longrightarrow> locked s) \<and> (1 \<le> h Closer \<longrightarrow> closedF s \<and> fdopen s \<and> \<not> snapped s)
     \<and> (1 \<le> h Snapper \<longrightarrow> snapped s \<and> fdopen s) \<and> (1 \<le> h Waiting \<longrightarrow> pwaiting s \<and> armed s \<le> 0)
     \<and> (1 \<le> h Armed \<longrightarrow> 0 < armed s) \<and> (1 \<le> h Count \<longrightarrow> getting s < waiters s)
     \<and> (1 \<le> h Getting \<longrightarrow> 0 < getting s) \<and> (1 \<le> h Todo \<longrightarrow> 0 < todo s)"

lemma holds_tokens:
  assumes "pwf s" "holds pown s h"
  shows "tokens s h"
  unfolding tokens_def
proof (intro conjI impI)
  have h: "0 \<le> h k" "h k \<le> pown s k" for k using assms(2) by (auto simp: holds_def)
  have r: "0 \<le> users s" "users s \<le> readers s" "locked s \<Longrightarrow> readers s = 0" "0 < users s \<Longrightarrow> fdopen s"
    using assms(1) by (simp_all add: pwf_def)
  have b: "1 \<le> (x :: int) \<Longrightarrow> x \<le> of_bool P \<Longrightarrow> P" for x P by (cases P) auto
  show "users s < readers s" "\<not> locked s" if "1 \<le> h Reader" using that h(2) [of Reader] r by auto
  show "0 < users s" "\<not> locked s" "fdopen s" if "1 \<le> h Using" using that h(2) [of Using] r by auto
  show "lockq s" if "1 \<le> h Queue" using b that h(2) [of Queue] by simp
  show "locked s" if "1 \<le> h Writer" using b that h(2) [of Writer] by simp
  show "closedF s" "fdopen s" "\<not> snapped s" if "1 \<le> h Closer" using b [OF that, of "closedF s \<and> fdopen s \<and> \<not> snapped s"] h(2) [of Closer] by simp_all
  show "snapped s" "fdopen s" if "1 \<le> h Snapper" using b [OF that, of "snapped s \<and> fdopen s"] h(2) [of Snapper] by simp_all
  show "0 < armed s" if "1 \<le> h Armed" using that h(2) [of Armed] by simp
  show "armed s \<le> 0" "pwaiting s" if "1 \<le> h Waiting"
    using that h [of Waiting] h [of Armed] by (cases "pwaiting s"; simp)+
  show "getting s < waiters s" if "1 \<le> h Count" using that h(2) [of Count] by simp
  show "0 < getting s" if "1 \<le> h Getting" using that h(2) [of Getting] by simp
  show "0 < todo s" if "1 \<le> h Todo" using that h(2) [of Todo] by simp
qed

text \<open>An action that leaves the program with the resources \<open>H r\<close>.\<close>

definition shifted :: "poller \<Rightarrow> poller \<Rightarrow> pres holding \<Rightarrow> bool" where
  "shifted s s' d \<longleftrightarrow> list_all (\<lambda>k. pown s' k - pown s k = d k)
     [Reader, Using, Queue, Writer, Closer, Snapper, Waiting, Armed, Count, Getting, Todo]"

lemma shifted_own: "shifted s s' d \<Longrightarrow> pown s' k - pown s k = d k"
  unfolding shifted_def by (cases k) (simp_all only: list.pred_inject)

lemma wp_action:
  assumes step: "\<And>e s s' r. pwf s \<Longrightarrow> tokens s h \<Longrightarrow> f e s = Some (s', r) \<Longrightarrow> pwf s'"
    and keep: "\<And>e s s' r. pwf s \<Longrightarrow> tokens s h \<Longrightarrow> f e s = Some (s', r) \<Longrightarrow> closedF s \<Longrightarrow> closedF s'"
    and move: "\<And>e s s' r. pwf s \<Longrightarrow> tokens s h \<Longrightarrow> f e s = Some (s', r) \<Longrightarrow> shifted s s' (\<lambda>k. H r k - h k)"
    and post: "\<And>e s s' r. pwf s \<Longrightarrow> tokens s h \<Longrightarrow> f e s = Some (s', r) \<Longrightarrow> Q r (H r)"
    and pos: "\<And>r k. 0 \<le> h k \<Longrightarrow> 0 \<le> H r k"
  shows "wpk Q (atom f) h"
proof (rule wp_atom)
  fix e s s' r
  assume a: "pwf s" "holds pown s h" "f e s = Some (s', r)"
  note t = a(1) holds_tokens [OF a(1,2)] a(3)
  have "0 \<le> H r k" for k using pos [of k r] a(2) by (simp add: holds_def)
  with shifted_own [OF move [OF t]] have "moved pown s s' h (H r)" by (simp add: moved_def)
  with step [OF t] keep [OF t] post [OF t] show "pwf s' \<and> stays_closed s s' \<and> (\<exists>h'. moved pown s s' h h' \<and> Q r h')"
    unfolding stays_closed_def by (intro conjI exI [of _ "H r"]) simp_all
qed

lemma wp_syscall:
  assumes op: "\<And>s. pwf s \<Longrightarrow> tokens s h \<Longrightarrow> fdopen s"
    and step: "\<And>e s s' r. pwf s \<Longrightarrow> tokens s h \<Longrightarrow> f e s = Some (s', r) \<Longrightarrow> pwf s'"
    and keep: "\<And>e s s' r. pwf s \<Longrightarrow> tokens s h \<Longrightarrow> f e s = Some (s', r) \<Longrightarrow> closedF s \<Longrightarrow> closedF s'"
    and move: "\<And>e s s' r. pwf s \<Longrightarrow> tokens s h \<Longrightarrow> f e s = Some (s', r) \<Longrightarrow> shifted s s' (\<lambda>k. H r k - h k)"
    and post: "\<And>e s s' r. pwf s \<Longrightarrow> tokens s h \<Longrightarrow> f e s = Some (s', r) \<Longrightarrow> Q r (H r)"
    and pos: "\<And>r k. 0 \<le> h k \<Longrightarrow> 0 \<le> H r k"
  shows "wpk Q (syscall f) h"
  unfolding syscall_def
proof (rule wp_action [where H = H])
  fix e s s' r
  assume a: "pwf s" "tokens s h"
    "map_option (\<lambda>(s', r). (if fdopen s then s' else s'\<lparr>pfault := True\<rparr>, r)) (f e s) = Some (s', r)"
  have f: "f e s = Some (s', r)" using op [OF a(1,2)] a(3) by auto
  note t = a(1,2) f
  show "pwf s'" "shifted s s' (\<lambda>k. H r k - h k)" "Q r (H r)" "closedF s \<Longrightarrow> closedF s'"
    by (fact step [OF t] move [OF t] post [OF t] keep [OF t])+
qed (rule pos)

lemmas pwf_simps = pwf_def tokens_def shifted_def

lemma wp_rlock: "Q () (add Reader 1 h) \<Longrightarrow> wpk Q rlock h"
  unfolding rlock_def
  by (rule wp_action [where H = "\<lambda>_. add Reader 1 h"]; clarsimp split: if_splits; simp add: pwf_simps)

lemma wp_runlock: "1 \<le> h Reader \<Longrightarrow> Q () (add Reader (-1) h) \<Longrightarrow> wpk Q runlock h"
  unfolding runlock_def by (rule wp_action [where H = "\<lambda>_. add Reader (-1) h"]; clarsimp split: if_splits; simp add: pwf_simps)

lemma wp_runlock_use: "1 \<le> h Using \<Longrightarrow> Q () (add Using (-1) h) \<Longrightarrow> wpk Q runlock_use h"
  unfolding runlock_use_def by (rule wp_action [where H = "\<lambda>_. add Using (-1) h"]; clarsimp split: if_splits; simp add: pwf_simps)

lemma wp_lock_queue: "Q () (add Queue 1 h) \<Longrightarrow> wpk Q lock_queue h"
  unfolding lock_queue_def
  by (rule wp_action [where H = "\<lambda>_. add Queue 1 h"]; clarsimp split: if_splits; simp add: pwf_simps)

lemma wp_lock_take: "1 \<le> h Queue \<Longrightarrow> Q () (add Writer 1 (add Queue (-1) h)) \<Longrightarrow> wpk Q lock_take h"
  unfolding lock_take_def
  by (rule wp_action [where H = "\<lambda>_. add Writer 1 (add Queue (-1) h)"]; clarsimp split: if_splits; simp add: pwf_simps)

lemma wp_unlock: "1 \<le> h Writer \<Longrightarrow> Q () (add Writer (-1) h) \<Longrightarrow> wpk Q unlock h"
  unfolding unlock_def by (rule wp_action [where H = "\<lambda>_. add Writer (-1) h"]; clarsimp split: if_splits; simp add: pwf_simps)

lemma wp_load_closed: "(\<And>c. Q c h) \<Longrightarrow> wpk Q load_closed h"
  unfolding load_closed_def by (rule wp_action [where H = "\<lambda>_. h"]; clarsimp split: if_splits; simp add: pwf_simps)

lemma wp_check_open: "1 \<le> h Reader \<Longrightarrow> Q True h \<Longrightarrow> Q False (add Using 1 (add Reader (-1) h)) \<Longrightarrow> wpk Q check_open h"
  unfolding check_open_def
  by (rule wp_action [where H = "\<lambda>c. if c then h else add Using 1 (add Reader (-1) h)"]; clarsimp split: if_splits; simp add: pwf_simps)

lemma wp_cas_closed: "Q True (add Closer 1 h) \<Longrightarrow> Q False h \<Longrightarrow> wpk Q cas_closed h"
  unfolding cas_closed_def
  by (rule wp_action [where H = "\<lambda>c. if c then add Closer 1 h else h"]; clarsimp split: if_splits; simp add: pwf_simps)

lemma wp_cas_waiting: "Q True (add Waiting 1 h) \<Longrightarrow> Q False h \<Longrightarrow> wpk Q cas_waiting h"
  unfolding cas_waiting_def
  by (rule wp_action [where H = "\<lambda>c. if c then add Waiting 1 h else h"]; clarsimp split: if_splits; simp add: pwf_simps)

lemma wp_stop_waiting: "1 \<le> h Waiting \<Longrightarrow> Q () (add Waiting (-1) h) \<Longrightarrow> wpk Q stop_waiting h"
  unfolding stop_waiting_def
  by (rule wp_action [where H = "\<lambda>_. add Waiting (-1) h"]; clarsimp split: if_splits; simp add: pwf_simps)

lemma wp_arm:
  "1 \<le> h Reader \<Longrightarrow> 1 \<le> h Waiting \<Longrightarrow> Q True h \<Longrightarrow>
    Q False (add Armed 1 (add Waiting (-1) (add Using 1 (add Reader (-1) h)))) \<Longrightarrow> wpk Q arm h"
  unfolding arm_def
  by (rule wp_action [where H = "\<lambda>c. if c then h else add Armed 1 (add Waiting (-1) (add Using 1 (add Reader (-1) h)))"];
      clarsimp split: if_splits; (simp add: pwf_simps; fail | force))

lemma wp_since: "(\<And>d. Q d h) \<Longrightarrow> wpk Q since h"
  unfolding since_def by (rule wp_action [where H = "\<lambda>_. h"]; clarsimp split: kev.splits; simp add: pwf_simps)

text \<open>A system call that leaves the program with the resources \<open>h'\<close> in one of the states \<open>U s\<close>.\<close>

lemma wp_syscall_in:
  assumes op: "\<And>s. pwf s \<Longrightarrow> tokens s h \<Longrightarrow> fdopen s" and "\<And>e s s' r. f e s = Some (s', r) \<Longrightarrow> s' \<in> U s"
    and step: "\<And>s s'. pwf s \<Longrightarrow> tokens s h \<Longrightarrow> s' \<in> U s \<Longrightarrow> pwf s'"
    and move: "\<And>s s'. pwf s \<Longrightarrow> tokens s h \<Longrightarrow> s' \<in> U s \<Longrightarrow> closedF s' = closedF s \<and> shifted s s' (\<lambda>k. h' k - h k)"
    and post: "\<And>r. Q r h'" and pos: "\<And>k. 0 \<le> h k \<Longrightarrow> 0 \<le> h' k"
  shows "wpk Q (syscall f) h"
  using assms by (intro wp_syscall [where H = "\<lambda>_. h'"]) blast+

lemma wp_simple_call:
  assumes "1 \<le> h Using \<or> 1 \<le> h Closer \<or> 1 \<le> h Snapper" "\<And>r. Q r h"
  shows "wpk Q simple_call h"
  unfolding simple_call_def
  by (rule wp_syscall_in [where U = "\<lambda>s. {s}" and h' = h])
     (use assms in \<open>auto simp: tokens_def shifted_def split: kev.splits\<close>)

lemma wp_set_wake:
  assumes "1 \<le> h Using \<and> done = id \<or> 1 \<le> h Closer \<and> done = (\<lambda>s. s\<lparr>signalled := True\<rparr>)" "\<And>r. Q r h"
  shows "wpk Q (set_wake retry done) h"
  unfolding set_wake_def
proof (rule wp_syscall_in [where U = "\<lambda>s. {s, done (s\<lparr>wakeset := True\<rparr>)}" and h' = h])
  fix e :: "('x, 'y) kev" and s s' r
  assume "(case e of KOk \<Rightarrow> Some (done (s\<lparr>wakeset := True\<rparr>), None)
     | KFail EAGAIN \<Rightarrow> if retry then if wakeset s then Some (done s, None) else None else Some (s, Some EAGAIN)
     | KFail EINTR \<Rightarrow> if retry then None else Some (s, Some EINTR)
     | KFail x \<Rightarrow> Some (s, Some x)
     | _ \<Rightarrow> None) = Some (s', r)"
  moreover have eq: "s\<lparr>wakeset := True\<rparr> = s" if "wakeset s" using that by (cases s) simp
  ultimately show "s' \<in> {s, done (s\<lparr>wakeset := True\<rparr>)}" by (auto simp: eq split: kev.splits errno.splits if_splits)
next
  fix s s'
  assume a: "pwf s" "tokens s h"
  show "fdopen s" using a assms(1) by (auto simp: tokens_def)
  assume "s' \<in> {s, done (s\<lparr>wakeset := True\<rparr>)}"
  moreover have "pwf (done (s\<lparr>wakeset := True\<rparr>)) \<and> closedF (done (s\<lparr>wakeset := True\<rparr>)) = closedF s
      \<and> shifted s (done (s\<lparr>wakeset := True\<rparr>)) (\<lambda>k. h k - h k)"
    using assms(1) a by (elim disjE) (simp_all add: pwf_simps)
  moreover have "shifted s s (\<lambda>k. h k - h k)" by (simp add: shifted_def)
  ultimately show "pwf s'" "closedF s' = closedF s \<and> shifted s s' (\<lambda>k. h k - h k)" using a by auto
qed (use assms in simp_all)

lemma wp_kernel_wait:
  assumes "1 \<le> h Armed" "1 \<le> h Using" "\<And>r. Q r (add Waiting 1 (add Armed (-1) h))"
  shows "wpk Q (kernel_wait wake clear n timeout) h"
  unfolding kernel_wait_def
proof (rule wp_syscall_in [where U = "\<lambda>s. {s\<lparr>armed := armed s - 1, wakeset := wakeset s \<and> b\<rparr> | b. True}"
    and h' = "add Waiting 1 (add Armed (-1) h)"])
  fix e :: "('a, 'b) kev" and s s' r
  assume "(case e of KReady evs \<Rightarrow>
         if length evs \<le> n \<and> (list_ex wake evs \<longrightarrow> wakeset s) \<and> (evs = [] \<longrightarrow> 0 \<le> timeout)
         then Some (s\<lparr>armed := armed s - 1, wakeset := wakeset s \<and> \<not> (clear \<and> list_ex wake evs)\<rparr>, Inr evs) else None
     | KFail x \<Rightarrow> Some (s\<lparr>armed := armed s - 1\<rparr>, Inl x)
     | _ \<Rightarrow> None) = Some (s', r)"
  moreover have "\<exists>b. s\<lparr>armed := armed s - 1\<rparr> = s\<lparr>armed := armed s - 1, wakeset := wakeset s \<and> b\<rparr>"
    by (rule exI [of _ True], cases s) simp
  ultimately show "s' \<in> {s\<lparr>armed := armed s - 1, wakeset := wakeset s \<and> b\<rparr> | b. True}"
    by (auto split: kev.splits if_splits)
next
  fix s s'
  assume a: "pwf s" "tokens s h" "s' \<in> {s\<lparr>armed := armed s - 1, wakeset := wakeset s \<and> b\<rparr> | b. True}"
  then obtain b where "s' = s\<lparr>armed := armed s - 1, wakeset := wakeset s \<and> b\<rparr>" by blast
  with a assms(1,2) show "pwf s'" "closedF s' = closedF s \<and> shifted s s' (\<lambda>k. (add Waiting 1 (add Armed (-1) h)) k - h k)"
    by (simp_all add: pwf_simps)
qed (use assms in \<open>auto simp: tokens_def\<close>)

lemma wp_drainWake:
  assumes "1 \<le> h Using" "1 \<le> h Waiting" "Q () h"
  shows "wpk Q drainWake h"
  unfolding drainWake_def
proof (rule wp_syscall_in [where U = "\<lambda>s. {s, s\<lparr>wakeset := False\<rparr>}" and h' = h])
  fix s s'
  assume a: "pwf s" "tokens s h" "s' \<in> {s, s\<lparr>wakeset := False\<rparr>}"
  have "pwf (s\<lparr>wakeset := False\<rparr>)" "shifted s s none" "shifted s (s\<lparr>wakeset := False\<rparr>) none"
    using a(1,2) assms(1,2) by (simp_all add: pwf_simps)
  then show "pwf s'" "closedF s' = closedF s \<and> shifted s s' (\<lambda>k. h k - h k)" using a(1,3) by auto
qed (use assms in \<open>auto simp: tokens_def split: kev.splits errno.splits\<close>)

lemma wp_drains: "1 \<le> h Using \<Longrightarrow> 1 \<le> h Waiting \<Longrightarrow> Q () h \<Longrightarrow> wpk Q (drains wake evs) h"
  by (induction evs) (auto intro!: wp_bind wp_drainWake)

lemma wp_close_last:
  assumes "1 \<le> h Writer" "1 \<le> h k" "k = Closer \<or> k = Snapper" "\<And>r. Q r (add k (-1) h)"
  shows "wpk Q close_last h"
  unfolding close_last_def
proof (rule wp_syscall_in [where U = "\<lambda>s. {s\<lparr>fdopen := False\<rparr>}" and h' = "add k (-1) h"])
  fix s s'
  assume a: "pwf s" "tokens s h"
  show "fdopen s" using a assms(2,3) by (auto simp: tokens_def)
  assume "s' \<in> {s\<lparr>fdopen := False\<rparr>}"
  then have s': "s' = s\<lparr>fdopen := False\<rparr>" by simp
  have "locked s" using a(2) assms(1) by (simp add: tokens_def)
  then show "pwf s'" "closedF s' = closedF s \<and> shifted s s' (\<lambda>x. (add k (-1) h) x - h x)"
    using a assms(2,3) s' by (elim disjE; simp add: pwf_simps)+
qed (use assms in \<open>auto split: kev.splits\<close>)

lemmas wp_lock = wp_rlock wp_runlock wp_runlock_use wp_lock_queue wp_lock_take wp_unlock wp_load_closed wp_check_open
  wp_cas_closed wp_cas_waiting wp_stop_waiting wp_arm wp_since

lemma wp_waiter_count:
  "Q () (add Count 1 h) \<Longrightarrow> wpk Q add_waiter h"
  "1 \<le> h Count \<Longrightarrow> Q () (add Count (-1) h) \<Longrightarrow> wpk Q drop_waiter h"
  unfolding add_waiter_def drop_waiter_def
  by (rule wp_action [where H = "\<lambda>_. add Count 1 h"]; clarsimp; (simp add: pwf_simps; fail | force))
     (rule wp_action [where H = "\<lambda>_. add Count (-1) h"]; clarsimp; (simp add: pwf_simps; fail | force))

lemma wp_arm_get:
  "1 \<le> h Reader \<Longrightarrow> 1 \<le> h Count \<Longrightarrow> Q True h \<Longrightarrow>
    Q False (add Getting 1 (add Count (-1) (add Using 1 (add Reader (-1) h)))) \<Longrightarrow> wpk Q arm_get h"
  unfolding arm_get_def
  by (rule wp_action [where H = "\<lambda>c. if c then h else add Getting 1 (add Count (-1) (add Using 1 (add Reader (-1) h)))"];
      clarsimp split: if_splits; (simp add: pwf_simps; fail | force))

lemma wp_get_queued:
  assumes "1 \<le> h Getting" "1 \<le> h Using" "\<And>r. Q r (add Count 1 (add Getting (-1) h))"
  shows "wpk Q (get_queued timeout) h"
  unfolding get_queued_def
proof (rule wp_syscall_in [where U = "\<lambda>s. {s\<lparr>getting := getting s - 1\<rparr>, s\<lparr>getting := getting s - 1, reserved := reserved s - 1\<rparr>}
      \<inter> {s'. 0 \<le> reserved s \<longrightarrow> 0 \<le> reserved s'}" and h' = "add Count 1 (add Getting (-1) h)"])
  fix s s'
  assume a: "pwf s" "tokens s h" "s' \<in> {s\<lparr>getting := getting s - 1\<rparr>, s\<lparr>getting := getting s - 1, reserved := reserved s - 1\<rparr>}
      \<inter> {s'. 0 \<le> reserved s \<longrightarrow> 0 \<le> reserved s'}"
  let ?d = "\<lambda>k. (add Count 1 (add Getting (-1) h)) k - h k"
  have e: "snapped s \<longrightarrow> lost s \<or> getting s - 1 \<le> reserved s + todo s"
    using a(1) unfolding pwf_def by linarith
  have one: "pwf (s\<lparr>getting := getting s - 1\<rparr>)" "shifted s (s\<lparr>getting := getting s - 1\<rparr>) ?d"
    using a(1,2) assms(1,2) e by (simp_all add: pwf_simps)
  have two: "pwf (s\<lparr>getting := getting s - 1, reserved := reserved s - 1\<rparr>)" if "0 < reserved s"
    using a(1,2) assms(1,2) that by (simp add: pwf_simps)
  have "shifted s (s\<lparr>getting := getting s - 1, reserved := reserved s - 1\<rparr>) ?d" by (simp add: shifted_def)
  moreover have "0 \<le> reserved s" using a(1) by (simp add: pwf_def)
  ultimately show "pwf s'" "closedF s' = closedF s \<and> shifted s s' ?d" using a(3) one two by auto
qed (use assms in \<open>auto simp: tokens_def split: kev.splits if_splits\<close>)

lemma wp_snapshot:
  assumes "1 \<le> h Closer" "h Todo = 0" "\<And>n. 0 \<le> n \<Longrightarrow> Q n ((add Snapper 1 (add Closer (-1) h))(Todo := n))"
  shows "wpk Q snapshot_waiters h"
  unfolding snapshot_waiters_def
proof (rule wp_action [where H = "\<lambda>n. (add Snapper 1 (add Closer (-1) h))(Todo := if 0 \<le> n then n else 0)"])
  fix e :: "(unit, completion) kev" and s s' r
  assume a: "pwf s" "tokens s h" "Some (s\<lparr>todo := waiters s, snapped := True\<rparr>, waiters s) = Some (s', r)"
  have n: "0 \<le> waiters s" using a(1) by (simp add: pwf_def)
  have s': "s' = s\<lparr>todo := waiters s, snapped := True\<rparr>" "r = waiters s" using a(3) by auto
  show "Q r ((add Snapper 1 (add Closer (-1) h))(Todo := if 0 \<le> r then r else 0))" using assms(3) n a(3) by auto
  show "pwf s'" "shifted s s' (\<lambda>k. ((add Snapper 1 (add Closer (-1) h))(Todo := if 0 \<le> r then r else 0)) k - h k)"
      "closedF s \<Longrightarrow> closedF s'"
    using a(1,2) assms(1,2) n by (simp_all add: s' pwf_simps)
qed (use assms(1) in auto)

lemma wp_post_reserved:
  assumes "1 \<le> h Todo" "1 \<le> h Snapper" "Q () (add Todo (-1) h)"
  shows "wpk Q post_reserved h"
  unfolding post_reserved_def
proof (rule wp_syscall_in [where U = "\<lambda>s. {s\<lparr>reserved := reserved s + 1, todo := todo s - 1\<rparr>, s\<lparr>lost := True, todo := todo s - 1\<rparr>}"
    and h' = "add Todo (-1) h"])
  fix s s'
  assume a: "pwf s" "tokens s h" "s' \<in> {s\<lparr>reserved := reserved s + 1, todo := todo s - 1\<rparr>, s\<lparr>lost := True, todo := todo s - 1\<rparr>}"
  let ?d = "\<lambda>k. (add Todo (-1) h) k - h k"
  have "pwf (s\<lparr>reserved := reserved s + 1, todo := todo s - 1\<rparr>)" "pwf (s\<lparr>lost := True, todo := todo s - 1\<rparr>)"
    "shifted s (s\<lparr>reserved := reserved s + 1, todo := todo s - 1\<rparr>) ?d" "shifted s (s\<lparr>lost := True, todo := todo s - 1\<rparr>) ?d"
    using a(1,2) assms(1,2) by (simp_all add: pwf_simps)
  then show "pwf s'" "closedF s' = closedF s \<and> shifted s s' ?d" using a(3) by auto
qed (use assms in \<open>auto simp: tokens_def split: kev.splits if_splits\<close>)

section \<open>The methods\<close>

lemma wp_under_rlock:
  assumes "\<And>Q h. 1 \<le> h Using \<Longrightarrow> (\<And>r. Q r h) \<Longrightarrow> wpk Q call h" "\<And>r. Q r none"
  shows "wpk Q (under_rlock call what) none"
  unfolding under_rlock_def using assms(2)
  by (auto intro!: wp_bind wp_lock assms(1) simp: fun_upd_twist fun_upd_idem)

lemma wp_wait_begin:
  assumes "\<And>err. Q (Some err) none" "Q None (none(Waiting := 1))"
  shows "wpk Q (wait_begin n) none"
  unfolding wait_begin_def using assms by (auto intro!: wp_bind wp_lock)

lemma wp_wait_turn:
  assumes "Q None (none(Waiting := 1))" "\<And>v. Q (Some v) none"
  shows "wpk Q (wait_turn wake clear collect what n timeout) (none(Waiting := 1))"
  unfolding wait_turn_def using assms
  by (auto intro!: wp_bind wp_lock wp_kernel_wait wp_drains simp: fun_upd_twist fun_upd_idem split: sum.splits errno.splits)

lemma wp_close_poller:
  assumes "\<And>Q. (\<And>r. Q r (none(Writer := 1))) \<Longrightarrow> wpk Q release (none(Closer := 1, Writer := 1))" "\<And>r. Q r none"
  shows "wpk Q (close_poller retry release again) none"
  unfolding close_poller_def signal_close_def using assms(2)
  by (auto intro!: wp_bind wp_lock wp_set_wake assms(1) simp: fun_upd_twist fun_upd_idem)

definition epoll_hold :: "elabel \<Rightarrow> pres holding" where
  "epoll_hold l = (case l of EpLoop _ _ \<Rightarrow> none(Waiting := 1) | _ \<Rightarrow> none)"

definition kqueue_hold :: "qlabel \<Rightarrow> pres holding" where
  "kqueue_hold l = (case l of KqLoop _ _ \<Rightarrow> none(Waiting := 1) | _ \<Rightarrow> none)"

definition iocp_hold :: "ilabel \<Rightarrow> pres holding" where
  "iocp_hold l = (case l of IcWake n \<Rightarrow> none(Snapper := 1, Todo := int n) | _ \<Rightarrow> none)"

lemmas wp_calls = wp_under_rlock wp_simple_call wp_set_wake wp_wait_begin wp_wait_turn wp_close_poller wp_close_last [where k = Closer]

lemma epoll_body_ok: "wpk (next_hold (\<lambda>_. False) epoll_hold) (epoll_body l) (epoll_hold l)"
  by (cases l)
     (auto intro!: wp_bind wp_calls simp: next_hold_def Let_def epoll_hold_def epoll_ctl_def epoll_Del_def epoll_Wake_def
      signalWake_def epoll_Close_def epoll_release_def fun_upd_twist fun_upd_idem split: sum.splits option.splits)

lemma kqueue_body_ok: "wpk (next_hold (\<lambda>_. False) kqueue_hold) (kqueue_body l) (kqueue_hold l)"
  by (cases l)
     (auto intro!: wp_bind wp_calls simp: next_hold_def Let_def kqueue_hold_def kqueue_Apply_def kqueue_Del_def kqueue_Wake_def
      triggerWake_def kqueue_Close_def fun_upd_twist fun_upd_idem split: option.splits)

lemma wp_iocp_Get: "(\<And>r. Q r none) \<Longrightarrow> wpk Q (iocp_Get timeout) none"
  unfolding iocp_Get_def
  by (auto intro!: wp_bind wp_lock wp_waiter_count wp_arm_get wp_get_queued simp: fun_upd_twist fun_upd_idem split: dequeued.splits)

lemma wp_iocp_finish: "(\<And>r. Q r none) \<Longrightarrow> wpk Q iocp_finish (none(Snapper := 1))"
  unfolding iocp_finish_def
  by (auto intro!: wp_bind wp_lock wp_close_last [where k = Snapper] simp: fun_upd_twist fun_upd_idem)

lemma iocp_body_ok: "wpk (next_hold (\<lambda>_. False) iocp_hold) (iocp_body l) (iocp_hold l)"
proof (cases l)
  case (IcWake n)
  then show ?thesis
    by (cases n) (auto intro!: wp_bind wp_iocp_finish wp_post_reserved simp: next_hold_def Let_def iocp_hold_def fun_upd_idem)
qed (auto intro!: wp_bind wp_calls wp_lock wp_iocp_Get wp_snapshot simp: next_hold_def Let_def iocp_hold_def
      iocp_Associate_def iocp_Post_def fun_upd_twist fun_upd_idem)

lemma new_poller_ok: "pwf new_poller" "pown new_poller k = 0"
  by (simp add: pwf_def new_poller_def) (cases k; simp add: new_poller_def)

interpretation epoll: session_loops epoll_body "Collect epoll_call" epoll_hold pwf stays_closed "\<lambda>_. False" pown epoll_init
  by (unfold_locales, rule epoll_body_ok)
     (auto simp: epoll_hold_def epoll_call_def epoll_init_def new_poller_ok stays_closed_def split: elabel.splits)

interpretation kqueue: session_loops kqueue_body "Collect kqueue_call" kqueue_hold pwf stays_closed "\<lambda>_. False" pown kqueue_init
  by (unfold_locales, rule kqueue_body_ok)
     (auto simp: kqueue_hold_def kqueue_call_def kqueue_init_def new_poller_ok stays_closed_def split: qlabel.splits)

interpretation iocp: session_loops iocp_body "Collect iocp_call" iocp_hold pwf stays_closed "\<lambda>_. False" pown iocp_init
  by (unfold_locales, rule iocp_body_ok)
     (auto simp: iocp_hold_def iocp_call_def iocp_init_def new_poller_ok stays_closed_def split: ilabel.splits)

section \<open>Correctness of the pollers\<close>

abbreviation epoll_running :: "((epoll_event, unit) kev, poller, elabel) psys \<Rightarrow> bool" where
  "epoll_running \<equiv> reachable epoll_init (pstep epoll_body (Collect epoll_call))"

abbreviation kqueue_running :: "((kevent, unit) kev, poller, qlabel) psys \<Rightarrow> bool" where
  "kqueue_running \<equiv> reachable kqueue_init (pstep kqueue_body (Collect kqueue_call))"

abbreviation iocp_running :: "((unit, completion) kev, poller, ilabel) psys \<Rightarrow> bool" where
  "iocp_running \<equiv> reachable iocp_init (pstep iocp_body (Collect iocp_call))"

text \<open>
  What \<^verbatim>\<open>Close\<close> and \<^verbatim>\<open>Wait\<close> promise: no system call on a closed descriptor, one \<^verbatim>\<open>Wait\<close> in the kernel at a time,
  and one that is there when \<^verbatim>\<open>Close\<close> has signalled finds the wake-up set.
\<close>

definition poller_safe :: "poller \<Rightarrow> bool" where
  "poller_safe s \<longleftrightarrow> \<not> pfault s \<and> armed s \<le> 1 \<and> (0 < users s \<longrightarrow> fdopen s) \<and> (\<not> fdopen s \<longrightarrow> closedF s)
     \<and> (signalled s \<and> 0 < armed s \<longrightarrow> wakeset s)"

lemma pwf_safe: "pwf s \<Longrightarrow> poller_safe s"
  by (auto simp: pwf_def poller_safe_def)

text \<open>Everything is given back when all calls have returned; a closed poller has closed its descriptors.\<close>

definition poller_idle :: "poller \<Rightarrow> bool" where
  "poller_idle s \<longleftrightarrow> readers s = 0 \<and> \<not> lockq s \<and> \<not> locked s \<and> \<not> pwaiting s \<and> waiters s = 0 \<and> (closedF s \<longrightarrow> \<not> fdopen s)"

lemma own_idle: "(\<And>k. pown s k = 0) \<Longrightarrow> poller_idle s"
proof -
  assume a: "\<And>k. pown s k = 0"
  show ?thesis
    using a [of Reader] a [of Using] a [of Queue] a [of Writer] a [of Closer] a [of Snapper] a [of Waiting] a [of Armed]
      a [of Count] a [of Getting]
    by (auto simp: poller_idle_def split: if_splits)
qed

text \<open>
  A \<^verbatim>\<open>Wait\<close> is in the kernel when \<^verbatim>\<open>Close\<close> signals; it wakes up, and \<^verbatim>\<open>Close\<close> closes the descriptors.
\<close>

definition epoll_demo :: "((epoll_event, unit) kev, elabel) move list" where
  "epoll_demo = [Go (EpWait 1 (- 1)), Do 0 KTau, Do 0 KTau, Loop 0, Do 0 KTau, Do 0 KTau, Go EpClose, Do 1 KTau, Do 1 KOk,
     Do 0 (KReady [putData \<lparr>evEvents = 1, evFd = 0, evPad = 0\<rparr> wakeData]), Do 0 KOk, Do 0 KTau, Do 0 KTau, Do 0 KTau, Loop 0,
     Do 1 KTau, Do 1 KTau, Do 1 KOk, Do 1 KOk, Do 1 KTau]"

definition kqueue_demo :: "((kevent, unit) kev, qlabel) move list" where
  "kqueue_demo = [Go (KqWait 1 (- 1)), Do 0 KTau, Do 0 KTau, Loop 0, Do 0 KTau, Do 0 KTau, Go KqClose, Do 1 KTau, Do 1 KOk]"

definition iocp_demo :: "((unit, completion) kev, ilabel) move list" where
  "iocp_demo = [Go (IcGet (- 1)), Do 0 KTau, Do 0 KTau, Do 0 KTau, Do 0 KTau, Go IcClose, Do 1 KTau, Do 1 KTau, Loop 1, Do 1 KOk]"

lemma epoll_demo_run:
  "map_option (\<lambda>c. (map returned (threads c), closedF (pst c)))
     (exec epoll_body epoll_call epoll_demo \<lparr>pst = new_poller, threads = []\<rparr>) = Some (replicate 2 (Some None), True)"
  by code_simp

lemma kqueue_demo_run:
  "map_option (\<lambda>c. (signalled (pst c), armed (pst c)))
     (exec kqueue_body kqueue_call kqueue_demo \<lparr>pst = new_poller, threads = []\<rparr>) = Some (True, 1)"
  by code_simp

lemma iocp_demo_run:
  "map_option (\<lambda>c. (snapped (pst c), todo (pst c), lost (pst c), getting (pst c)))
     (exec iocp_body iocp_call iocp_demo \<lparr>pst = new_poller, threads = []\<rparr>) = Some (True, 0, False, 1)"
  by code_simp

text \<open>
  C36. However \<^verbatim>\<open>Add\<close>, \<^verbatim>\<open>Del\<close>, \<^verbatim>\<open>Wake\<close>, \<^verbatim>\<open>Wait\<close> and \<^verbatim>\<open>Close\<close> of an epoll or kqueue poller interleave, no system call uses
  a descriptor that \<^verbatim>\<open>Close\<close> has closed, at most one \<^verbatim>\<open>Wait\<close> is in the kernel, and if \<^verbatim>\<open>Close\<close> has signalled while one
  is there, the wake-up that ends it is pending, so that \<^verbatim>\<open>Close\<close> cannot wait for it for ever; when all calls
  have returned, the locks are free and a closed poller has closed its descriptors.
\<close>

theorem poller_close:
  assumes "epoll_running c" "kqueue_running d"
  shows "poller_safe (pst c) \<and> poller_safe (pst d)
     \<and> (set (threads c) \<subseteq> {Ret None} \<longrightarrow> poller_idle (pst c)) \<and> (set (threads d) \<subseteq> {Ret None} \<longrightarrow> poller_idle (pst d))"
  using pwf_safe [OF epoll.reachable_W [OF assms(1)]] pwf_safe [OF kqueue.reachable_W [OF assms(2)]]
    own_idle [OF epoll.quiescent [OF assms(1)]] own_idle [OF kqueue.quiescent [OF assms(2)]]
  by blast

theorem poller_close_witness:
  "\<exists>c d. epoll_running c \<and> kqueue_running d \<and> closedF (pst c) \<and> \<not> fdopen (pst c) \<and> wakeset (pst d)"
proof -
  obtain c where c: "exec epoll_body epoll_call epoll_demo \<lparr>pst = new_poller, threads = []\<rparr> = Some c"
    "map returned (threads c) = replicate 2 (Some None)" "closedF (pst c)"
    using epoll_demo_run by auto
  obtain d where d: "exec kqueue_body kqueue_call kqueue_demo \<lparr>pst = new_poller, threads = []\<rparr> = Some d"
    "signalled (pst d)" "armed (pst d) = 1"
    using kqueue_demo_run by auto
  have r: "epoll_running c" "kqueue_running d"
    by (rule exec_reachable [OF c(1)], rule reach_init, simp add: epoll_init_def)
       (rule exec_reachable [OF d(1)], rule reach_init, simp add: kqueue_init_def)
  from poller_close [OF r] all_returned [OF c(2)] r c(3) d(2,3) show ?thesis
    by (auto simp: poller_safe_def poller_idle_def)
qed

text \<open>
  C37. However \<^verbatim>\<open>Get\<close>, \<^verbatim>\<open>Post\<close>, \<^verbatim>\<open>Associate\<close> and \<^verbatim>\<open>Close\<close> of a completion port interleave, no call uses the handle that
  \<^verbatim>\<open>Close\<close> has closed, and once \<^verbatim>\<open>Close\<close> has posted a packet for every call in its snapshot of \<^verbatim>\<open>waiters\<close>, each call
  that is still in \<^verbatim>\<open>GetQueuedCompletionStatus\<close> has a packet of its own to wake it; when all calls have
  returned, the lock is free, \<^verbatim>\<open>waiters\<close> is zero and a closed port has closed its handle.
\<close>

theorem iocp_close:
  assumes "iocp_running c"
  shows "\<not> pfault (pst c) \<and> (snapped (pst c) \<and> todo (pst c) = 0 \<and> \<not> lost (pst c) \<longrightarrow> getting (pst c) \<le> reserved (pst c))
     \<and> (set (threads c) \<subseteq> {Ret None} \<longrightarrow> poller_idle (pst c))"
  using iocp.reachable_W [OF assms] own_idle [OF iocp.quiescent [OF assms]] by (auto simp: pwf_def)

theorem iocp_close_witness:
  "\<exists>c. iocp_running c \<and> getting (pst c) = 1 \<and> 1 \<le> reserved (pst c)"
proof -
  obtain c where c: "exec iocp_body iocp_call iocp_demo \<lparr>pst = new_poller, threads = []\<rparr> = Some c"
    "snapped (pst c)" "todo (pst c) = 0" "\<not> lost (pst c)" "getting (pst c) = 1"
    using iocp_demo_run by auto
  have "iocp_running c" by (rule exec_reachable [OF c(1)], rule reach_init, simp add: iocp_init_def)
  with iocp_close [of c] c show ?thesis by auto
qed

section \<open>Event data and timeouts\<close>

lemma eventData_putData: "eventData (putData ev data) = data"
  by (rule bit_word_eqI) (auto simp: eventData_def putData_def bit_simps)

lemma collect_no_wake: "x \<in> set (epoll_collect evs) \<Longrightarrow> Data x \<noteq> wakeData"
  by (induction evs) (auto simp: is_wake_def split: if_splits)

text \<open>
  The 64-bit value given to \<^verbatim>\<open>Add\<close> or \<^verbatim>\<open>Mod\<close> comes back with its events in the \<^verbatim>\<open>Event\<close> of \<^verbatim>\<open>Wait\<close>, although the kernel's
  record keeps it in two 32-bit fields; only the reserved value is refused, and no \<^verbatim>\<open>Event\<close> carries it.
\<close>

lemma epoll_data_roundtrip:
  "(data = wakeData \<longrightarrow> ctl_event events data = Inl ErrReserved)
     \<and> (data \<noteq> wakeData \<longrightarrow> (\<exists>ev. ctl_event events data = Inr ev
          \<and> epoll_collect (ev # evs) = \<lparr>Events = events, Data = data\<rparr> # epoll_collect evs))
     \<and> wakeData \<notin> Data ` set (epoll_collect evs)"
  using collect_no_wake [of _ evs]
  by (auto simp: ctl_event_def is_wake_def eventData_putData dest!: sym [of wakeData]) (auto simp: putData_def)

text \<open>
  A wait is never cut short: the milliseconds cover what remains of the timeout, up to the largest the
  kernel takes, and only a negative timeout waits for ever.
\<close>

definition ceil_millis :: "int \<Rightarrow> int" where
  "ceil_millis d = d div Millisecond + (if d mod Millisecond \<noteq> 0 then 1 else 0)"

lemma ceil_millis: "0 \<le> d \<Longrightarrow> 0 \<le> ceil_millis d" "d \<le> ceil_millis d * Millisecond"
proof -
  have m: "0 < Millisecond" by (simp add: Millisecond_def)
  show "0 \<le> ceil_millis d" if "0 \<le> d" using that m by (simp add: ceil_millis_def pos_imp_zdiv_nonneg_iff)
  have "d div Millisecond * Millisecond = d - d mod Millisecond" by (simp add: minus_mod_eq_div_mult)
  then show "d \<le> ceil_millis d * Millisecond"
    using pos_mod_bound [OF m, of d] by (simp add: ceil_millis_def distrib_right)
qed

lemma timeoutMillis_bounds:
  "- 1 \<le> timeoutMillis timeout elapsed" "timeoutMillis timeout elapsed \<le> 2 ^ 31 - 1"
  "timeoutMillis timeout elapsed = - 1 \<longleftrightarrow> timeout < 0"
  "0 \<le> timeout \<Longrightarrow> timeoutMillis timeout elapsed < 2 ^ 31 - 1 \<Longrightarrow> timeout - elapsed \<le> timeoutMillis timeout elapsed * Millisecond"
  using ceil_millis [of "timeout - elapsed"]
  unfolding timeoutMillis_def Let_def ceil_millis_def [symmetric] by auto

lemma iocp_timeoutMillis_bounds:
  "0 \<le> iocp_timeoutMillis timeout" "iocp_timeoutMillis timeout \<le> 2 ^ 32 - 1"
  "iocp_timeoutMillis timeout = 2 ^ 32 - 1 \<longleftrightarrow> timeout < 0"
  "0 \<le> timeout \<Longrightarrow> iocp_timeoutMillis timeout < 2 ^ 32 - 2 \<Longrightarrow> timeout \<le> iocp_timeoutMillis timeout * Millisecond"
  using ceil_millis [of timeout]
  unfolding iocp_timeoutMillis_def Let_def ceil_millis_def [symmetric] by auto

end
