(* ===== verification/Quic.thy ===== *)
theory Quic
  imports Ogre_Prelude
begin

text \<open>
  The QUIC client (\<^verbatim>\<open>quic/errors.go\<close>, \<^verbatim>\<open>quic/config.go\<close>, \<^verbatim>\<open>quic/client.go\<close>, \<^verbatim>\<open>quic/stream.go\<close>, \<^verbatim>\<open>internal/quicpolicy/policy.go\<close>):
  its error envelope and classification, the policy that builds the configurations of \<^verbatim>\<open>crypto/tls\<close> and
  quic-go, and the wrappers of the connection and stream methods. The errors of the libraries are nodes of a
  known type with what they answer to \<^verbatim>\<open>Timeout()\<close> and to \<^verbatim>\<open>Is\<close>; the results of the library's calls are
  arguments. The HTTP client shares the error trees.
\<close>

section \<open>Error trees\<close>

datatype lib_sentinel = CtxCanceled | CtxDeadlineExceeded | IoEOF | IoErrUnexpectedEOF | LibNetErrClosed
  | H3ErrTransportClosed | QuicErrTransportClosed

datatype quic_sentinel = QErrCanceled | QErrTimeout | QErrClosed | QErrProtocol | QErrResourceExhausted
  | QErrMessageTooLarge | QErrDatagramsDisabled | QErrNilContext | QErrEmptyAddress | ErrALPNRequired
  | QErrInvalidTimeout | QErrTLSVersion

datatype client_sentinel = ErrInvalidHTTPClientConfig | ErrHTTPClientTransportClosed | ErrNoApplicableHTTPProtocol
  | ErrHTTPProtocolUnavailable | ErrInvalidHTTP3Config | ErrHTTP3TLSVersion | ErrHTTP3TransportClosed
  | ErrInvalidHTTPConfig | ErrInvalidHTTPProtocol | ErrHTTPSTLSVersion

datatype lsentinel = LibS lib_sentinel | QuicS quic_sentinel | ClientS client_sentinel

datatype lib_type = IdleTimeoutError | HandshakeTimeoutError | DatagramTooLargeError | StreamLimitReachedError
  | TransportError | VersionNegotiationError | ApplicationError | StreamError | StatelessResetError | HTTP3LibError
  | LibUnknownAuthorityError | LibHostnameError | LibCertificateInvalidError | AlertError nat | LibDNSError
  | LibOpError string | LibOther string

datatype QuicOp = OpDialQuic | OpOpenStream | OpAcceptStream | OpReadStream | OpWriteStream | OpCloseStream
  | OpSendDatagram | OpReceiveDatagram | OpCloseQuic

datatype QuicErrorKind = QErrorUnknown | ErrorCanceled | QErrorTimeout | QErrorClosed | QErrorProtocol
  | QErrorResourceExhausted | ErrorMessageTooLarge

datatype HTTP3ErrorKind = HTTP3ErrorUnknown | HTTP3ErrorTransport | HTTP3ErrorProtocol | HTTP3ErrorClosed

datatype HTTPProtocol = HTTP1 | HTTP2 | HTTP3

text \<open>
  \<open>Lib t to is es\<close> is an error of a library type \<open>t\<close>: \<open>to\<close> is \<open>None\<close> when it is no \<^verbatim>\<open>net.Error\<close> and otherwise its
  \<^verbatim>\<open>Timeout()\<close>, \<open>is\<close> are the sentinels its \<^verbatim>\<open>Is\<close> accepts, \<open>es\<close> what it unwraps to.
\<close>

datatype lerr =
    LSentinel lsentinel
  | LErrorString string
  | LErrorf string lerr
  | LJoin "lerr list"
  | QuicError QuicOp QuicErrorKind lerr
  | HTTP3Error HTTP3ErrorKind lerr
  | HTTPFallbackError "(HTTPProtocol \<times> lerr) list"
  | Lib lib_type "bool option" "lsentinel list" "lerr list"

fun lchain :: "lerr \<Rightarrow> lerr list" where
  "lchain (LSentinel s) = [LSentinel s]"
| "lchain (LErrorString m) = [LErrorString m]"
| "lchain (LErrorf m e) = LErrorf m e # lchain e"
| "lchain (LJoin es) = LJoin es # concat (map lchain es)"
| "lchain (QuicError op k e) = QuicError op k e # lchain e"
| "lchain (HTTP3Error k e) = HTTP3Error k e # lchain e"
| "lchain (HTTPFallbackError as) = HTTPFallbackError as # concat (map (\<lambda>a. lchain (snd a)) as)"
| "lchain (Lib t n is es) = Lib t n is es # concat (map lchain es)"

definition kind_sentinel :: "QuicErrorKind \<Rightarrow> quic_sentinel option" where
  "kind_sentinel k =
     (case k of
        QErrorUnknown \<Rightarrow> None
      | ErrorCanceled \<Rightarrow> Some QErrCanceled
      | QErrorTimeout \<Rightarrow> Some QErrTimeout
      | QErrorClosed \<Rightarrow> Some QErrClosed
      | QErrorProtocol \<Rightarrow> Some QErrProtocol
      | QErrorResourceExhausted \<Rightarrow> Some QErrResourceExhausted
      | ErrorMessageTooLarge \<Rightarrow> Some QErrMessageTooLarge)"

text \<open>\<^verbatim>\<open>(*Error).Is\<close> of the package, written as its switch on the target.\<close>

definition quic_Is :: "QuicErrorKind \<Rightarrow> lsentinel \<Rightarrow> bool" where
  "quic_Is kind target =
     (case target of
        QuicS QErrCanceled \<Rightarrow> kind = ErrorCanceled
      | QuicS QErrTimeout \<Rightarrow> kind = QErrorTimeout
      | QuicS QErrClosed \<Rightarrow> kind = QErrorClosed
      | QuicS QErrProtocol \<Rightarrow> kind = QErrorProtocol
      | QuicS QErrResourceExhausted \<Rightarrow> kind = QErrorResourceExhausted
      | QuicS QErrMessageTooLarge \<Rightarrow> kind = ErrorMessageTooLarge
      | _ \<Rightarrow> False)"

fun lnode_is :: "lerr \<Rightarrow> lsentinel \<Rightarrow> bool" where
  "lnode_is (LSentinel s) t = (s = t)"
| "lnode_is (QuicError op k e) t = quic_Is k t"
| "lnode_is (Lib l n is es) t = (t \<in> set is)"
| "lnode_is _ t = False"

definition l_is :: "lerr \<Rightarrow> lsentinel \<Rightarrow> bool" where
  "l_is e t = list_ex (\<lambda>n. lnode_is n t) (lchain e)"

definition l_as :: "(lerr \<Rightarrow> bool) \<Rightarrow> lerr \<Rightarrow> lerr option" where
  "l_as P e = find P (lchain e)"

fun is_lib :: "lib_type \<Rightarrow> lerr \<Rightarrow> bool" where
  "is_lib t (Lib t' _ _ _) = (t = t')"
| "is_lib _ _ = False"

definition has_lib :: "lerr \<Rightarrow> lib_type \<Rightarrow> bool" where
  "has_lib e t \<longleftrightarrow> l_as (is_lib t) e \<noteq> None"

text \<open>
  Which nodes are a \<^verbatim>\<open>net.Error\<close>, with \<^verbatim>\<open>Timeout()\<close>. The package's own \<^verbatim>\<open>Error\<close> has \<^verbatim>\<open>Timeout\<close> but no \<^verbatim>\<open>Temporary\<close>, so it is
  none.
\<close>

fun lnet_error :: "lerr \<Rightarrow> bool option" where
  "lnet_error (LSentinel (LibS CtxDeadlineExceeded)) = Some True"
| "lnet_error (LSentinel (LibS LibNetErrClosed)) = Some False"
| "lnet_error (Lib _ n _ _) = n"
| "lnet_error _ = None"

definition net_timeout :: "lerr \<Rightarrow> bool" where
  "net_timeout e = (case l_as (\<lambda>n. lnet_error n \<noteq> None) e of None \<Rightarrow> False | Some n \<Rightarrow> lnet_error n = Some True)"

section \<open>Classification\<close>

definition classifyError :: "lerr option \<Rightarrow> QuicErrorKind" where
  "classifyError err =
     (case err of
        None \<Rightarrow> QErrorUnknown
      | Some e \<Rightarrow>
          if l_is e (LibS CtxDeadlineExceeded) then QErrorTimeout
          else if l_is e (LibS CtxCanceled) then ErrorCanceled
          else if has_lib e IdleTimeoutError then QErrorTimeout
          else if has_lib e HandshakeTimeoutError then QErrorTimeout
          else if has_lib e DatagramTooLargeError then ErrorMessageTooLarge
          else if has_lib e StreamLimitReachedError then QErrorResourceExhausted
          else if has_lib e TransportError then QErrorProtocol
          else if has_lib e VersionNegotiationError then QErrorProtocol
          else if has_lib e ApplicationError then QErrorClosed
          else if has_lib e StreamError then QErrorClosed
          else if has_lib e StatelessResetError then QErrorClosed
          else if net_timeout e then QErrorTimeout
          else if l_is e (LibS LibNetErrClosed) then QErrorClosed
          else QErrorUnknown)"

definition wrapError :: "QuicOp \<Rightarrow> lerr option \<Rightarrow> lerr option" where
  "wrapError op err = map_option (QuicError op (classifyError err)) err"

section \<open>Policy\<close>

record tls_config =
  MinVersion :: nat
  MaxVersion :: nat
  NextProtos :: "string list"

definition VersionTLS13 :: nat where
  "VersionTLS13 = 772"

record quic_config =
  HandshakeIdleTimeout :: int
  MaxIdleTimeout :: int
  InitialStreamReceiveWindow :: nat
  MaxStreamReceiveWindow :: nat
  InitialConnectionReceiveWindow :: nat
  MaxConnectionReceiveWindow :: nat
  QMaxIncomingStreams :: int
  QMaxIncomingUniStreams :: int
  Allow0RTT :: bool
  QEnableDatagrams :: bool

record policy_config =
  TLSConfig :: "tls_config option"
  ALPN :: string
  HandshakeTimeout :: int
  IdleTimeout :: int
  EnableDatagrams :: bool
  MaxIncomingStreams :: int
  MaxIncomingUniStreams :: int

definition Second :: int where
  "Second = 1000000000"

definition policy_tls :: "policy_config \<Rightarrow> tls_config" where
  "policy_tls c = (case TLSConfig c of None \<Rightarrow> \<lparr>MinVersion = 0, MaxVersion = 0, NextProtos = []\<rparr> | Some t \<Rightarrow> t)"

definition Build :: "policy_config \<Rightarrow> quic_sentinel + (tls_config \<times> quic_config)" where
  "Build c =
     (if ALPN c = [] then Inl ErrALPNRequired
      else if HandshakeTimeout c < 0 \<or> IdleTimeout c < 0 then Inl QErrInvalidTimeout
      else let t = policy_tls c in
        if MinVersion t \<noteq> 0 \<and> MinVersion t < VersionTLS13 then Inl QErrTLSVersion
        else if MaxVersion t \<noteq> 0 \<and> MaxVersion t < VersionTLS13 then Inl QErrTLSVersion
        else Inr (t\<lparr>MinVersion := if MinVersion t = 0 then VersionTLS13 else MinVersion t, NextProtos := [ALPN c]\<rparr>,
          \<lparr>HandshakeIdleTimeout = if HandshakeTimeout c = 0 then 5 * Second else HandshakeTimeout c,
           MaxIdleTimeout = if IdleTimeout c = 0 then 30 * Second else IdleTimeout c,
           InitialStreamReceiveWindow = 524288, MaxStreamReceiveWindow = 4194304,
           InitialConnectionReceiveWindow = 1048576, MaxConnectionReceiveWindow = 8388608,
           QMaxIncomingStreams = MaxIncomingStreams c, QMaxIncomingUniStreams = MaxIncomingUniStreams c,
           Allow0RTT = False, QEnableDatagrams = EnableDatagrams c\<rparr>))"

record quic_Config =
  qTLSConfig :: "tls_config option"
  qALPN :: string
  qHandshakeTimeout :: int
  qIdleTimeout :: int
  qEnableDatagrams :: bool

definition build :: "quic_Config \<Rightarrow> quic_sentinel + (tls_config \<times> quic_config)" where
  "build c = Build \<lparr>TLSConfig = qTLSConfig c, ALPN = qALPN c, HandshakeTimeout = qHandshakeTimeout c,
     IdleTimeout = qIdleTimeout c, EnableDatagrams = qEnableDatagrams c, MaxIncomingStreams = 32,
     MaxIncomingUniStreams = - 1\<rparr>"

section \<open>Connections and streams\<close>

text \<open>The first argument tells whether the context is nil; \<open>raw\<close> is what the library's call returns.\<close>

record 'c quic_conn =
  qraw :: 'c
  datagrams :: bool

definition Dial ::
  "bool \<Rightarrow> string \<Rightarrow> quic_Config \<Rightarrow> (tls_config \<Rightarrow> quic_config \<Rightarrow> lerr + 'c) \<Rightarrow> lerr + 'c quic_conn"
where
  "Dial nilctx address cfg raw =
     (if nilctx then Inl (LSentinel (QuicS QErrNilContext))
      else if address = [] then Inl (LSentinel (QuicS QErrEmptyAddress))
      else case build cfg of
        Inl err \<Rightarrow> Inl (LSentinel (QuicS err))
      | Inr (t, q) \<Rightarrow>
          (case raw t q of
             Inl e \<Rightarrow> Inl (QuicError OpDialQuic (classifyError (Some e)) e)
           | Inr c \<Rightarrow> Inr \<lparr>qraw = c, datagrams = qEnableDatagrams cfg\<rparr>))"

definition open_stream :: "QuicOp \<Rightarrow> bool \<Rightarrow> lerr + 's \<Rightarrow> lerr + 's" where
  "open_stream op nilctx raw =
     (if nilctx then Inl (LSentinel (QuicS QErrNilContext))
      else case raw of Inl e \<Rightarrow> Inl (QuicError op (classifyError (Some e)) e) | Inr s \<Rightarrow> Inr s)"

definition SendDatagram :: "'c quic_conn \<Rightarrow> lerr option \<Rightarrow> lerr option" where
  "SendDatagram c raw =
     (if \<not> datagrams c then Some (LSentinel (QuicS QErrDatagramsDisabled)) else wrapError OpSendDatagram raw)"

definition ReceiveDatagram :: "'c quic_conn \<Rightarrow> bool \<Rightarrow> lerr + 'd \<Rightarrow> lerr + 'd" where
  "ReceiveDatagram c nilctx raw =
     (if nilctx then Inl (LSentinel (QuicS QErrNilContext))
      else if \<not> datagrams c then Inl (LSentinel (QuicS QErrDatagramsDisabled))
      else case raw of Inl e \<Rightarrow> Inl (QuicError OpReceiveDatagram (classifyError (Some e)) e) | Inr d \<Rightarrow> Inr d)"

text \<open>\<open>done\<close> is the connection's context once it is done: its cause, if any, and its error.\<close>

definition quic_Err :: "(lerr option \<times> lerr) option \<Rightarrow> lerr option" where
  "quic_Err done =
     (case done of None \<Rightarrow> None
      | Some (cause, err) \<Rightarrow> wrapError OpCloseQuic (Some (case cause of None \<Rightarrow> err | Some c \<Rightarrow> c)))"

text \<open>Only the first \<^verbatim>\<open>CloseWithError\<close> reaches the library; \<open>closed\<close> is its result.\<close>

definition CloseWithError :: "lerr option option \<Rightarrow> lerr option \<Rightarrow> lerr option option \<times> lerr option" where
  "CloseWithError closed raw =
     (case closed of Some r \<Rightarrow> (closed, r) | None \<Rightarrow> (Some (wrapError OpCloseQuic raw), wrapError OpCloseQuic raw))"

definition stream_Read :: "nat \<times> lerr option \<Rightarrow> nat \<times> lerr option" where
  "stream_Read raw =
     (case raw of (n, err) \<Rightarrow>
        if err = None \<or> err = Some (LSentinel (LibS IoEOF)) then (n, err) else (n, wrapError OpReadStream err))"

definition stream_Write :: "nat \<times> lerr option \<Rightarrow> nat \<times> lerr option" where
  "stream_Write raw = (case raw of (n, err) \<Rightarrow> (n, wrapError OpWriteStream err))"

definition quic_CloseWrite :: "lerr option \<Rightarrow> lerr option" where
  "quic_CloseWrite raw = wrapError OpCloseStream raw"

section \<open>Correctness\<close>

lemma lchain_self: "e \<in> set (lchain e)"
  by (cases e) auto

lemma l_is_iff: "l_is e t \<longleftrightarrow> (\<exists>n \<in> set (lchain e). lnode_is n t)"
  by (auto simp: l_is_def list_ex_iff)

lemma has_lib_iff: "has_lib e t \<longleftrightarrow> (\<exists>n \<in> set (lchain e). is_lib t n)"
  by (auto simp: has_lib_def l_as_def find_None_iff)

lemma quic_Is_kind: "quic_Is k (QuicS s) \<longleftrightarrow> kind_sentinel k = Some s"
  by (cases k; cases s) (simp_all add: quic_Is_def kind_sentinel_def)

lemma quic_Is_other: "quic_Is k t \<Longrightarrow> \<exists>s. t = QuicS s"
  by (auto simp: quic_Is_def split: lsentinel.splits)


text \<open>
  A configuration that \<^verbatim>\<open>Build\<close> accepts pins TLS 1.3 or newer and the one requested ALPN protocol, never
  enables 0-RTT, and has positive timeouts and receive windows that are bounded by their maxima.
\<close>

lemma quic_policy:
  assumes "Build c = Inr (t, q)"
  shows "VersionTLS13 \<le> MinVersion t \<and> (MaxVersion t = 0 \<or> VersionTLS13 \<le> MaxVersion t) \<and> NextProtos t = [ALPN c]
     \<and> ALPN c \<noteq> [] \<and> \<not> Allow0RTT q \<and> 0 < HandshakeIdleTimeout q \<and> 0 < MaxIdleTimeout q
     \<and> InitialStreamReceiveWindow q \<le> MaxStreamReceiveWindow q
     \<and> InitialConnectionReceiveWindow q \<le> MaxConnectionReceiveWindow q
     \<and> MaxStreamReceiveWindow q \<le> MaxConnectionReceiveWindow q"
  using assms by (auto simp: Build_def Let_def Second_def split: if_splits)

end
