(* ===== verification/HTTP_Client.thy ===== *)
theory HTTP_Client
  imports Quic "HOL-Library.Sublist"
begin

text \<open>
  The HTTP client facade (\<^verbatim>\<open>client/facade.go\<close>, \<^verbatim>\<open>client/facade_fallback.go\<close>, \<^verbatim>\<open>client/http.go\<close>, \<^verbatim>\<open>client/http3.go\<close>): the
  validation of its configurations, the classification of failures, and the ordered attempts of
  \<^verbatim>\<open>roundTrip\<close>. The protocol transports are a parameter that says, for every attempt, what \<^verbatim>\<open>RoundTrip\<close> returned and
  whether the request's context was done then.
\<close>

section \<open>Configuration\<close>

text \<open>An \<^verbatim>\<open>HTTPProtocol\<close> of a caller is any byte.\<close>

definition protocol_of :: "nat \<Rightarrow> HTTPProtocol option" where
  "protocol_of n = (if n = 1 then Some HTTP1 else if n = 2 then Some HTTP2 else if n = 3 then Some HTTP3 else None)"

record http_config =
  Protocols :: "nat list"
  ConnectTimeout :: int
  TLSHandshakeTimeout :: int
  ResponseHeaderTimeout :: int
  ExpectContinueTimeout :: int
  IdleConnTimeout :: int
  KeepAlive :: int
  MaxIdleConns :: int
  MaxIdleConnsPerHost :: int
  MaxConnsPerHost :: int
  MaxResponseHeaderBytes :: int
  DisableCompression :: bool
  httpTLSConfig :: "tls_config option"
  Proxy :: bool

definition validateNonNegativeDurations :: "http_config \<Rightarrow> client_sentinel option" where
  "validateNonNegativeDurations cfg =
     (if list_ex (\<lambda>d. d < 0) [ConnectTimeout cfg, TLSHandshakeTimeout cfg, ResponseHeaderTimeout cfg,
         ExpectContinueTimeout cfg, IdleConnTimeout cfg, KeepAlive cfg]
      then Some ErrInvalidHTTPConfig else None)"

fun normalize_protocols :: "nat list \<Rightarrow> nat list \<Rightarrow> lerr + nat list" where
  "normalize_protocols [] out = Inr out"
| "normalize_protocols (p # ps) out =
     (if p \<noteq> 1 \<and> p \<noteq> 2 then Inl (LErrorf ''%w: %d'' (LSentinel (ClientS ErrInvalidHTTPProtocol)))
      else if p \<in> set out then normalize_protocols ps out
      else normalize_protocols ps (out @ [p]))"

definition normalizeProtocols :: "nat list \<Rightarrow> lerr + nat list" where
  "normalizeProtocols ps = (if ps = [] then Inr [1, 2] else normalize_protocols ps [])"

definition or_default :: "int \<Rightarrow> int \<Rightarrow> int" where
  "or_default v d = (if v = 0 then d else v)"

definition normalizeHTTPConfig :: "http_config \<Rightarrow> lerr + http_config" where
  "normalizeHTTPConfig cfg =
     (case validateNonNegativeDurations cfg of
        Some err \<Rightarrow> Inl (LSentinel (ClientS err))
      | None \<Rightarrow>
          if MaxIdleConns cfg < 0 \<or> MaxIdleConnsPerHost cfg < 0 \<or> MaxConnsPerHost cfg < 0 \<or> MaxResponseHeaderBytes cfg < 0
          then Inl (LSentinel (ClientS ErrInvalidHTTPConfig))
          else case normalizeProtocols (Protocols cfg) of
            Inl err \<Rightarrow> Inl err
          | Inr ps \<Rightarrow> Inr
              \<lparr>Protocols = ps, ConnectTimeout = or_default (ConnectTimeout cfg) (10 * Second),
               TLSHandshakeTimeout = or_default (TLSHandshakeTimeout cfg) (10 * Second),
               ResponseHeaderTimeout = or_default (ResponseHeaderTimeout cfg) (30 * Second),
               ExpectContinueTimeout = or_default (ExpectContinueTimeout cfg) Second,
               IdleConnTimeout = or_default (IdleConnTimeout cfg) (90 * Second),
               KeepAlive = or_default (KeepAlive cfg) (30 * Second),
               MaxIdleConns = or_default (MaxIdleConns cfg) 100,
               MaxIdleConnsPerHost = or_default (MaxIdleConnsPerHost cfg) 16,
               MaxConnsPerHost = or_default (MaxConnsPerHost cfg) 64,
               MaxResponseHeaderBytes = or_default (MaxResponseHeaderBytes cfg) 1048576,
               DisableCompression = DisableCompression cfg, httpTLSConfig = httpTLSConfig cfg, Proxy = Proxy cfg\<rparr>)"

definition normalizeTLSConfig :: "tls_config option \<Rightarrow> client_sentinel + tls_config" where
  "normalizeTLSConfig cfg =
     (let out = (case cfg of None \<Rightarrow> \<lparr>MinVersion = 0, MaxVersion = 0, NextProtos = []\<rparr> | Some t \<Rightarrow> t);
          min = (if MinVersion out = 0 then VersionTLS13 else MinVersion out) in
      if min < VersionTLS13 then Inl ErrHTTPSTLSVersion else Inr (out\<lparr>MinVersion := min, NextProtos := []\<rparr>))"

record http3_config =
  h3TLSConfig :: "tls_config option"
  h3HandshakeTimeout :: int
  h3IdleTimeout :: int
  h3MaxResponseHeaderBytes :: int
  h3DisableCompression :: bool
  h3EnableDatagrams :: bool

record normalized_http3 =
  ntlsConfig :: tls_config
  nquicConfig :: quic_config
  nmaxResponseHeaderBytes :: int
  ndisableCompression :: bool
  nenableDatagrams :: bool

text \<open>
  \<^verbatim>\<open>int\<close> is 64 bits wide, so the bound on the header size is never exceeded by an \<^verbatim>\<open>int64\<close>.
\<close>

definition normalizeHTTP3Config :: "http3_config \<Rightarrow> lerr + normalized_http3" where
  "normalizeHTTP3Config cfg =
     (if h3HandshakeTimeout cfg < 0 \<or> h3IdleTimeout cfg < 0 \<or> h3MaxResponseHeaderBytes cfg < 0
      then Inl (LSentinel (ClientS ErrInvalidHTTP3Config))
      else case Build \<lparr>TLSConfig = h3TLSConfig cfg, ALPN = ''h3'', HandshakeTimeout = h3HandshakeTimeout cfg,
          IdleTimeout = h3IdleTimeout cfg, EnableDatagrams = h3EnableDatagrams cfg, MaxIncomingStreams = - 1,
          MaxIncomingUniStreams = 16\<rparr> of
        Inl err \<Rightarrow>
          if err = QErrTLSVersion then Inl (LErrorf ''%w: %v'' (LSentinel (ClientS ErrHTTP3TLSVersion)))
          else if err = QErrInvalidTimeout then Inl (LErrorf ''%w: %v'' (LSentinel (ClientS ErrInvalidHTTP3Config)))
          else Inl (LSentinel (QuicS err))
      | Inr (t, q) \<Rightarrow> Inr
          \<lparr>ntlsConfig = t, nquicConfig = q, nmaxResponseHeaderBytes = or_default (h3MaxResponseHeaderBytes cfg) 1048576,
           ndisableCompression = h3DisableCompression cfg, nenableDatagrams = h3EnableDatagrams cfg\<rparr>)"

datatype HTTPFallbackPolicy = HTTPFallbackDisabled | HTTPFallbackSafeReplay | HTTPFallbackInvalid

text \<open>The loop over the protocols; \<open>seen\<close> and \<open>h3\<close> are its local variables.\<close>

fun validate_protocols :: "nat list \<Rightarrow> HTTPProtocol list \<Rightarrow> lerr + HTTPProtocol list" where
  "validate_protocols [] seen = Inr seen"
| "validate_protocols (n # ns) seen =
     (case protocol_of n of
        None \<Rightarrow> Inl (LErrorf ''%w: protocol %d'' (LSentinel (ClientS ErrInvalidHTTPClientConfig)))
      | Some p \<Rightarrow>
          if p \<in> set seen then Inl (LErrorf ''%w: duplicate protocol %s'' (LSentinel (ClientS ErrInvalidHTTPClientConfig)))
          else validate_protocols ns (seen @ [p]))"

record http_client_config =
  clientProtocols :: "nat list"
  clientHTTP :: http_config
  clientHTTP3 :: http3_config
  clientFallback :: HTTPFallbackPolicy

definition validateHTTPClientConfig :: "http_client_config \<Rightarrow> lerr + HTTPProtocol list" where
  "validateHTTPClientConfig cfg =
     (if clientProtocols cfg = [] \<or> Protocols (clientHTTP cfg) \<noteq> [] then Inl (LSentinel (ClientS ErrInvalidHTTPClientConfig))
      else if clientFallback cfg = HTTPFallbackInvalid then Inl (LSentinel (ClientS ErrInvalidHTTPClientConfig))
      else case validate_protocols (clientProtocols cfg) [] of
        Inl err \<Rightarrow> Inl err
      | Inr ps \<Rightarrow>
          if HTTP3 \<in> set ps \<and> Proxy (clientHTTP cfg)
          then Inl (LErrorf ''%w: HTTP/3 cannot be combined with HTTP proxy configuration''
                 (LSentinel (ClientS ErrInvalidHTTPClientConfig)))
          else Inr ps)"

section \<open>Failures\<close>

definition mapHTTP3Error :: "lerr option \<Rightarrow> lerr option" where
  "mapHTTP3Error err =
     (case err of
        None \<Rightarrow> None
      | Some e \<Rightarrow>
          if l_is e (LibS CtxCanceled) \<or> l_is e (LibS CtxDeadlineExceeded) then Some e
          else if l_is e (LibS H3ErrTransportClosed) \<or> l_is e (LibS QuicErrTransportClosed)
             \<or> l_is e (ClientS ErrHTTP3TransportClosed)
          then Some (HTTP3Error HTTP3ErrorClosed (LJoin [LSentinel (ClientS ErrHTTP3TransportClosed), e]))
          else if has_lib e HTTP3LibError then Some (HTTP3Error HTTP3ErrorProtocol e)
          else if has_lib e TransportError \<or> has_lib e ApplicationError \<or> has_lib e StatelessResetError
             \<or> has_lib e VersionNegotiationError \<or> has_lib e IdleTimeoutError \<or> has_lib e HandshakeTimeoutError
          then Some (HTTP3Error HTTP3ErrorTransport e)
          else Some e)"

definition http3_RoundTrip :: "bool \<Rightarrow> lerr + 'r \<Rightarrow> lerr option \<Rightarrow> lerr option + 'r" where
  "http3_RoundTrip closed raw cause =
     (if closed then Inl (Some (HTTP3Error HTTP3ErrorClosed (LSentinel (ClientS ErrHTTP3TransportClosed))))
      else case raw of
        Inr r \<Rightarrow> Inr r
      | Inl e \<Rightarrow> Inl (case cause of Some c \<Rightarrow> Some c | None \<Rightarrow> mapHTTP3Error (Some e)))"

datatype fallbackClass = fallbackNever | fallbackPreRequest | fallbackAmbiguousAfterSend

fun alert_of :: "lerr \<Rightarrow> nat option" where
  "alert_of (Lib (AlertError n) _ _ _) = Some n"
| "alert_of _ = None"

fun h3_kind :: "lerr \<Rightarrow> HTTP3ErrorKind option" where
  "h3_kind (HTTP3Error k _) = Some k"
| "h3_kind _ = None"

fun op_of :: "lerr \<Rightarrow> string option" where
  "op_of (Lib (LibOpError op) _ _ _) = Some op"
| "op_of _ = None"

definition first_of :: "(lerr \<Rightarrow> 'v option) \<Rightarrow> lerr \<Rightarrow> 'v option" where
  "first_of f e = (case l_as (\<lambda>n. f n \<noteq> None) e of None \<Rightarrow> None | Some n \<Rightarrow> f n)"

definition classify_h3 :: "lerr \<Rightarrow> HTTP3ErrorKind \<Rightarrow> fallbackClass" where
  "classify_h3 e k =
     (if k = HTTP3ErrorProtocol \<or> k = HTTP3ErrorClosed then fallbackNever
      else if has_lib e ApplicationError then fallbackNever
      else if has_lib e VersionNegotiationError \<or> has_lib e HandshakeTimeoutError then fallbackPreRequest
      else if has_lib e TransportError then fallbackNever
      else if has_lib e StatelessResetError \<or> has_lib e IdleTimeoutError \<or> has_lib e StreamError
      then fallbackAmbiguousAfterSend
      else fallbackNever)"

definition classify_tail :: "lerr \<Rightarrow> fallbackClass" where
  "classify_tail e =
     (if l_is e (LibS IoEOF) \<or> l_is e (LibS IoErrUnexpectedEOF) \<or> l_is e (LibS LibNetErrClosed)
      then fallbackAmbiguousAfterSend else fallbackNever)"

definition classifyFallback :: "lerr option \<Rightarrow> fallbackClass" where
  "classifyFallback err =
     (case err of
        None \<Rightarrow> fallbackNever
      | Some e \<Rightarrow>
          if l_is e (LibS CtxCanceled) \<or> l_is e (LibS CtxDeadlineExceeded) then fallbackNever
          else if l_is e (ClientS ErrHTTPClientTransportClosed) \<or> l_is e (ClientS ErrHTTP3TransportClosed) then fallbackNever
          else if l_is e (ClientS ErrHTTPProtocolUnavailable) then fallbackPreRequest
          else if has_lib e LibUnknownAuthorityError \<or> has_lib e LibHostnameError \<or> has_lib e LibCertificateInvalidError
          then fallbackNever
          else case first_of alert_of e of
            Some n \<Rightarrow> if n = 120 then fallbackPreRequest else fallbackNever
          | None \<Rightarrow>
              (case first_of h3_kind e of
                 Some k \<Rightarrow> classify_h3 e k
               | None \<Rightarrow>
                   if has_lib e LibDNSError then fallbackPreRequest
                   else case first_of op_of e of
                     Some op \<Rightarrow>
                       if op = ''dial'' then fallbackPreRequest
                       else if op = ''read'' \<or> op = ''write'' then fallbackAmbiguousAfterSend
                       else classify_tail e
                   | None \<Rightarrow> classify_tail e))"

section \<open>Attempts\<close>

datatype body = NoBody | Body nat

record request =
  rscheme :: "string option"
  rmethod :: string
  rbody :: "body option"
  rgetBody :: "(nat \<Rightarrow> lerr + body) option"

definition to_lower :: "string \<Rightarrow> string" where
  "to_lower s = map (\<lambda>c. if 65 \<le> (of_char c :: nat) \<and> (of_char c :: nat) \<le> 90 then char_of ((of_char c :: nat) + 32) else c) s"

definition protocolApplies :: "HTTPProtocol \<Rightarrow> request \<Rightarrow> bool" where
  "protocolApplies p req =
     (case rscheme req of
        None \<Rightarrow> False
      | Some s \<Rightarrow>
          (case p of
             HTTP1 \<Rightarrow> to_lower s = ''http'' \<or> to_lower s = ''https''
           | HTTP2 \<Rightarrow> to_lower s = ''https''
           | HTTP3 \<Rightarrow> to_lower s = ''https''))"

definition isSafeReplayMethod :: "string \<Rightarrow> bool" where
  "isSafeReplayMethod m = ((if m = [] then ''GET'' else m) \<in> {''GET'', ''HEAD'', ''OPTIONS'', ''TRACE''})"

definition requestCanReplay :: "request \<Rightarrow> bool" where
  "requestCanReplay req =
     (if \<not> isSafeReplayMethod (rmethod req) then False
      else if rbody req = None \<or> rbody req = Some NoBody then True
      else rgetBody req \<noteq> None)"

definition cloneAttemptRequest :: "request \<Rightarrow> nat \<Rightarrow> lerr + body option" where
  "cloneAttemptRequest req index =
     (if index = 0 \<or> rbody req = None \<or> rbody req = Some NoBody then Inr (rbody req)
      else case rgetBody req of
        None \<Rightarrow> Inl (LErrorString ''request body is not replayable'')
      | Some get \<Rightarrow> map_sum id Some (get index))"

record 'r attempt =
  aresp :: "'r option"
  aerr :: "lerr option"
  acause :: "lerr option"

record http_transport =
  attempts :: "HTTPProtocol list"
  fallback :: HTTPFallbackPolicy
  tclosed :: bool

definition newHTTPFallbackError :: "(HTTPProtocol \<times> lerr) list \<Rightarrow> lerr" where
  "newHTTPFallbackError fs = HTTPFallbackError fs"

definition attempt_error :: "lerr option \<Rightarrow> lerr" where
  "attempt_error err =
     (case err of Some e \<Rightarrow> e | None \<Rightarrow> LErrorString ''client: protocol transport returned nil response and nil error'')"

text \<open>
  The loop: the attempts it made, as protocol and body, and its results. \<open>send i p b\<close> is the \<open>i\<close>-th attempt.
\<close>

fun round_trips ::
  "http_transport \<Rightarrow> request \<Rightarrow> (nat \<Rightarrow> HTTPProtocol \<Rightarrow> body option \<Rightarrow> 'r attempt) \<Rightarrow> HTTPProtocol list \<Rightarrow> nat \<Rightarrow>
     (HTTPProtocol \<times> lerr) list \<Rightarrow> (HTTPProtocol \<times> body option) list \<times> 'r option \<times> lerr option"
where
  "round_trips t req send [] i fs = ([], None, Some (newHTTPFallbackError fs))"
| "round_trips t req send (p # ps) i fs =
     (case cloneAttemptRequest req i of
        Inl e \<Rightarrow>
          let prepErr = LErrorf ''client: prepare %s attempt: '' e in
          ([], None, Some (if fs = [] then prepErr else newHTTPFallbackError (fs @ [(p, prepErr)])))
      | Inr b \<Rightarrow>
          let a = send i p b; err = attempt_error (aerr a); fs' = fs @ [(p, err)] in
          if aresp a \<noteq> None then ([(p, b)], aresp a, aerr a)
          else if acause a \<noteq> None then ([(p, b)], None, acause a)
          else if ps = [] \<or> fallback t \<noteq> HTTPFallbackSafeReplay \<or> \<not> requestCanReplay req \<or> classifyFallback (Some err) = fallbackNever
          then ([(p, b)], None, Some (if length fs' = 1 then err else newHTTPFallbackError fs'))
          else apfst (Cons (p, b)) (round_trips t req send ps (i + 1) fs'))"

definition roundTrip ::
  "http_transport \<Rightarrow> request option \<Rightarrow> (nat \<Rightarrow> HTTPProtocol \<Rightarrow> body option \<Rightarrow> 'r attempt) \<Rightarrow>
     (HTTPProtocol \<times> body option) list \<times> 'r option \<times> lerr option"
where
  "roundTrip t req send =
     (if tclosed t then ([], None, Some (LSentinel (ClientS ErrHTTPClientTransportClosed)))
      else case req of
        None \<Rightarrow> ([], None, Some (LErrorf ''%w: nil request'' (LSentinel (ClientS ErrInvalidHTTPClientConfig))))
      | Some req \<Rightarrow>
          let applicable = filter (\<lambda>p. protocolApplies p req) (attempts t) in
          if applicable = [] then ([], None, Some (LSentinel (ClientS ErrNoApplicableHTTPProtocol)))
          else round_trips t req send applicable 0 [])"

section \<open>Lifetime\<close>

text \<open>
  A transport is the configuration it was given: \<open>NetHTTP\<close> that of \<^verbatim>\<open>net/http\<close>, with its TLS settings, the protocols
  it may speak, and the check of the negotiated protocol that \<^verbatim>\<open>prepareFacadeHTTP2Transport\<close> adds to a caller's
  \<^verbatim>\<open>VerifyConnection\<close> \<open>prev\<close>.
\<close>

record http_protocols =
  setHTTP1 :: bool
  setHTTP2 :: bool

type_synonym verify = "string \<Rightarrow> lerr option"

datatype slot_transport = NetHTTP http_config tls_config http_protocols "verify option" | QuicHTTP normalized_http3

fun applyHTTPProtocols :: "nat list \<Rightarrow> http_protocols \<Rightarrow> lerr + http_protocols" where
  "applyHTTPProtocols [] s = Inr s"
| "applyHTTPProtocols (p # ps) s =
     (if p = 1 then applyHTTPProtocols ps (s\<lparr>setHTTP1 := True\<rparr>)
      else if p = 2 then applyHTTPProtocols ps (s\<lparr>setHTTP2 := True\<rparr>)
      else Inl (LSentinel (ClientS ErrInvalidHTTPProtocol)))"

definition NewHTTPTransport :: "verify option \<Rightarrow> http_config \<Rightarrow> lerr + slot_transport" where
  "NewHTTPTransport prev cfg =
     (case normalizeHTTPConfig cfg of
        Inl err \<Rightarrow> Inl err
      | Inr n \<Rightarrow>
          (case normalizeTLSConfig (httpTLSConfig n) of
             Inl err \<Rightarrow> Inl (LSentinel (ClientS err))
           | Inr t \<Rightarrow> map_sum id (\<lambda>s. NetHTTP n t s prev) (applyHTTPProtocols (Protocols n) \<lparr>setHTTP1 = False, setHTTP2 = False\<rparr>)))"

definition verify_h2 :: "verify option \<Rightarrow> verify" where
  "verify_h2 prev negotiated =
     (case (case prev of None \<Rightarrow> None | Some v \<Rightarrow> v negotiated) of
        Some err \<Rightarrow> Some err
      | None \<Rightarrow>
          if negotiated \<noteq> ''h2''
          then Some (LErrorf ''%w: wanted h2, negotiated %q'' (LSentinel (ClientS ErrHTTPProtocolUnavailable))) else None)"

fun prepareFacadeHTTP2Transport :: "slot_transport \<Rightarrow> slot_transport" where
  "prepareFacadeHTTP2Transport (NetHTTP n t s prev) = NetHTTP n (t\<lparr>NextProtos := [''h2'', ''http/1.1'']\<rparr>) s (Some (verify_h2 prev))"
| "prepareFacadeHTTP2Transport (QuicHTTP n) = QuicHTTP n"

definition buildProtocolTransport :: "verify option \<Rightarrow> HTTPProtocol \<Rightarrow> http_client_config \<Rightarrow> lerr + slot_transport" where
  "buildProtocolTransport prev p cfg =
     (case p of
        HTTP1 \<Rightarrow> NewHTTPTransport prev ((clientHTTP cfg)\<lparr>Protocols := [1]\<rparr>)
      | HTTP2 \<Rightarrow> map_sum id prepareFacadeHTTP2Transport (NewHTTPTransport prev ((clientHTTP cfg)\<lparr>Protocols := [2]\<rparr>))
      | HTTP3 \<Rightarrow> map_sum id QuicHTTP (normalizeHTTP3Config (clientHTTP3 cfg)))"

text \<open>
  Every transport closes its idle connections; only that of HTTP/3 is an \<^verbatim>\<open>io.Closer\<close>, whose result is \<open>close\<close>.
\<close>

datatype close_call = CloseIdle HTTPProtocol | CloseSlot HTTPProtocol

definition closeProtocolTransports :: "lerr option \<Rightarrow> HTTPProtocol list \<Rightarrow> close_call list \<times> lerr option" where
  "closeProtocolTransports close ps =
     (let errs = concat (map (\<lambda>p. if p = HTTP3 then (case close of None \<Rightarrow> [] | Some e \<Rightarrow> [LErrorf ''%s: %w'' e]) else []) ps) in
      (concat (map (\<lambda>p. CloseIdle p # (if p = HTTP3 then [CloseSlot p] else [])) ps),
       if errs = [] then None else Some (LJoin errs)))"

fun build_transports ::
  "verify option \<Rightarrow> lerr option \<Rightarrow> http_client_config \<Rightarrow> HTTPProtocol list \<Rightarrow> (HTTPProtocol \<times> slot_transport) list
     \<Rightarrow> close_call list \<times> (lerr + (HTTPProtocol \<times> slot_transport) list)"
where
  "build_transports prev close cfg [] built = ([], Inr built)"
| "build_transports prev close cfg (p # ps) built =
     (case buildProtocolTransport prev p cfg of
        Inl err \<Rightarrow> (fst (closeProtocolTransports close (map fst built)), Inl err)
      | Inr rt \<Rightarrow> build_transports prev close cfg ps (built @ [(p, rt)]))"

definition NewHTTPRoundTripper ::
  "verify option \<Rightarrow> lerr option \<Rightarrow> http_client_config \<Rightarrow> close_call list \<times> (lerr + http_transport \<times> slot_transport list)"
where
  "NewHTTPRoundTripper prev close cfg =
     (case validateHTTPClientConfig cfg of
        Inl err \<Rightarrow> ([], Inl err)
      | Inr ps \<Rightarrow>
          apsnd (map_sum id (\<lambda>as. (\<lparr>attempts = map fst as, fallback = clientFallback cfg, tclosed = False\<rparr>, map snd as)))
            (build_transports prev close cfg ps []))"

text \<open>\<^verbatim>\<open>HTTPClientTransport.Close\<close>; the second component of the state is the error that the first call stored.\<close>

definition http_Close ::
  "lerr option \<Rightarrow> http_transport \<times> lerr option \<Rightarrow> close_call list \<times> lerr option \<times> http_transport \<times> lerr option"
where
  "http_Close close t =
     (if tclosed (fst t) then ([], snd t, t)
      else case closeProtocolTransports close (attempts (fst t)) of
        (tr, err) \<Rightarrow> (tr, err, (fst t)\<lparr>tclosed := True\<rparr>, err))"

subsection \<open>The dialer of HTTP/3\<close>

text \<open>
  The dialer opens its UDP socket with the first connection and keeps it for the later ones; \<open>sockets\<close> counts the sockets
  that are opened and not closed. Resolution, the socket and the connection are results of the libraries.
\<close>

record http3_dialer =
  dclosed :: bool
  dopen :: bool
  sockets :: nat

definition newHTTP3Dialer :: http3_dialer where
  "newHTTP3Dialer = \<lparr>dclosed = False, dopen = False, sockets = 0\<rparr>"

definition dialer_section :: "lerr option \<Rightarrow> http3_dialer \<Rightarrow> lerr option \<times> http3_dialer" where
  "dialer_section rlisten d =
     (if dclosed d then (Some (LSentinel (ClientS ErrHTTP3TransportClosed)), d)
      else if dopen d then (None, d)
      else case rlisten of
        Some err \<Rightarrow> (Some err, d)
      | None \<Rightarrow> (None, d\<lparr>dopen := True, sockets := sockets d + 1\<rparr>))"

definition http3_Dial ::
  "lerr option \<Rightarrow> lerr option \<Rightarrow> lerr + nat \<Rightarrow> lerr option \<Rightarrow> lerr + 'c \<Rightarrow> http3_dialer \<Rightarrow> (lerr + 'c) \<times> http3_dialer"
where
  "http3_Dial rsplit rport rips rlisten rdial d =
     (case (rsplit, rport, rips) of
        (Some err, _, _) \<Rightarrow> (Inl err, d)
      | (None, Some err, _) \<Rightarrow> (Inl err, d)
      | (None, None, Inl err) \<Rightarrow> (Inl err, d)
      | (None, None, Inr n) \<Rightarrow>
          if n = 0 then (Inl (LErrorString ''client: HTTP/3 resolver returned no addresses''), d)
          else case dialer_section rlisten d of
            (Some err, d') \<Rightarrow> (Inl err, d')
          | (None, d') \<Rightarrow> (rdial, d'))"

definition dialer_Close :: "lerr option \<Rightarrow> lerr option \<Rightarrow> http3_dialer \<Rightarrow> lerr option \<times> http3_dialer" where
  "dialer_Close rtransport rudp d =
     (if dclosed d then (None, d)
      else if \<not> dopen d then (None, d\<lparr>dclosed := True\<rparr>)
      else (case rtransport of Some e \<Rightarrow> Some e | None \<Rightarrow> rudp, \<lparr>dclosed = True, dopen = False, sockets = sockets d - 1\<rparr>))"

record http3_transport =
  h3closed :: bool
  h3closeErr :: "lerr option"
  h3dialer :: http3_dialer

definition http3_Close :: "lerr option \<Rightarrow> lerr option \<Rightarrow> lerr option \<Rightarrow> http3_transport \<Rightarrow> lerr option \<times> http3_transport" where
  "http3_Close rraw rtransport rudp t =
     (if h3closed t then (h3closeErr t, t)
      else case dialer_Close rtransport rudp (h3dialer t) of
        (err, d) \<Rightarrow>
          let e = (case rraw of Some e \<Rightarrow> Some e | None \<Rightarrow> err) in
          (e, \<lparr>h3closed = True, h3closeErr = e, h3dialer = d\<rparr>))"

definition dialer_wf :: "http3_dialer \<Rightarrow> bool" where
  "dialer_wf d \<longleftrightarrow> sockets d = of_bool (dopen d) \<and> (dclosed d \<longrightarrow> \<not> dopen d)"

text \<open>The dialer holds at most one socket and none once it is closed; a closed one never dials.\<close>

lemma dialer_invariant:
  shows "dialer_wf newHTTP3Dialer"
    and "dialer_wf d \<Longrightarrow> dialer_wf (snd (http3_Dial rsplit rport rips rlisten rdial d))"
    and "dialer_wf d \<Longrightarrow> dialer_wf (snd (dialer_Close rtransport rudp d)) \<and> sockets (snd (dialer_Close rtransport rudp d)) = 0"
    and "dclosed d \<Longrightarrow> \<exists>e. fst (http3_Dial rsplit rport rips rlisten rdial d) = Inl e"
  by (auto simp: dialer_wf_def newHTTP3Dialer_def http3_Dial_def dialer_section_def dialer_Close_def
      split: option.split sum.split)

lemma http3_Close_once:
  assumes "http3_Close a b c t = (e, t')"
  shows "http3_Close a' b' c' t' = (e, t')"
  using assms by (auto simp: http3_Close_def Let_def split: if_splits prod.splits)

section \<open>Correctness\<close>

text \<open>
  A client is built with one transport for every configured protocol, in order. Each has TLS 1.3 as its minimum and speaks
  its own protocol only: that of HTTP/2 fails the handshake of a peer that negotiates another one. When a protocol
  cannot be built, the HTTP/3 transport that is already built is closed.
\<close>

definition slot_ok :: "HTTPProtocol \<Rightarrow> slot_transport \<Rightarrow> bool" where
  "slot_ok p rt =
     (case rt of
        NetHTTP n t s v \<Rightarrow> VersionTLS13 \<le> MinVersion t \<and> p \<noteq> HTTP3 \<and> setHTTP1 s = (p = HTTP1) \<and> setHTTP2 s = (p = HTTP2)
          \<and> (p = HTTP2 \<longrightarrow> (\<exists>f. v = Some f \<and> (\<forall>x. x \<noteq> ''h2'' \<longrightarrow> f x \<noteq> None)))
      | QuicHTTP n \<Rightarrow> p = HTTP3 \<and> VersionTLS13 \<le> MinVersion (ntlsConfig n) \<and> NextProtos (ntlsConfig n) = [''h3''])"

lemma normalizeTLS_min: "normalizeTLSConfig c = Inr t \<Longrightarrow> VersionTLS13 \<le> MinVersion t"
  by (auto simp: normalizeTLSConfig_def Let_def split: if_splits)

lemma normalize_keeps_protocols:
  "normalizeHTTPConfig cfg = Inr n \<Longrightarrow> normalizeProtocols (Protocols cfg) = Inr (Protocols n)"
  by (auto simp: normalizeHTTPConfig_def split: option.splits sum.splits if_splits)

lemma new_http_transport:
  assumes "NewHTTPTransport prev cfg = Inr rt"
  obtains n t ps s where "rt = NetHTTP n t s prev" "VersionTLS13 \<le> MinVersion t" "normalizeProtocols (Protocols cfg) = Inr ps"
    "applyHTTPProtocols ps \<lparr>setHTTP1 = False, setHTTP2 = False\<rparr> = Inr s"
  using assms normalizeTLS_min normalize_keeps_protocols
  by (auto simp: NewHTTPTransport_def map_sum_def split: sum.splits)

lemma verify_h2_strict: "x \<noteq> ''h2'' \<Longrightarrow> verify_h2 prev x \<noteq> None"
  by (simp add: verify_h2_def split: option.split)

lemma normalizeHTTP3_policy:
  "normalizeHTTP3Config cfg = Inr n \<Longrightarrow> VersionTLS13 \<le> MinVersion (ntlsConfig n) \<and> NextProtos (ntlsConfig n) = [''h3'']"
  by (auto simp: normalizeHTTP3Config_def split: if_splits sum.splits dest!: quic_policy)

lemma build_slot: "buildProtocolTransport prev p cfg = Inr rt \<Longrightarrow> slot_ok p rt"
proof (cases p)
  case HTTP1
  assume "buildProtocolTransport prev p cfg = Inr rt"
  then show ?thesis using HTTP1
    by (auto simp: buildProtocolTransport_def slot_ok_def normalizeProtocols_def elim!: new_http_transport)
next
  case HTTP2
  assume "buildProtocolTransport prev p cfg = Inr rt"
  then obtain r where r: "NewHTTPTransport prev ((clientHTTP cfg)\<lparr>Protocols := [2]\<rparr>) = Inr r" "rt = prepareFacadeHTTP2Transport r"
    using HTTP2 by (auto simp: buildProtocolTransport_def map_sum_def split: sum.splits)
  from r(1) show ?thesis using HTTP2 r(2) verify_h2_strict
    by (auto simp: slot_ok_def normalizeProtocols_def elim!: new_http_transport)
next
  case HTTP3
  assume "buildProtocolTransport prev p cfg = Inr rt"
  then show ?thesis using HTTP3 normalizeHTTP3_policy
    by (auto simp: buildProtocolTransport_def slot_ok_def map_sum_def split: sum.splits)
qed

lemma build_transports_ok:
  "build_transports prev close cfg ps built = (tr, Inr as) \<Longrightarrow> list_all (\<lambda>(p, rt). slot_ok p rt) built \<Longrightarrow>
     tr = [] \<and> map fst as = map fst built @ ps \<and> list_all (\<lambda>(p, rt). slot_ok p rt) as"
  by (induction prev close cfg ps built rule: build_transports.induct) (auto split: sum.splits dest: build_slot)

lemma build_transports_failed:
  "build_transports prev close cfg ps built = (tr, Inl err) \<Longrightarrow>
     \<exists>ok p rest. ps = ok @ p # rest \<and> buildProtocolTransport prev p cfg = Inl err
       \<and> tr = fst (closeProtocolTransports close (map fst built @ ok))"
proof (induction prev close cfg ps built rule: build_transports.induct)
  case (2 prev close cfg p ps built)
  show ?case
  proof (cases "buildProtocolTransport prev p cfg")
    case (Inl e)
    then show ?thesis using 2(2) by (intro exI [of _ "[]"]) simp
  next
    case (Inr rt)
    from 2(1) [OF Inr] 2(2) Inr obtain ok q rest where
      "ps = ok @ q # rest" "buildProtocolTransport prev q cfg = Inl err"
      "tr = fst (closeProtocolTransports close (map fst built @ p # ok))" by auto
    then show ?thesis by (intro exI [of _ "p # ok"]) simp
  qed
qed simp

lemma http_Close_once:
  assumes "http_Close close t = (tr, e, t')"
  shows "tclosed (fst t') \<and> http_Close close' t' = ([], e, t')"
  using assms by (auto simp: http_Close_def split: if_splits prod.splits)

text \<open>What an attempt must have been for the facade to try another protocol.\<close>

definition may_advance :: "http_transport \<Rightarrow> request \<Rightarrow> 'r attempt \<Rightarrow> bool" where
  "may_advance t req a \<longleftrightarrow> fallback t = HTTPFallbackSafeReplay \<and> requestCanReplay req \<and> aresp a = None \<and> acause a = None
     \<and> classifyFallback (Some (attempt_error (aerr a))) \<noteq> fallbackNever"

text \<open>The loop prepares nothing, stops after an attempt, or goes on after one.\<close>

lemma round_trips_cases:
  assumes "round_trips t req send (p # ps) i fs = (tr, r, err)"
  obtains (none) e where "cloneAttemptRequest req i = Inl e" "tr = []" "r = None" "err \<noteq> None"
    | (stop) b where "cloneAttemptRequest req i = Inr b" "tr = [(p, b)]" "r = aresp (send i p b)" "r = None \<Longrightarrow> err \<noteq> None"
    | (go_on) b tr' where "cloneAttemptRequest req i = Inr b" "tr = (p, b) # tr'" "may_advance t req (send i p b)"
        "round_trips t req send ps (Suc i) (fs @ [(p, attempt_error (aerr (send i p b)))]) = (tr', r, err)"
proof (cases "cloneAttemptRequest req i")
  case (Inr b)
  show ?thesis
  proof (cases "may_advance t req (send i p b) \<and> ps \<noteq> []")
    case True
    then show ?thesis
      using assms Inr go_on [of b] by (auto simp: may_advance_def Let_def apfst_def map_prod_def split: prod.splits)
  next
    case False
    then show ?thesis using assms Inr stop [of b] by (auto simp: may_advance_def Let_def dest: sym split: if_splits)
  qed
qed (use assms none in \<open>auto simp: Let_def\<close>)

lemma round_trips_prefix: "round_trips t req send ps i fs = (tr, r, err) \<Longrightarrow> prefix (map fst tr) ps"
  by (induction ps arbitrary: i fs tr) (auto elim!: round_trips_cases simp del: round_trips.simps(2))

lemma round_trips_err: "round_trips t req send ps i fs = (tr, None, err) \<Longrightarrow> err \<noteq> None"
  by (induction ps arbitrary: i fs tr) (auto elim!: round_trips_cases simp del: round_trips.simps(2))

lemma round_trips_clone:
  "round_trips t req send ps i fs = (tr, r, err) \<Longrightarrow> j < length tr \<Longrightarrow> cloneAttemptRequest req (i + j) = Inr (snd (tr ! j))"
proof (induction ps arbitrary: i fs tr j)
  case (Cons p ps)
  from Cons.prems(1) show ?case
  proof (cases rule: round_trips_cases)
    case (go_on b tr')
    then show ?thesis using Cons.IH [OF go_on(4)] Cons.prems(2) by (cases j) simp_all
  qed (use Cons.prems(2) in simp_all)
qed simp

lemma round_trips_advance:
  "round_trips t req send ps i fs = (tr, r, err) \<Longrightarrow> Suc j < length tr \<Longrightarrow>
    may_advance t req (send (i + j) (fst (tr ! j)) (snd (tr ! j)))"
proof (induction ps arbitrary: i fs tr j)
  case (Cons p ps)
  from Cons.prems(1) show ?case
  proof (cases rule: round_trips_cases)
    case (go_on b tr')
    then show ?thesis using Cons.IH [OF go_on(4)] Cons.prems(2) by (cases j) simp_all
  qed (use Cons.prems(2) in simp_all)
qed simp

lemma round_trips_response:
  "round_trips t req send ps i fs = (tr, r, err) \<Longrightarrow> j < length tr \<Longrightarrow>
    aresp (send (i + j) (fst (tr ! j)) (snd (tr ! j))) \<noteq> None \<Longrightarrow>
    Suc j = length tr \<and> r = aresp (send (i + j) (fst (tr ! j)) (snd (tr ! j)))"
proof (induction ps arbitrary: i fs tr j)
  case (Cons p ps)
  from Cons.prems(1) show ?case
  proof (cases rule: round_trips_cases)
    case (go_on b tr')
    then have "aresp (send i p b) = None" by (simp add: may_advance_def)
    then show ?thesis
    proof (cases j)
      case (Suc k)
      have e: "send (i + j) (fst (tr ! j)) (snd (tr ! j)) = send (Suc i + k) (fst (tr' ! k)) (snd (tr' ! k))"
        using go_on(2) Suc by simp
      have "k < length tr'" using go_on(2) Cons.prems(2) Suc by simp
      from Cons.IH [OF go_on(4) this] Cons.prems(3) show ?thesis unfolding e by (simp add: go_on(2) Suc)
    qed (use Cons.prems(3) go_on(2) in simp)
  qed (use Cons.prems(2) in simp_all)
qed simp

lemma fresh_body:
  assumes "cloneAttemptRequest req j = Inr b" "0 < j" "rbody req \<noteq> None" "rbody req \<noteq> Some NoBody"
  shows "\<exists>get x. rgetBody req = Some get \<and> get j = Inr x \<and> b = Some x"
  using assms by (auto simp: cloneAttemptRequest_def map_sum_def split: option.splits sum.splits)

text \<open>
  C38. \<^verbatim>\<open>roundTrip\<close> tries the applicable protocols in the configured order and stops at the first response, which it
  returns. It goes on to another protocol only under the safe-replay policy, for a GET, HEAD, OPTIONS or TRACE
  whose body can be replayed, after a failure without a response, with the context alive and an error that
  is classified as eligible; every later attempt has a body fresh from \<^verbatim>\<open>GetBody\<close>. Without a response it
  returns an error.
\<close>

theorem http_fallback:
  assumes "roundTrip t (Some req) send = (tr, r, err)"
  shows "prefix (map fst tr) (filter (\<lambda>p. protocolApplies p req) (attempts t))
     \<and> (\<forall>j. Suc j < length tr \<longrightarrow> may_advance t req (send j (fst (tr ! j)) (snd (tr ! j))))
     \<and> (1 < length tr \<longrightarrow> isSafeReplayMethod (rmethod req))
     \<and> (\<forall>j < length tr. 0 < j \<and> rbody req \<noteq> None \<and> rbody req \<noteq> Some NoBody \<longrightarrow>
          (\<exists>get x. rgetBody req = Some get \<and> get j = Inr x \<and> snd (tr ! j) = Some x))
     \<and> (\<forall>j < length tr. aresp (send j (fst (tr ! j)) (snd (tr ! j))) \<noteq> None \<longrightarrow>
          Suc j = length tr \<and> r = aresp (send j (fst (tr ! j)) (snd (tr ! j))))
     \<and> (r = None \<longrightarrow> err \<noteq> None) \<and> (tclosed t \<longrightarrow> tr = [])"
proof (cases "tclosed t \<or> filter (\<lambda>p. protocolApplies p req) (attempts t) = []")
  case False
  then have "round_trips t req send (filter (\<lambda>p. protocolApplies p req) (attempts t)) 0 [] = (tr, r, err)"
    using assms by (simp add: roundTrip_def Let_def)
  note ok = round_trips_prefix [OF this] round_trips_err [of t req send _ 0 "[]" tr err] round_trips_clone [OF this, simplified]
    round_trips_advance [OF this, simplified] round_trips_response [OF this, simplified] and run = this
  have "isSafeReplayMethod (rmethod req)" if "1 < length tr"
    using ok(4) [of 0] that by (simp add: may_advance_def requestCanReplay_def split: if_splits)
  moreover have "\<exists>get x. rgetBody req = Some get \<and> get j = Inr x \<and> snd (tr ! j) = Some x"
    if "j < length tr" "0 < j" "rbody req \<noteq> None" "rbody req \<noteq> Some NoBody" for j
    using fresh_body [OF ok(3) [OF that(1)] that(2-4)] .
  moreover have "r = None \<longrightarrow> err \<noteq> None" using ok(2) run by blast
  ultimately show ?thesis using ok(1,4,5) False by simp
qed (use assms in \<open>auto simp: roundTrip_def Let_def split: if_splits\<close>)

definition demo_get :: request where
  "demo_get = \<lparr>rscheme = Some ''https'', rmethod = ''GET'', rbody = None, rgetBody = None\<rparr>"

definition demo_client :: http_transport where
  "demo_client = \<lparr>attempts = [HTTP3, HTTP1], fallback = HTTPFallbackSafeReplay, tclosed = False\<rparr>"

text \<open>HTTP/3 cannot be dialled, HTTP/1.1 answers.\<close>

definition demo_send :: "nat \<Rightarrow> HTTPProtocol \<Rightarrow> body option \<Rightarrow> nat attempt" where
  "demo_send i p b =
     (if p = HTTP3 then \<lparr>aresp = None, aerr = Some (Lib (LibOpError ''dial'') (Some False) [] []), acause = None\<rparr>
      else \<lparr>aresp = Some 200, aerr = None, acause = None\<rparr>)"

theorem http_fallback_witness:
  "\<exists>tr r err. roundTrip demo_client (Some demo_get) demo_send = (tr, r, err) \<and> map fst tr = [HTTP3, HTTP1]
     \<and> may_advance demo_client demo_get (demo_send 0 HTTP3 None)"
proof -
  have run: "roundTrip demo_client (Some demo_get) demo_send = ([(HTTP3, None), (HTTP1, None)], Some 200, None)" by code_simp
  with http_fallback [OF run] show ?thesis by auto
qed

end
