(* ===== verification/Activity_Clock.thy ===== *)
theory Activity_Clock
  imports Session_Prog Go_Errors "HOL-Library.Sublist"
begin

text \<open>
  The clock that ends idle and old connections (\<^verbatim>\<open>transport/activity_clock.go\<close>) and the timeout policy it belongs
  to (\<^verbatim>\<open>transport/timeouts.go\<close>). Times are nanoseconds since \<^verbatim>\<open>born\<close>, durations are 64-bit. \<^verbatim>\<open>touch\<close> and \<^verbatim>\<open>run\<close> are
  programs over the shared state; time advances as a step of its own. \<open>armed\<close> records which activity the
  running timer was set for, \<open>pend\<close> how many \<^verbatim>\<open>touch\<close> calls have stored but not yet woken the loop, and
  \<open>expiries\<close> every call of \<^verbatim>\<open>expire\<close> with the activity it was decided on and the time.
\<close>

section \<open>Policy\<close>

record Timeouts =
  Connect :: int
  Handshake :: int
  Write :: int
  ReadIdle :: int
  ConnectionIdle :: int
  MaxLifetime :: int

definition defaultTimeout :: int where
  "defaultTimeout = 10 * 1000000000"

definition normalizeTimeouts :: "Timeouts \<Rightarrow> sentinel + Timeouts" where
  "normalizeTimeouts t =
     (if list_ex (\<lambda>d. d < 0) [Connect t, Handshake t, Write t, ReadIdle t, ConnectionIdle t, MaxLifetime t]
      then Inl ErrInvalidTimeout
      else Inr (t\<lparr>Connect := if Connect t = 0 then defaultTimeout else Connect t,
                  Handshake := if Handshake t = 0 then defaultTimeout else Handshake t,
                  Write := if Write t = 0 then defaultTimeout else Write t\<rparr>))"

text \<open>\<open>parent\<close> and \<open>operation\<close> are the causes of the two contexts.\<close>

definition mapOperationTimeout :: "gerr option \<Rightarrow> gerr option \<Rightarrow> TimeoutKind \<Rightarrow> gerr option \<Rightarrow> gerr option" where
  "mapOperationTimeout parent operation kind err =
     (case err of
        None \<Rightarrow> None
      | Some e \<Rightarrow>
          (case parent of
             Some c \<Rightarrow> Some c
           | None \<Rightarrow>
               (case operation of
                  Some c \<Rightarrow> if errors_is c ContextDeadlineExceeded then Some (TimeoutErr kind (Some e)) else Some e
                | None \<Rightarrow> Some e)))"

section \<open>Deadlines\<close>

text \<open>
  \<^verbatim>\<open>newActivityClock\<close> gives no clock when both durations are off, \<^verbatim>\<open>nextDeadline\<close> adds in \<^verbatim>\<open>time.Duration\<close>, and a
  tie goes to the lifetime.
\<close>

definition newActivityClock :: "int \<Rightarrow> int \<Rightarrow> (int \<times> int) option" where
  "newActivityClock idle life = (if idle \<le> 0 \<and> life \<le> 0 then None else Some (idle, life))"

definition nextDeadline :: "int \<times> int \<Rightarrow> int \<Rightarrow> (int \<times> TimeoutKind) option" where
  "nextDeadline cfg recent =
     (case cfg of (idle, life) \<Rightarrow>
        let d = (if idle > 0 then Some (add64 recent idle) else None) in
        if life > 0 \<and> (case d of None \<Rightarrow> True | Some x \<Rightarrow> life \<le> x) then Some (life, TimeoutMaxLifetime)
        else map_option (\<lambda>x. (x, TimeoutConnectionIdle)) d)"

section \<open>The shared state\<close>

record clock =
  now :: int
  lastActivityNS :: int
  wake :: bool
  armed :: "int option"
  pend :: int
  cclosed :: bool
  expiries :: "(TimeoutKind \<times> int \<times> int) list"

datatype cev = CTau | CTick nat | CClosing | CWake | CFire

type_synonym 'r cprog = "(cev, clock, 'r) prog"

definition elapsed :: "int cprog" where
  "elapsed = atom (\<lambda>e s. Some (s, now s))"

definition store :: "int \<Rightarrow> unit cprog" where
  "store t = atom (\<lambda>e s. Some (s\<lparr>lastActivityNS := t, pend := pend s + 1\<rparr>, ()))"

definition send_wake :: "unit cprog" where
  "send_wake = atom (\<lambda>e s. Some (s\<lparr>wake := True, pend := pend s - 1\<rparr>, ()))"

definition touch :: "unit cprog" where
  "touch = bind elapsed (\<lambda>t. seq (store t) send_wake)"

definition load_last :: "int cprog" where
  "load_last = atom (\<lambda>e s. Some (s\<lparr>armed := Some (lastActivityNS s)\<rparr>, lastActivityNS s))"

text \<open>
  \<^verbatim>\<open>time.Until\<close> and \<^verbatim>\<open>Reset\<close> set the timer for the deadline or later, so it fires only when the deadline is past.
\<close>

datatype fired = Closed | Woken | Fired

definition select_clock :: "int \<Rightarrow> fired cprog" where
  "select_clock deadline = atom (\<lambda>e s.
     case e of
       CClosing \<Rightarrow> if cclosed s then Some (s\<lparr>armed := None\<rparr>, Closed) else None
     | CWake \<Rightarrow> if wake s then Some (s\<lparr>wake := False, armed := None\<rparr>, Woken) else None
     | CFire \<Rightarrow> if deadline \<le> now s then Some (s\<lparr>armed := None\<rparr>, Fired) else None
     | _ \<Rightarrow> None)"

definition read_last :: "int cprog" where
  "read_last = atom (\<lambda>e s. Some (s, lastActivityNS s))"

definition expire :: "TimeoutKind \<Rightarrow> int \<Rightarrow> int \<Rightarrow> unit cprog" where
  "expire kind r t = atom (\<lambda>e s. Some (s\<lparr>expiries := expiries s @ [(kind, r, t)]\<rparr>, ()))"

datatype clabel = CRun | CTouch | CAdvance | CClose

fun clock_body :: "int \<times> int \<Rightarrow> clabel \<Rightarrow> clabel option cprog" where
  "clock_body cfg CRun = bind load_last (\<lambda>r.
     case nextDeadline cfg r of
       None \<Rightarrow> Ret None
     | Some (deadline, kind) \<Rightarrow> bind (select_clock deadline) (\<lambda>x.
         case x of
           Closed \<Rightarrow> Ret None
         | Woken \<Rightarrow> Ret (Some CRun)
         | Fired \<Rightarrow> bind read_last (\<lambda>r.
             case nextDeadline cfg r of
               None \<Rightarrow> Ret None
             | Some (current, kind) \<Rightarrow> bind elapsed (\<lambda>t.
                 if current \<le> t then seq (expire kind r t) (Ret None) else Ret (Some CRun)))))"
| "clock_body cfg CTouch = seq touch (Ret None)"
| "clock_body cfg CAdvance = seq (atom (\<lambda>e s. case e of CTick n \<Rightarrow> Some (s\<lparr>now := now s + int n\<rparr>, ()) | _ \<Rightarrow> None)) (Ret None)"
| "clock_body cfg CClose = seq (atom (\<lambda>e s. Some (s\<lparr>cclosed := True\<rparr>, ()))) (Ret None)"

definition clock_init :: "int \<times> int \<Rightarrow> (cev, clock, clabel) psys \<Rightarrow> bool" where
  "clock_init cfg c \<longleftrightarrow> c = \<lparr>pst = \<lparr>now = 0, lastActivityNS = 0, wake = False, armed = None, pend = 0, cclosed = False, expiries = []\<rparr>,
     threads = [clock_body cfg CRun]\<rparr>"

definition clock_call :: "clabel \<Rightarrow> bool" where
  "clock_call l \<longleftrightarrow> l \<noteq> CRun"

section \<open>Correctness\<close>

text \<open>An expiry was decided by the deadline of its kind, which was not in the future.\<close>

definition due :: "int \<times> int \<Rightarrow> TimeoutKind \<times> int \<times> int \<Rightarrow> bool" where
  "due cfg x \<longleftrightarrow> (case x of (kind, r, t) \<Rightarrow> 0 \<le> r \<and> (\<exists>d. nextDeadline cfg r = Some (d, kind) \<and> d \<le> t))"

definition clock_wf :: "int \<times> int \<Rightarrow> clock \<Rightarrow> bool" where
  "clock_wf cfg s \<longleftrightarrow> 0 \<le> pend s \<and> 0 \<le> now s \<and> 0 \<le> lastActivityNS s \<and> (\<forall>x \<in> set (expiries s). due cfg x)
     \<and> (\<forall>r. armed s = Some r \<longrightarrow> r = lastActivityNS s \<or> wake s \<or> 0 < pend s)"

datatype cres = Storing

fun cown :: "clock \<Rightarrow> cres holding" where
  "cown s Storing = pend s"

definition later :: "clock \<Rightarrow> clock \<Rightarrow> bool" where
  "later s s' \<longleftrightarrow> now s \<le> now s' \<and> prefix (expiries s) (expiries s')"

abbreviation wpc :: "int \<times> int \<Rightarrow> ('r \<Rightarrow> cres holding \<Rightarrow> bool) \<Rightarrow> 'r cprog \<Rightarrow> cres holding \<Rightarrow> bool" where
  "wpc cfg \<equiv> wp (clock_wf cfg) later (\<lambda>_. False) cown"

lemma all_cres: "(\<forall>k. P k) \<longleftrightarrow> P Storing"
  by (metis (full_types) cres.exhaust)

lemma wp_clock:
  assumes "\<And>e s s' r. clock_wf cfg s \<Longrightarrow> 0 \<le> h Storing \<Longrightarrow> h Storing \<le> pend s \<Longrightarrow> f e s = Some (s', r) \<Longrightarrow>
     clock_wf cfg s' \<and> later s s' \<and> 0 \<le> n \<and> pend s' - pend s = n - h Storing \<and> Q r (\<lambda>_. n)"
  shows "wpc cfg Q (atom f) h"
proof (rule wp_atom)
  fix e s s' r
  assume "clock_wf cfg s" "holds cown s h" "f e s = Some (s', r)"
  with assms [of s e s' r] show "clock_wf cfg s' \<and> later s s' \<and> (\<exists>h'. moved cown s s' h h' \<and> Q r h')"
    by (auto simp: holds_def moved_def all_cres intro!: exI [of _ "\<lambda>_. n"])
qed

lemma later_refl: "later s s"
  by (simp add: later_def)

lemma wp_elapsed: "(\<And>t. 0 \<le> t \<Longrightarrow> Q t (\<lambda>_. h Storing)) \<Longrightarrow> wpc cfg Q elapsed h"
  unfolding elapsed_def by (rule wp_clock [where n = "h Storing"]) (auto simp: clock_wf_def later_refl)

lemma wp_store: "0 \<le> t \<Longrightarrow> Q () (\<lambda>_. h Storing + 1) \<Longrightarrow> wpc cfg Q (store t) h"
  unfolding store_def by (rule wp_clock [where n = "h Storing + 1"]) (auto simp: clock_wf_def later_def)

lemma wp_send_wake: "1 \<le> h Storing \<Longrightarrow> Q () (\<lambda>_. h Storing - 1) \<Longrightarrow> wpc cfg Q send_wake h"
  unfolding send_wake_def by (rule wp_clock [where n = "h Storing - 1"]) (auto simp: clock_wf_def later_def)

lemma wp_load_last: "(\<And>r. 0 \<le> r \<Longrightarrow> Q r (\<lambda>_. h Storing)) \<Longrightarrow> wpc cfg Q load_last h"
  unfolding load_last_def by (rule wp_clock [where n = "h Storing"]) (auto simp: clock_wf_def later_def)

lemma wp_read_last: "(\<And>r. 0 \<le> r \<Longrightarrow> Q r (\<lambda>_. h Storing)) \<Longrightarrow> wpc cfg Q read_last h"
  unfolding read_last_def by (rule wp_clock [where n = "h Storing"]) (auto simp: clock_wf_def later_def)

lemma wp_select_clock: "(\<And>x. Q x (\<lambda>_. h Storing)) \<Longrightarrow> wpc cfg Q (select_clock d) h"
  unfolding select_clock_def
  by (rule wp_clock [where n = "h Storing"]) (auto simp: clock_wf_def later_def split: cev.splits if_splits)

lemma wp_expire: "due cfg (kind, r, t) \<Longrightarrow> Q () (\<lambda>_. h Storing) \<Longrightarrow> wpc cfg Q (expire kind r t) h"
  unfolding expire_def by (rule wp_clock [where n = "h Storing"]) (auto simp: clock_wf_def later_def)

lemma clock_body_ok: "wpc cfg (next_hold (\<lambda>_. False) (\<lambda>_. none)) (clock_body cfg l) none"
proof (cases l)
  case CRun
  then show ?thesis
    by (auto intro!: wp_bind wp_load_last wp_select_clock wp_read_last wp_elapsed wp_expire
        simp: next_hold_def due_def split: option.splits fired.splits)
next
  case CTouch
  then show ?thesis
    by (auto intro!: wp_bind wp_elapsed wp_store wp_send_wake simp: next_hold_def touch_def)
qed (auto intro!: wp_bind wp_clock [where n = 0] simp: next_hold_def clock_wf_def later_def split: cev.splits)

interpretation clock_loops: session_loops "clock_body cfg" "Collect clock_call" "\<lambda>_. none" "clock_wf cfg" later "\<lambda>_. False"
    cown "clock_init cfg" for cfg
  by (unfold_locales, rule clock_body_ok)
     (auto simp: clock_init_def clock_wf_def later_def all_cres intro!: exI [of _ "[CRun]"])

abbreviation clock_running :: "int \<times> int \<Rightarrow> (cev, clock, clabel) psys \<Rightarrow> bool" where
  "clock_running cfg \<equiv> reachable (clock_init cfg) (pstep (clock_body cfg) (Collect clock_call))"

lemma due_idle:
  assumes "due (idle, life) (kind, r, t)"
  shows "kind = TimeoutMaxLifetime \<and> 0 < life \<and> life \<le> t
     \<or> kind = TimeoutConnectionIdle \<and> 0 < idle \<and> (r + idle \<le> max_int64 \<longrightarrow> r + idle \<le> t)"
proof -
  have "i64 (r + idle)" if "0 \<le> r" "0 < idle" "r + idle \<le> max_int64" using that by (simp add: i64_def max_int64_def)
  with assms show ?thesis
    by (auto simp: due_def nextDeadline_def Let_def add64_exact split: if_splits option.splits)
qed

text \<open>
  C39. However \<^verbatim>\<open>touch\<close> calls of readers and writers interleave with \<^verbatim>\<open>run\<close> and with time, \<^verbatim>\<open>expire\<close> is called for the
  lifetime only when it is over and for idleness only when the whole idle time has passed since the last
  recorded activity, provided that sum fits 64 bits; and the timer never guards a deadline that an activity
  has moved without the wake-up being pending or on its way.
\<close>

theorem activity_expiry:
  assumes "clock_running (idle, life) c"
  shows "(\<forall>(kind, r, t) \<in> set (expiries (pst c)).
       kind = TimeoutMaxLifetime \<and> 0 < life \<and> life \<le> t
     \<or> kind = TimeoutConnectionIdle \<and> 0 < idle \<and> (r + idle \<le> max_int64 \<longrightarrow> r + idle \<le> t))
     \<and> (\<forall>r. armed (pst c) = Some r \<longrightarrow> r = lastActivityNS (pst c) \<or> wake (pst c) \<or> 0 < pend (pst c))"
  using clock_loops.reachable_W [OF assms] due_idle by (fastforce simp: clock_wf_def)

definition clock_demo :: "(cev, clabel) move list" where
  "clock_demo = [Do 0 CTau, Go CAdvance, Do 1 (CTick 3), Go CTouch, Do 2 CTau, Do 2 CTau, Do 2 CTau, Do 0 CWake, Loop 0,
     Do 0 CTau, Go CAdvance, Do 3 (CTick 5), Do 0 CFire, Do 0 CTau, Do 0 CTau, Do 0 CTau]"

definition clock_start :: "int \<times> int \<Rightarrow> (cev, clock, clabel) psys" where
  "clock_start cfg = \<lparr>pst = \<lparr>now = 0, lastActivityNS = 0, wake = False, armed = None, pend = 0, cclosed = False, expiries = []\<rparr>,
     threads = [clock_body cfg CRun]\<rparr>"

lemma clock_demo_run:
  "map_option (\<lambda>c. expiries (pst c)) (exec (clock_body (5, 0)) clock_call clock_demo (clock_start (5, 0)))
   = Some [(TimeoutConnectionIdle, 3, 8)]"
  by code_simp

theorem activity_expiry_witness:
  "\<exists>c. clock_running (5, 0) c \<and> expiries (pst c) = [(TimeoutConnectionIdle, 3, 8)] \<and> (3 :: int) + 5 \<le> 8"
proof -
  obtain c where c: "exec (clock_body (5, 0)) clock_call clock_demo (clock_start (5, 0)) = Some c"
    "expiries (pst c) = [(TimeoutConnectionIdle, 3, 8)]"
    using clock_demo_run by auto
  have r: "clock_running (5, 0) c"
    by (rule exec_reachable [OF c(1)], rule reach_init) (simp add: clock_init_def clock_start_def)
  have "(3 :: int) + 5 \<le> max_int64" by (simp add: max_int64_def)
  with activity_expiry [OF r] c(2) r show ?thesis by auto
qed

text \<open>
  With the largest idle time, meant as \<open>never\<close>, the sum wraps around after the first activity and the connection
  expires at once.
\<close>

definition clock_overflow :: "(cev, clabel) move list" where
  "clock_overflow = [Do 0 CTau, Go CAdvance, Do 1 (CTick 1), Go CTouch, Do 2 CTau, Do 2 CTau, Do 2 CTau, Do 0 CWake, Loop 0,
     Do 0 CTau, Do 0 CFire, Do 0 CTau, Do 0 CTau, Do 0 CTau]"

lemma idle_overflow_expires:
  "map_option (\<lambda>c. expiries (pst c))
     (exec (clock_body (max_int64, 0)) clock_call clock_overflow (clock_start (max_int64, 0)))
   = Some [(TimeoutConnectionIdle, 1, 1)]"
  by code_simp

end
