(* ===== verification/Observer.thy ===== *)
theory Observer
  imports Session_Prog "HOL-Library.Word"
begin

text \<open>
  The asynchronous observer (\<^verbatim>\<open>transport/observer.go\<close>) and the age of a resource (\<^verbatim>\<open>transport/stats.go\<close>). Sessions call
  \<^verbatim>\<open>emit\<close>, one goroutine runs \<^verbatim>\<open>run\<close>; each channel operation and each atomic access is a step. \<open>answers\<close> records what the
  calls of \<^verbatim>\<open>emit\<close> decided, \<open>handed\<close> the events passed to the observer, \<open>running\<close> whether \<^verbatim>\<open>run\<close> has not returned. Whether
  the observer panics is part of the step that calls it. The two counters are \<^verbatim>\<open>atomic.Uint64\<close>.
\<close>

section \<open>The dispatcher\<close>

datatype answer = Accepted | Dropped | Refused

record 'v dispatcher =
  queue :: "'v list"
  stopped :: bool
  stopCh_closed :: bool
  dropped :: "64 word"
  panics :: "64 word"
  running :: bool
  handed :: "'v list"
  answers :: "('v \<times> answer) list"

definition newObserverDispatcher :: "'v dispatcher" where
  "newObserverDispatcher = \<lparr>queue = [], stopped = False, stopCh_closed = False, dropped = 0, panics = 0,
     running = True, handed = [], answers = []\<rparr>"

datatype oev = OTau | OPanics | OStopped | OEvent

type_synonym ('v, 'r) oprog = "(oev, 'v dispatcher, 'r) prog"

definition load_stopped :: "'v \<Rightarrow> ('v, bool) oprog" where
  "load_stopped ev = atom (\<lambda>e s.
     Some (if stopped s then (s\<lparr>answers := answers s @ [(ev, Refused)]\<rparr>, True) else (s, False)))"

definition try_send :: "nat \<Rightarrow> 'v \<Rightarrow> ('v, bool) oprog" where
  "try_send cap ev = atom (\<lambda>e s.
     Some (if length (queue s) < cap
           then (s\<lparr>queue := queue s @ [ev], answers := answers s @ [(ev, Accepted)]\<rparr>, True)
           else (s\<lparr>dropped := dropped s + 1, answers := answers s @ [(ev, Dropped)]\<rparr>, False)))"

definition emit :: "nat \<Rightarrow> 'v \<Rightarrow> ('v, bool) oprog" where
  "emit cap ev = bind (load_stopped ev) (\<lambda>x. if x then Ret False else try_send cap ev)"

definition stop :: "('v, unit) oprog" where
  "stop = seq (atom (\<lambda>e s. Some (s\<lparr>stopped := True\<rparr>, ()))) (atom (\<lambda>e s. Some (s\<lparr>stopCh_closed := True\<rparr>, ())))"

text \<open>\<^verbatim>\<open>run\<close> takes either ready case; receiving hands the event over.\<close>

definition select_event :: "('v, 'v option) oprog" where
  "select_event = atom (\<lambda>e s.
     case e of
       OStopped \<Rightarrow> if stopCh_closed s then Some (s\<lparr>running := False\<rparr>, None) else None
     | OEvent \<Rightarrow> (case queue s of [] \<Rightarrow> None | v # vs \<Rightarrow> Some (s\<lparr>queue := vs, handed := handed s @ [v]\<rparr>, Some v))
     | _ \<Rightarrow> None)"

definition observe :: "('v, unit) oprog" where
  "observe = atom (\<lambda>e s. Some (if e = OPanics then s\<lparr>panics := panics s + 1\<rparr> else s, ()))"

datatype 'v olabel = ORun | OEmit 'v | OStop

fun observer_body :: "nat \<Rightarrow> 'v olabel \<Rightarrow> ('v, 'v olabel option) oprog" where
  "observer_body cap ORun = bind select_event (\<lambda>x.
     case x of None \<Rightarrow> Ret None | Some v \<Rightarrow> seq observe (Ret (Some ORun)))"
| "observer_body cap (OEmit ev) = seq (emit cap ev) (Ret None)"
| "observer_body cap OStop = seq stop (Ret None)"

definition observer_call :: "'v olabel \<Rightarrow> bool" where
  "observer_call l \<longleftrightarrow> l \<noteq> ORun"

definition observer_start :: "nat \<Rightarrow> (oev, 'v dispatcher, 'v olabel) psys" where
  "observer_start cap = \<lparr>pst = newObserverDispatcher, threads = [observer_body cap ORun]\<rparr>"

section \<open>The age of a resource\<close>

text \<open>
  \<open>t\<close> is \<^verbatim>\<open>time.Since(started)\<close>; a resource without a start has no age. The frozen value is stored with one added, zero
  meaning that it still runs.
\<close>

record resourceAge =
  started :: bool
  finalNS :: int

definition positiveElapsed :: "bool \<Rightarrow> int \<Rightarrow> int" where
  "positiveElapsed start t = (if \<not> start then 0 else if t \<le> 0 then 1 else t)"

definition age_current :: "int \<Rightarrow> resourceAge \<Rightarrow> int" where
  "age_current t a = (if \<not> started a then 0 else if finalNS a > 0 then finalNS a - 1 else positiveElapsed (started a) t)"

definition age_freeze :: "int \<Rightarrow> resourceAge \<Rightarrow> resourceAge" where
  "age_freeze t a = (if \<not> started a then a
     else if finalNS a = 0 then a\<lparr>finalNS := add64 (positiveElapsed (started a) t) 1\<rparr> else a)"

definition nonNegativeUint64 :: "int \<Rightarrow> nat" where
  "nonNegativeUint64 v = (if v \<le> 0 then 0 else nat v)"

text \<open>The age at which a resource is frozen is what it reports ever after, later freezes included.\<close>

lemma age_frozen:
  assumes "started a" and "finalNS a = 0" and "t < max_int64"
  shows "age_current t'' (age_freeze t' (age_freeze t a)) = positiveElapsed True t"
proof -
  have "add64 (positiveElapsed True t) 1 = positiveElapsed True t + 1"
    using assms(3) by (intro add64_exact) (auto simp: positiveElapsed_def i64_def max_int64_def)
  then show ?thesis using assms by (auto simp: age_current_def age_freeze_def positiveElapsed_def)
qed

section \<open>Specification\<close>

text \<open>A bounded queue that loses nothing it has taken, and hands over in order until its reader leaves.\<close>

record 'v lossy =
  waiting :: "'v list"
  taken :: "'v list"
  reading :: bool

inductive lossy_step :: "nat \<Rightarrow> 'v lossy \<Rightarrow> 'v lossy \<Rightarrow> bool" for cap :: nat where
  offer: "length (waiting q) < cap \<Longrightarrow> lossy_step cap q (q\<lparr>waiting := waiting q @ [v]\<rparr>)"
| take: "reading q \<Longrightarrow> waiting q = v # vs \<Longrightarrow> lossy_step cap q (q\<lparr>waiting := vs, taken := taken q @ [v]\<rparr>)"
| leave: "reading q \<Longrightarrow> lossy_step cap q (q\<lparr>reading := False\<rparr>)"

definition abs_lossy :: "'v dispatcher \<Rightarrow> 'v lossy" where
  "abs_lossy s = \<lparr>waiting = queue s, taken = handed s, reading = running s\<rparr>"

definition refines :: "nat \<Rightarrow> 'v dispatcher \<Rightarrow> 'v dispatcher \<Rightarrow> bool" where
  "refines cap s s' \<longleftrightarrow> (lossy_step cap)\<^sup>*\<^sup>* (abs_lossy s) (abs_lossy s')"

definition chosen :: "answer \<Rightarrow> ('v \<times> answer) list \<Rightarrow> 'v list" where
  "chosen a xs = map fst (filter (\<lambda>x. snd x = a) xs)"

definition dispatcher_wf :: "nat \<Rightarrow> 'v dispatcher \<Rightarrow> bool" where
  "dispatcher_wf cap s \<longleftrightarrow> length (queue s) \<le> cap \<and> chosen Accepted (answers s) = handed s @ queue s
     \<and> dropped s = of_nat (length (chosen Dropped (answers s)))
     \<and> (stopCh_closed s \<longrightarrow> stopped s) \<and> (\<not> running s \<longrightarrow> stopCh_closed s)"

lemma chosen_append [simp]: "chosen a (xs @ [(v, b)]) = chosen a xs @ (if b = a then [v] else [])"
  by (simp add: chosen_def)

lemma chosen_Nil [simp]: "chosen a [] = []"
  by (simp add: chosen_def)

section \<open>Correctness\<close>

datatype ores = Runner | Stopped

text \<open>\<open>Runner\<close> is the one goroutine in \<^verbatim>\<open>run\<close>; \<open>Stopped\<close> is the knowledge that \<^verbatim>\<open>stop\<close> has begun.\<close>

fun oown :: "'v dispatcher \<Rightarrow> ores holding" where
  "oown s Runner = of_bool (running s)"
| "oown s Stopped = of_bool (stopped s)"

fun ohold :: "'v olabel \<Rightarrow> ores holding" where
  "ohold ORun = none(Runner := 1)"
| "ohold _ = none"

definition obs_G :: "nat \<Rightarrow> 'v dispatcher \<Rightarrow> 'v dispatcher \<Rightarrow> bool" where
  "obs_G cap s s' \<longleftrightarrow> refines cap s s' \<and> (stopped s \<longrightarrow> stopped s')"

abbreviation wpo :: "nat \<Rightarrow> ('r \<Rightarrow> ores holding \<Rightarrow> bool) \<Rightarrow> ('v, 'r) oprog \<Rightarrow> ores holding \<Rightarrow> bool" where
  "wpo cap \<equiv> wp (dispatcher_wf cap) (obs_G cap) (\<lambda>k. k = Stopped) oown"

lemma all_ores: "(\<forall>k. P k) \<longleftrightarrow> P Runner \<and> P Stopped"
  by (metis (full_types) ores.exhaust)

lemma refines_refl [simp]: "abs_lossy s' = abs_lossy s \<Longrightarrow> refines cap s s'"
  by (simp add: refines_def)

lemma refines_step: "lossy_step cap (abs_lossy s) (abs_lossy s') \<Longrightarrow> refines cap s s'"
  by (simp add: refines_def r_into_rtranclp)

lemma wp_try_send:
  fixes ev :: 'v
  assumes "\<And>b. Q b h" shows "wpo cap Q (try_send cap ev) h"
  unfolding try_send_def
proof (rule wp_atom_frame)
  fix e and s s' :: "'v dispatcher" and r
  assume w: "dispatcher_wf cap s"
    and f: "Some (if length (queue s) < cap
           then (s\<lparr>queue := queue s @ [ev], answers := answers s @ [(ev, Accepted)]\<rparr>, True)
           else (s\<lparr>dropped := dropped s + 1, answers := answers s @ [(ev, Dropped)]\<rparr>, False)) = Some (s', r)"
  show "dispatcher_wf cap s' \<and> obs_G cap s s' \<and> oown s' = oown s \<and> Q r h"
  proof (cases "length (queue s) < cap")
    case True
    then have s': "s' = s\<lparr>queue := queue s @ [ev], answers := answers s @ [(ev, Accepted)]\<rparr>" using f by simp
    have "refines cap s s'"
      using True lossy_step.offer [of "abs_lossy s" cap ev] by (intro refines_step) (simp add: abs_lossy_def s')
    then show ?thesis
      using w True assms by (simp add: s' dispatcher_wf_def obs_G_def fun_eq_iff all_ores)
  next
    case False
    then have s': "s' = s\<lparr>dropped := dropped s + 1, answers := answers s @ [(ev, Dropped)]\<rparr>" using f by simp
    then show ?thesis
      using w assms by (simp add: dispatcher_wf_def obs_G_def abs_lossy_def fun_eq_iff all_ores)
  qed
qed

lemma wp_emit: "(\<And>b. Q b h) \<Longrightarrow> wpo cap Q (emit cap ev) h"
  unfolding emit_def load_stopped_def
  by (rule wp_bind, rule wp_atom_frame)
     (auto simp: dispatcher_wf_def obs_G_def abs_lossy_def fun_eq_iff all_ores intro!: wp_try_send split: if_splits)

lemma wp_stop:
  assumes "Q () none" shows "wpo cap Q stop none"
  unfolding stop_def
proof (rule wp_bind, rule wp_atom_moves)
  fix e and s s' :: "'v dispatcher" and r :: unit
  assume "dispatcher_wf cap s" and "Some (s\<lparr>stopped := True\<rparr>, ()) = Some (s', r)"
  then have "dispatcher_wf cap s' \<and> obs_G cap s s'" "moves (\<lambda>k. k = Stopped) oown s s' none (none(Stopped := 1))"
    by (auto simp: dispatcher_wf_def obs_G_def abs_lossy_def moves_def all_ores)
  moreover have "wpo cap Q (atom (\<lambda>e s. Some (s\<lparr>stopCh_closed := True\<rparr>, ()))) (none(Stopped := 1))"
    by (rule wp_atom_moves)
       (auto simp: dispatcher_wf_def obs_G_def abs_lossy_def moves_def holds_def all_ores assms intro!: exI [of _ none])
  ultimately show "dispatcher_wf cap s' \<and> obs_G cap s s'
      \<and> (\<exists>h'. moves (\<lambda>k. k = Stopped) oown s s' none h' \<and> wpo cap Q (atom (\<lambda>e s. Some (s\<lparr>stopCh_closed := True\<rparr>, ()))) h')"
    by blast
qed

lemma wp_select_event:
  fixes Q :: "'v option \<Rightarrow> ores holding \<Rightarrow> bool"
  assumes "Q None none" and "\<And>v. Q (Some v) (none(Runner := 1))"
  shows "wpo cap Q select_event (none(Runner := 1))"
  unfolding select_event_def
proof (rule wp_atom)
  fix e and s s' :: "'v dispatcher" and r :: "'v option"
  assume w: "dispatcher_wf cap s" and h: "holds oown s (none(Runner := 1))"
    and f: "(case e of
       OStopped \<Rightarrow> if stopCh_closed s then Some (s\<lparr>running := False\<rparr>, None) else None
     | OEvent \<Rightarrow> (case queue s of [] \<Rightarrow> None | v # vs \<Rightarrow> Some (s\<lparr>queue := vs, handed := handed s @ [v]\<rparr>, Some v))
     | _ \<Rightarrow> None) = Some (s', r)"
  have run: "running s" using h by (cases "running s") (auto simp: holds_def all_ores)
  have "refines cap s s'"
    using f run lossy_step.leave [of "abs_lossy s" cap] lossy_step.take [of "abs_lossy s" _ _ cap]
    by (auto simp: abs_lossy_def intro!: refines_step split: oev.splits if_splits list.splits)
  then show "dispatcher_wf cap s' \<and> obs_G cap s s' \<and> (\<exists>h'. moved oown s s' (none(Runner := 1)) h' \<and> Q r h')"
    using w f run assms
    by (intro conjI exI [of _ "if r = None then none else none(Runner := 1)"])
       (auto simp: dispatcher_wf_def obs_G_def moved_def all_ores split: oev.splits if_splits list.splits)
qed

lemma wp_observe: "Q () h \<Longrightarrow> wpo cap Q observe h"
  unfolding observe_def
  by (rule wp_atom_frame) (auto simp: dispatcher_wf_def obs_G_def abs_lossy_def fun_eq_iff all_ores split: if_splits)

lemma observer_body_ok: "wpo cap (next_hold (\<lambda>k. k = Stopped) ohold) (observer_body cap l) (ohold l)"
proof (cases l)
  case ORun
  show ?thesis
    unfolding ORun observer_body.simps ohold.simps
    by (rule wp_bind, rule wp_select_event) (simp_all add: next_hold_def wp_bind wp_observe)
next
  case (OEmit ev)
  show ?thesis
    unfolding OEmit observer_body.simps ohold.simps by (rule wp_bind, rule wp_emit) (simp add: next_hold_def)
next
  case OStop
  show ?thesis
    unfolding OStop observer_body.simps ohold.simps by (rule wp_bind, rule wp_stop) (simp add: next_hold_def)
qed

interpretation observer: session_loops "observer_body cap" "Collect observer_call" ohold "dispatcher_wf cap" "obs_G cap"
    "\<lambda>k. k = Stopped" oown "\<lambda>c. c = observer_start cap" for cap
proof (unfold_locales, rule observer_body_ok)
  fix l :: "'v olabel" and k show "0 \<le> ohold l k" by (cases l) auto
next
  fix l :: "'v olabel" assume "l \<in> Collect observer_call" then show "ohold l = none"
    by (cases l) (auto simp: observer_call_def)
qed (auto simp: observer_start_def newObserverDispatcher_def dispatcher_wf_def obs_G_def refines_def all_ores
     intro!: exI [of _ "[ORun]"] intro: rtranclp_trans)

abbreviation observing :: "nat \<Rightarrow> (oev, 'v dispatcher, 'v olabel) psys \<Rightarrow> bool" where
  "observing cap \<equiv> reachable (\<lambda>c. c = observer_start cap) (pstep (observer_body cap) (Collect observer_call))"

text \<open>\<^verbatim>\<open>emit\<close> never waits: whatever the others do, it returns after its own one or two steps.\<close>

lemma emit_nonblocking:
  "\<exists>c'. exec (observer_body cap) observer_call
      (Go (OEmit ev) # replicate (if stopped (pst c) then 1 else 2) (Do (length (threads c)) OTau)) c = Some c'
    \<and> threads c' = threads c @ [Ret None]"
  by (auto simp: observer_call_def emit_def load_stopped_def try_send_def atom_def numeral_2_eq_2 nth_append)

text \<open>
  C35. The dispatcher, under every interleaving of \<^verbatim>\<open>emit\<close>, \<^verbatim>\<open>stop\<close> and \<^verbatim>\<open>run\<close>, implements a bounded queue that hands over
  what it has accepted in order and exactly once until its reader leaves: every run of the code is a run
  of the specification, the queue never exceeds its buffer, what was accepted is what was handed over followed
  by what is queued, the drop counter counts the refusals of a full queue, and a call of \<^verbatim>\<open>emit\<close> always returns
  within two steps of its own.
\<close>

theorem observer_refines:
  assumes "observing cap c" and "(pstep (observer_body cap) (Collect observer_call))\<^sup>*\<^sup>* c d"
  shows "(lossy_step cap)\<^sup>*\<^sup>* (abs_lossy (pst c)) (abs_lossy (pst d))
    \<and> length (queue (pst d)) \<le> cap
    \<and> chosen Accepted (answers (pst d)) = handed (pst d) @ queue (pst d)
    \<and> dropped (pst d) = of_nat (length (chosen Dropped (answers (pst d))))
    \<and> (\<exists>d'. exec (observer_body cap) observer_call
          (Go (OEmit ev) # replicate (if stopped (pst d) then 1 else 2) (Do (length (threads d)) OTau)) d = Some d'
        \<and> threads d' = threads d @ [Ret None])"
proof -
  have "observing cap d" "obs_G cap (pst c) (pst d)" using observer.reachable_guarantee [OF assms(2,1)] by auto
  then have "dispatcher_wf cap (pst d)" "refines cap (pst c) (pst d)"
    using observer.reachable_W by (auto simp: obs_G_def)
  then show ?thesis
    using emit_nonblocking [of cap ev d] by (simp only: dispatcher_wf_def refines_def simp_thms)
qed

definition observer_demo :: "(oev, nat olabel) move list" where
  "observer_demo = [Go (OEmit 1), Do 1 OTau, Do 1 OTau, Go (OEmit 2), Do 2 OTau, Do 2 OTau, Do 0 OEvent, Do 0 OPanics, Loop 0,
     Go (OEmit 3), Do 3 OTau, Do 3 OTau]"

lemma observer_demo_run:
  "map_option (\<lambda>c. (queue (pst c), handed (pst c), dropped (pst c), panics (pst c)))
     (exec (observer_body 1) observer_call observer_demo (observer_start 1)) = Some ([3], [1], 1, 1)"
  by code_simp

theorem observer_refines_witness:
  "\<exists>c. observing 1 c \<and> queue (pst c) = [3 :: nat] \<and> chosen Accepted (answers (pst c)) = [1, 3]
     \<and> (lossy_step 1)\<^sup>*\<^sup>* (abs_lossy newObserverDispatcher) (abs_lossy (pst c))"
proof -
  obtain c where c: "exec (observer_body 1) observer_call observer_demo (observer_start 1) = Some c"
    "queue (pst c) = [3]" "handed (pst c) = [1]"
    using observer_demo_run by auto
  have i: "observing 1 (observer_start 1)" by (rule reach_init) simp
  have r: "observing 1 c" by (rule exec_reachable [OF c(1) i])
  have st: "(pstep (observer_body 1) (Collect observer_call))\<^sup>*\<^sup>* (observer_start 1) c"
    by (rule exec_steps [OF c(1)])
  have "(lossy_step 1)\<^sup>*\<^sup>* (abs_lossy (pst (observer_start 1))) (abs_lossy (pst c))"
    "chosen Accepted (answers (pst c)) = handed (pst c) @ queue (pst c)"
    using observer_refines [OF i st, of 0] by (simp_all only: simp_thms)
  with r c(2,3) show ?thesis unfolding observer_start_def by (intro exI [of _ c]) simp
qed

text \<open>\<^verbatim>\<open>stop\<close> may leave accepted events behind: \<^verbatim>\<open>run\<close> can leave while the queue is not empty.\<close>

lemma stop_leaves_events:
  "map_option (\<lambda>c. (map returned (threads c), queue (pst c), handed (pst c)))
     (exec (observer_body 2) observer_call
        [Go (OEmit (7 :: nat)), Do 1 OTau, Do 1 OTau, Go OStop, Do 2 OTau, Do 2 OTau, Do 0 OStopped] (observer_start 2))
   = Some ([Some None, Some None, Some None], [7], [])"
  by code_simp

end
