(* ===== verification/Options.thy ===== *)
theory Options
  imports Wire Engine Activity_Clock
begin

text \<open>
  The configuration of an Engine: \<^verbatim>\<open>defaultConfig\<close>, every \<^verbatim>\<open>With...\<close> option and \<^verbatim>\<open>New\<close> (\<^verbatim>\<open>transport/options.go\<close>,
  \<^verbatim>\<open>timeouts.go\<close>, \<^verbatim>\<open>observer.go\<close>, \<^verbatim>\<open>engine.go\<close>), what the sessions derive from it, and the TLS policy
  (\<^verbatim>\<open>transport/tls.go\<close>). Ciphers are those of the wire format; a caller's framer is of any type. A factory is
  given by what a call of it returns.
\<close>

section \<open>Configuration\<close>

definition Second :: int where
  "Second = 1000000000"

record TCPConfig =
  NoDelay :: bool
  KeepAlive :: bool
  KeepAlivePeriod :: int
  ReadBufferBytes :: int
  WriteBufferBytes :: int

record WebSocketConfig =
  OriginPatterns :: "string list"
  Subprotocols :: "string list"
  HandshakeTimeout :: int
  WriteTimeout :: int
  CloseTimeout :: int
  PingInterval :: int
  PongTimeout :: int

record tls_settings =
  MinVersion :: nat
  MaxVersion :: nat
  ServerName :: string
  Certificates :: nat
  GetCertificate :: bool
  GetConfigForClient :: bool

record timeoutOverrides =
  ovTLSHandshake :: bool
  ovWSHandshake :: bool
  ovWSWrite :: bool

type_synonym cipher_factory = "gerr + Cipher option"

record 'f config =
  cipher :: "Cipher option"
  cipherFactory :: "cipher_factory option"
  framerFactory :: "'f option option"
  clientTLS :: "tls_settings option"
  serverTLS :: "tls_settings option"
  tlsHandshakeTimeout :: int
  timeouts :: Timeouts
  overrides :: timeoutOverrides
  tcp :: TCPConfig
  ws :: WebSocketConfig
  limits :: Limits
  observing :: bool
  observerBuffer :: int
  writeQueue :: int
  maxQueuedBytes :: int
  readBuffer :: int
  maxBufferedRead :: int
  maxMessageBytes :: int
  maxDatagramBytes :: int

definition defaultConfig :: "'f config" where
  "defaultConfig = \<lparr>cipher = None, cipherFactory = None, framerFactory = None, clientTLS = None, serverTLS = None,
     tlsHandshakeTimeout = 10 * Second,
     timeouts = \<lparr>Connect = defaultTimeout, Timeouts.Handshake = defaultTimeout, Write = defaultTimeout, ReadIdle = 0,
       ConnectionIdle = 0, MaxLifetime = 0\<rparr>,
     overrides = \<lparr>ovTLSHandshake = False, ovWSHandshake = False, ovWSWrite = False\<rparr>,
     tcp = \<lparr>NoDelay = True, KeepAlive = True, KeepAlivePeriod = 30 * Second, ReadBufferBytes = 0, WriteBufferBytes = 0\<rparr>,
     ws = \<lparr>OriginPatterns = [], Subprotocols = [], HandshakeTimeout = 10 * Second, WriteTimeout = 10 * Second,
       CloseTimeout = 10 * Second, PingInterval = 30 * Second, PongTimeout = 10 * Second\<rparr>,
     limits = \<lparr>MaxConnections = 0, MaxConnectionsPerPeer = 0, MaxConnectionsPerListener = 0, MaxConcurrentHandshakes = 0,
       MaxPendingUpgrades = 0, MaxQueuedBytesTotal = 0\<rparr>,
     observing = False, observerBuffer = 1024, writeQueue = 256, maxQueuedBytes = 67108864, readBuffer = 65536,
     maxBufferedRead = 33554432, maxMessageBytes = 16777216, maxDatagramBytes = 65507\<rparr>"

section \<open>Options\<close>

text \<open>An option is given by the call that made it, and applied by the closure the call returns.\<close>

datatype 'f Option =
    WithLimits Limits
  | WithCipher "Cipher option"
  | WithCipherFactory "cipher_factory option"
  | WithFramerFactory "'f option option"
  | WithTLSClientConfig "tls_settings option"
  | WithTLSServerConfig "tls_settings option"
  | WithTLSHandshakeTimeout int
  | WithTCPConfig TCPConfig
  | WithWebSocketConfig WebSocketConfig
  | WithTimeouts Timeouts
  | WithObserver bool
  | WithObserverBuffer int
  | WithWriteQueue int
  | WithMaxQueuedBytes int
  | WithReadBuffer int
  | WithMaxBufferedRead int
  | WithMaxMessageBytes int
  | WithMaxDatagramBytes int

definition ws_defaults :: "WebSocketConfig \<Rightarrow> WebSocketConfig" where
  "ws_defaults w = (if CloseTimeout w = 0 then w\<lparr>CloseTimeout := 10 * Second\<rparr> else w)"

definition guarded :: "bool \<Rightarrow> sentinel \<Rightarrow> 'f config \<Rightarrow> sentinel + 'f config" where
  "guarded bad err c = (if bad then Inl err else Inr c)"

fun apply_option :: "'f Option \<Rightarrow> 'f config \<Rightarrow> sentinel + 'f config" where
  "apply_option (WithLimits l) c = guarded (Limits_validate l \<noteq> None) ErrInvalidLimits (c\<lparr>limits := l\<rparr>)"
| "apply_option (WithCipher ci) c =
     guarded (framerFactory c \<noteq> None) ErrConflictingCodecOptions (c\<lparr>cipher := ci, cipherFactory := None\<rparr>)"
| "apply_option (WithCipherFactory f) c =
     (if f = None then Inl ErrNilCipherFactory
      else guarded (framerFactory c \<noteq> None) ErrConflictingCodecOptions (c\<lparr>cipher := None, cipherFactory := f\<rparr>))"
| "apply_option (WithFramerFactory f) c =
     (if f = None then Inl ErrNilFramer
      else guarded (cipher c \<noteq> None \<or> cipherFactory c \<noteq> None) ErrConflictingCodecOptions (c\<lparr>framerFactory := f\<rparr>))"
| "apply_option (WithTLSClientConfig t) c = guarded (t = None) ErrTLSConfigRequired (c\<lparr>clientTLS := t\<rparr>)"
| "apply_option (WithTLSServerConfig t) c = guarded (t = None) ErrTLSConfigRequired (c\<lparr>serverTLS := t\<rparr>)"
| "apply_option (WithTLSHandshakeTimeout d) c =
     guarded (d \<le> 0) ErrInvalidTimeout (c\<lparr>tlsHandshakeTimeout := d, overrides := (overrides c)\<lparr>ovTLSHandshake := True\<rparr>\<rparr>)"
| "apply_option (WithTCPConfig t) c =
     (if KeepAlive t \<and> KeepAlivePeriod t \<le> 0 then Inl ErrInvalidTimeout
      else guarded (ReadBufferBytes t < 0 \<or> WriteBufferBytes t < 0) ErrInvalidBuffer (c\<lparr>tcp := t\<rparr>))"
| "apply_option (WithWebSocketConfig w) c =
     guarded (HandshakeTimeout w \<le> 0 \<or> WriteTimeout w \<le> 0 \<or> PongTimeout w \<le> 0 \<or> PingInterval w < 0 \<or> CloseTimeout w < 0)
       ErrInvalidWebSocketConfig
       (c\<lparr>ws := ws_defaults w, overrides := (overrides c)\<lparr>ovWSHandshake := True, ovWSWrite := True\<rparr>\<rparr>)"
| "apply_option (WithTimeouts t) c =
     (case normalizeTimeouts t of Inl err \<Rightarrow> Inl err | Inr n \<Rightarrow> Inr (c\<lparr>timeouts := n\<rparr>))"
| "apply_option (WithObserver b) c = Inr (c\<lparr>observing := b\<rparr>)"
| "apply_option (WithObserverBuffer n) c = guarded (n \<le> 0) ErrInvalidObserverBuffer (c\<lparr>observerBuffer := n\<rparr>)"
| "apply_option (WithWriteQueue n) c = guarded (n \<le> 0 \<or> n = max_int64) ErrInvalidQueueSize (c\<lparr>writeQueue := n\<rparr>)"
| "apply_option (WithMaxQueuedBytes n) c = guarded (n \<le> 0) ErrInvalidQueuedBytes (c\<lparr>maxQueuedBytes := n\<rparr>)"
| "apply_option (WithReadBuffer n) c = guarded (n \<le> 0) ErrInvalidBuffer (c\<lparr>readBuffer := n\<rparr>)"
| "apply_option (WithMaxBufferedRead n) c = guarded (n \<le> 0) ErrInvalidBuffer (c\<lparr>maxBufferedRead := n\<rparr>)"
| "apply_option (WithMaxMessageBytes n) c = guarded (n \<le> 0 \<or> n > 4294967295) ErrInvalidMessageSize (c\<lparr>maxMessageBytes := n\<rparr>)"
| "apply_option (WithMaxDatagramBytes n) c = guarded (n \<le> 0 \<or> n > 65507) ErrInvalidDatagramSize (c\<lparr>maxDatagramBytes := n\<rparr>)"

text \<open>A nil option is skipped.\<close>

fun apply_options :: "'f Option option list \<Rightarrow> 'f config \<Rightarrow> sentinel + 'f config" where
  "apply_options [] c = Inr c"
| "apply_options (None # opts) c = apply_options opts c"
| "apply_options (Some opt # opts) c = (case apply_option opt c of Inl err \<Rightarrow> Inl err | Inr c' \<Rightarrow> apply_options opts c')"

definition New_config :: "'f Option option list \<Rightarrow> sentinel + 'f config" where
  "New_config opts =
     (case apply_options opts defaultConfig of
        Inl err \<Rightarrow> Inl err
      | Inr c \<Rightarrow> guarded (Limits_validate (limits c) \<noteq> None) ErrInvalidLimits c)"

definition New_engine :: "'f Option option list \<Rightarrow> sentinel + ('f config \<times> engine)" where
  "New_engine opts = map_sum id (\<lambda>c. (c, newEngine (limits c))) (New_config opts)"

section \<open>What sessions derive\<close>

definition effectiveTLSHandshakeTimeout :: "'f config \<Rightarrow> int" where
  "effectiveTLSHandshakeTimeout c =
     (if ovTLSHandshake (overrides c) then tlsHandshakeTimeout c else Timeouts.Handshake (timeouts c))"

definition effectiveWSHandshakeTimeout :: "'f config \<Rightarrow> int" where
  "effectiveWSHandshakeTimeout c =
     (if ovWSHandshake (overrides c) then HandshakeTimeout (ws c) else Timeouts.Handshake (timeouts c))"

definition effectiveWSWriteTimeout :: "'f config \<Rightarrow> int" where
  "effectiveWSWriteTimeout c = (if ovWSWrite (overrides c) then WriteTimeout (ws c) else Write (timeouts c))"

definition newCipher :: "'f config \<Rightarrow> gerr + Cipher option" where
  "newCipher c =
     (case cipherFactory c of
        None \<Rightarrow> Inr (cipher c)
      | Some (Inl e) \<Rightarrow> Inl (FmtErrorf ''transport: create cipher: %w'' e)
      | Some (Inr None) \<Rightarrow> Inl (Sentinel ErrNilCipher)
      | Some (Inr (Some ci)) \<Rightarrow> Inr (Some ci))"

datatype 'f framer = Custom 'f | Wire_codec Codec

definition newFramer :: "'f config \<Rightarrow> gerr + 'f framer" where
  "newFramer c =
     (case framerFactory c of
        Some None \<Rightarrow> Inl (Sentinel ErrNilFramer)
      | Some (Some f) \<Rightarrow> Inr (Custom f)
      | None \<Rightarrow>
          (case newCipher c of
             Inl e \<Rightarrow> Inl e
           | Inr ci \<Rightarrow> Inr (Wire_codec ((New ci)\<lparr>MaxPayload := word_of_int (maxMessageBytes c)\<rparr>))))"

text \<open>
  The socket options of a connection, in the order of the calls; the first that fails ends the sequence.
  \<open>sys\<close> is what the operating system answers.
\<close>

datatype tcp_call = SetNoDelay bool | SetKeepAlive bool | SetKeepAlivePeriod int | SetReadBuffer int | SetWriteBuffer int

definition tcp_calls :: "TCPConfig \<Rightarrow> (string \<times> tcp_call) list" where
  "tcp_calls t =
     [(''transport: set TCP_NODELAY: %w'', SetNoDelay (NoDelay t)), (''transport: set TCP keepalive: %w'', SetKeepAlive (KeepAlive t))]
     @ (if KeepAlive t then [(''transport: set TCP keepalive period: %w'', SetKeepAlivePeriod (KeepAlivePeriod t))] else [])
     @ (if ReadBufferBytes t > 0 then [(''transport: set TCP read buffer: %w'', SetReadBuffer (ReadBufferBytes t))] else [])
     @ (if WriteBufferBytes t > 0 then [(''transport: set TCP write buffer: %w'', SetWriteBuffer (WriteBufferBytes t))] else [])"

fun run_calls :: "('a \<Rightarrow> gerr option) \<Rightarrow> (string \<times> 'a) list \<Rightarrow> gerr option" where
  "run_calls sys [] = None"
| "run_calls sys ((what, c) # cs) = (case sys c of Some err \<Rightarrow> Some (FmtErrorf what err) | None \<Rightarrow> run_calls sys cs)"

definition configureTCP :: "'f config \<Rightarrow> (tcp_call \<Rightarrow> gerr option) \<Rightarrow> gerr option" where
  "configureTCP c sys = run_calls sys (tcp_calls (tcp c))"

lemma run_calls_None: "run_calls sys cs = None \<longleftrightarrow> (\<forall>(what, c) \<in> set cs. sys c = None)"
  by (induction sys cs rule: run_calls.induct) (auto split: option.splits)

text \<open>
  TLS. A handshake runs under \<^verbatim>\<open>effectiveTLSHandshakeTimeout\<close>: \<open>caller\<close> and \<open>operation\<close> are the causes of the two contexts.
\<close>

definition tls_handshake :: "gerr option \<Rightarrow> gerr option \<Rightarrow> gerr option \<Rightarrow> gerr option" where
  "tls_handshake caller operation err = mapOperationTimeout caller operation TimeoutHandshake err"

definition VersionTLS13 :: nat where
  "VersionTLS13 = 772"

definition enforceTLS13 :: "tls_settings \<Rightarrow> sentinel + tls_settings" where
  "enforceTLS13 t =
     (if MinVersion t \<noteq> 0 \<and> MinVersion t < VersionTLS13 then Inl ErrTLSVersion
      else let t' = (if MinVersion t = 0 then t\<lparr>MinVersion := VersionTLS13\<rparr> else t) in
        if MaxVersion t' \<noteq> 0 \<and> MaxVersion t' < VersionTLS13 then Inl ErrTLSVersion else Inr t')"

definition no_tls :: tls_settings where
  "no_tls = \<lparr>MinVersion = 0, MaxVersion = 0, ServerName = [], Certificates = 0, GetCertificate = False, GetConfigForClient = False\<rparr>"

definition clientTLSConfig :: "'f config \<Rightarrow> string \<Rightarrow> sentinel + tls_settings" where
  "clientTLSConfig c host =
     (case enforceTLS13 (case clientTLS c of None \<Rightarrow> no_tls | Some t \<Rightarrow> t) of
        Inl err \<Rightarrow> Inl err
      | Inr t \<Rightarrow> Inr (if ServerName t = [] then t\<lparr>ServerName := host\<rparr> else t))"

definition serverTLSConfig :: "'f config \<Rightarrow> sentinel + tls_settings" where
  "serverTLSConfig c =
     (case serverTLS c of
        None \<Rightarrow> Inl ErrTLSConfigRequired
      | Some t0 \<Rightarrow>
          (case enforceTLS13 t0 of
             Inl err \<Rightarrow> Inl err
           | Inr t \<Rightarrow> if Certificates t = 0 \<and> \<not> GetCertificate t \<and> \<not> GetConfigForClient t
               then Inl ErrTLSCertificateRequired else Inr t))"

section \<open>Well-formed configurations\<close>

text \<open>What the sessions, the listeners and the dispatcher rely on.\<close>

definition codec_wf :: "'f config \<Rightarrow> bool" where
  "codec_wf c \<longleftrightarrow> (framerFactory c \<noteq> None \<longrightarrow> cipher c = None \<and> cipherFactory c = None)
     \<and> (cipherFactory c \<noteq> None \<longrightarrow> cipher c = None)"

definition sizes_wf :: "'f config \<Rightarrow> bool" where
  "sizes_wf c \<longleftrightarrow> 0 < writeQueue c \<and> writeQueue c \<noteq> max_int64 \<and> 0 < maxQueuedBytes c \<and> 0 < readBuffer c \<and> 0 < maxBufferedRead c
     \<and> 0 < maxMessageBytes c \<and> maxMessageBytes c < 2 ^ 32 \<and> 0 < maxDatagramBytes c \<and> maxDatagramBytes c \<le> 65507
     \<and> 0 < observerBuffer c"

definition times_wf :: "'f config \<Rightarrow> bool" where
  "times_wf c \<longleftrightarrow> 0 < Connect (timeouts c) \<and> 0 < Timeouts.Handshake (timeouts c) \<and> 0 < Write (timeouts c)
     \<and> 0 \<le> ReadIdle (timeouts c) \<and> 0 \<le> ConnectionIdle (timeouts c) \<and> 0 \<le> MaxLifetime (timeouts c)
     \<and> 0 < tlsHandshakeTimeout c \<and> 0 < HandshakeTimeout (ws c) \<and> 0 < WriteTimeout (ws c) \<and> 0 < CloseTimeout (ws c)
     \<and> 0 \<le> PingInterval (ws c) \<and> 0 < PongTimeout (ws c) \<and> (KeepAlive (tcp c) \<longrightarrow> 0 < KeepAlivePeriod (tcp c))
     \<and> 0 \<le> ReadBufferBytes (tcp c) \<and> 0 \<le> WriteBufferBytes (tcp c)"

definition config_wf :: "'f config \<Rightarrow> bool" where
  "config_wf c \<longleftrightarrow> codec_wf c \<and> sizes_wf c \<and> times_wf c \<and> Limits_validate (limits c) = None"

lemmas config_wf_defs = config_wf_def codec_wf_def sizes_wf_def times_wf_def

lemma default_wf: "config_wf defaultConfig"
  by (simp add: config_wf_defs defaultConfig_def Second_def defaultTimeout_def max_int64_def Limits_validate_def)

lemma guarded_Inr [simp]: "guarded bad err c = Inr c' \<longleftrightarrow> \<not> bad \<and> c' = c"
  by (auto simp: guarded_def)

lemma normalizeTimeouts_ok:
  assumes "normalizeTimeouts t = Inr n"
  shows "0 < Connect n" "0 < Timeouts.Handshake n" "0 < Write n" "0 \<le> ReadIdle n" "0 \<le> ConnectionIdle n" "0 \<le> MaxLifetime n"
  using assms by (auto simp: normalizeTimeouts_def defaultTimeout_def split: if_splits)

lemma apply_option_wf:
  assumes "config_wf c" and "apply_option opt c = Inr c'"
  shows "config_wf c'"
proof (cases opt)
  case (WithTimeouts t)
  then obtain n where "normalizeTimeouts t = Inr n" "c' = c\<lparr>timeouts := n\<rparr>"
    using assms(2) by (auto split: sum.splits)
  then show ?thesis using assms(1) normalizeTimeouts_ok [of t n] by (simp add: config_wf_defs)
next
  case (WithTCPConfig t)
  then show ?thesis using assms by (clarsimp simp: config_wf_defs not_less not_le split: if_splits)
next
  case (WithObserver b)
  then show ?thesis using assms by (clarsimp simp: config_wf_defs)
qed (use assms in \<open>simp_all add: config_wf_defs ws_defaults_def Second_def split: if_splits\<close>)

lemma apply_options_wf: "config_wf c \<Longrightarrow> apply_options opts c = Inr c' \<Longrightarrow> config_wf c'"
  by (induction opts c rule: apply_options.induct) (auto intro: apply_option_wf split: sum.splits)

lemma New_config_wf: "New_config opts = Inr c \<Longrightarrow> config_wf c"
  using apply_options_wf [OF default_wf] by (auto simp: New_config_def split: sum.splits)

section \<open>Correctness\<close>

lemma enforceTLS13_ok:
  "enforceTLS13 t = Inr t' \<Longrightarrow> VersionTLS13 \<le> MinVersion t' \<and> (MaxVersion t' = 0 \<or> VersionTLS13 \<le> MaxVersion t')"
  by (auto simp: enforceTLS13_def Let_def split: if_splits)

lemma newFramer_limit:
  assumes "config_wf c" and "newFramer c = Inr (Wire_codec f)"
  shows "uint (maxPayload f) = maxMessageBytes c \<and> framerFactory c = None"
proof -
  have b: "0 < maxMessageBytes c" "maxMessageBytes c < 2 ^ 32" using assms(1) by (auto simp: config_wf_defs)
  obtain ci where f: "f = (New ci)\<lparr>MaxPayload := word_of_int (maxMessageBytes c)\<rparr>" and none: "framerFactory c = None"
    using assms(2) by (auto simp: newFramer_def split: option.splits sum.splits)
  have u: "uint (word_of_int (maxMessageBytes c) :: u32) = maxMessageBytes c"
    using b by (simp add: uint_word_of_int take_bit_int_eq_self)
  then have "word_of_int (maxMessageBytes c) \<noteq> (0 :: u32)" using b(1) by (metis less_irrefl unsigned_0)
  then show ?thesis using u none by (simp add: f maxPayload_def)
qed

text \<open>
  C33. Whatever options \<^verbatim>\<open>New\<close> is given, in whatever order, the Engine it returns has a well-formed configuration:
  every size, queue and timeout is in its range, a custom framer and a message cipher are never combined, the
  limits are valid; and what sessions derive from it is in range too: the effective timeouts are positive, the
  codec's 32-bit payload limit is exactly the configured message size, and TLS 1.3 is the least version of every
  client and server, a server having a certificate.
\<close>

theorem options_wf:
  assumes "New_engine opts = Inr (c, e)"
  shows "config_wf c \<and> e = newEngine (limits c)
     \<and> 0 < effectiveTLSHandshakeTimeout c \<and> 0 < effectiveWSHandshakeTimeout c \<and> 0 < effectiveWSWriteTimeout c
     \<and> (\<forall>f. newFramer c = Inr (Wire_codec f) \<longrightarrow> uint (maxPayload f) = maxMessageBytes c \<and> framerFactory c = None)
     \<and> (\<forall>host t. clientTLSConfig c host = Inr t \<longrightarrow> VersionTLS13 \<le> MinVersion t \<and> (MaxVersion t = 0 \<or> VersionTLS13 \<le> MaxVersion t))
     \<and> (\<forall>t. serverTLSConfig c = Inr t \<longrightarrow> VersionTLS13 \<le> MinVersion t \<and> (MaxVersion t = 0 \<or> VersionTLS13 \<le> MaxVersion t)
          \<and> (0 < Certificates t \<or> GetCertificate t \<or> GetConfigForClient t))"
proof -
  have c: "New_config opts = Inr c" and e: "e = newEngine (limits c)"
    using assms by (auto simp: New_engine_def map_sum_def split: sum.splits)
  note wf = New_config_wf [OF c]
  have "0 < effectiveTLSHandshakeTimeout c" "0 < effectiveWSHandshakeTimeout c" "0 < effectiveWSWriteTimeout c"
    using wf by (simp_all add: config_wf_defs effectiveTLSHandshakeTimeout_def effectiveWSHandshakeTimeout_def
        effectiveWSWriteTimeout_def)
  moreover have "VersionTLS13 \<le> MinVersion t \<and> (MaxVersion t = 0 \<or> VersionTLS13 \<le> MaxVersion t)"
    if "clientTLSConfig c host = Inr t" for host t
    using that by (auto simp: clientTLSConfig_def split: sum.splits if_splits dest!: enforceTLS13_ok)
  moreover have "VersionTLS13 \<le> MinVersion t \<and> (MaxVersion t = 0 \<or> VersionTLS13 \<le> MaxVersion t)
      \<and> (0 < Certificates t \<or> GetCertificate t \<or> GetConfigForClient t)" if "serverTLSConfig c = Inr t" for t
    using that by (auto simp: serverTLSConfig_def split: sum.splits option.splits if_splits dest!: enforceTLS13_ok)
  ultimately show ?thesis using wf e newFramer_limit [OF wf] by blast
qed

definition demo_options :: "unit Option option list" where
  "demo_options = [Some (WithMaxMessageBytes 4294967295), None, Some (WithTimeouts
     \<lparr>Connect = 0, Timeouts.Handshake = 0, Write = 5, ReadIdle = 0, ConnectionIdle = 7, MaxLifetime = 0\<rparr>)]"

theorem options_wf_witness:
  "\<exists>c e f. New_engine demo_options = Inr (c, e) \<and> newFramer c = Inr (Wire_codec f) \<and> uint (maxPayload f) = 4294967295
     \<and> ConnectionIdle (timeouts c) = 7"
proof -
  obtain c e where c: "New_engine demo_options = Inr (c, e)" "maxMessageBytes c = 4294967295" "framerFactory c = None"
      "cipherFactory c = None" "ConnectionIdle (timeouts c) = 7"
    by (simp add: New_engine_def New_config_def demo_options_def normalizeTimeouts_def defaultConfig_def guarded_def
        Limits_validate_def)
  then obtain f where f: "newFramer c = Inr (Wire_codec f)" by (auto simp: newFramer_def newCipher_def)
  with options_wf [OF c(1)] c show ?thesis by metis
qed

text \<open>A custom framer after a cipher, or a cipher after a custom framer, is refused.\<close>

lemma codec_conflict:
  "New_config [Some (WithCipher (Some ci)), Some (WithFramerFactory (Some f))] = Inl ErrConflictingCodecOptions"
  "New_config [Some (WithFramerFactory (Some f)), Some (WithCipher (Some ci))] = Inl ErrConflictingCodecOptions"
  by (simp_all add: New_config_def guarded_def defaultConfig_def)

end
