(* ===== verification/Endpoint.thy ===== *)
theory Endpoint
  imports Go_Errors "HOL-Library.Word"
begin

text \<open>
  Endpoints (\<^verbatim>\<open>endpoint.go\<close>, and \<^verbatim>\<open>boundEndpoint\<close> of \<^verbatim>\<open>transport/tcp.go\<close>). The URL grammar of \<^verbatim>\<open>net/url\<close> stays outside: the model
  starts from the \<^verbatim>\<open>url.URL\<close> that \<^verbatim>\<open>url.Parse\<close> returns and ends at the one whose \<^verbatim>\<open>String\<close> method is called. What the code
  uses of \<^verbatim>\<open>strings\<close>, \<^verbatim>\<open>strconv\<close> and \<^verbatim>\<open>net\<close> on the way, the decimal ports and the splitting and joining of host and port
  included, is written out.
\<close>

section \<open>Standard library\<close>

definition lower :: "char \<Rightarrow> char" where
  "lower c = (if 65 \<le> (of_char c :: nat) \<and> (of_char c :: nat) \<le> 90 then char_of ((of_char c :: nat) + 32) else c)"

definition digit :: "nat \<Rightarrow> char" where
  "digit n = char_of (48 + n)"

definition is_digit :: "char \<Rightarrow> bool" where
  "is_digit c \<longleftrightarrow> 48 \<le> (of_char c :: nat) \<and> (of_char c :: nat) \<le> 57"

fun Itoa :: "nat \<Rightarrow> string" where
  "Itoa n = (if n < 10 then [digit n] else Itoa (n div 10) @ [digit (n mod 10)])"

declare Itoa.simps [simp del]

definition decimal :: "string \<Rightarrow> nat" where
  "decimal s = foldl (\<lambda>v c. 10 * v + (of_char c - 48)) 0 s"

text \<open>\<^verbatim>\<open>strconv.ParseUint(s, 10, 16)\<close>; \<open>None\<close> is a syntax or range error.\<close>

definition ParseUint16 :: "string \<Rightarrow> 16 word option" where
  "ParseUint16 s =
     (if s = [] \<or> \<not> list_all is_digit s \<or> decimal s > 65535 then None else Some (word_of_nat (decimal s)))"

text \<open>The text before and after the last colon.\<close>

fun split_last :: "string \<Rightarrow> (string \<times> string) option" where
  "split_last [] = None"
| "split_last (x # xs) =
     (case split_last xs of
        Some (a, b) \<Rightarrow> Some (x # a, b)
      | None \<Rightarrow> if x = CHR '':'' then Some ([], xs) else None)"

definition bracketed :: "string \<Rightarrow> bool" where
  "bracketed h \<longleftrightarrow> h \<noteq> [] \<and> hd h = CHR ''['' \<and> last h = CHR '']''"

definition strip :: "string \<Rightarrow> string" where
  "strip h = (if bracketed h then butlast (tl h) else h)"

text \<open>\<^verbatim>\<open>URL.Hostname\<close> and \<^verbatim>\<open>URL.Port\<close>.\<close>

definition split_host_port :: "string \<Rightarrow> string \<times> string" where
  "split_host_port s =
     (case split_last s of
        Some (a, b) \<Rightarrow> if list_all is_digit b then (strip a, b) else (strip s, [])
      | None \<Rightarrow> (strip s, []))"

definition JoinHostPort :: "string \<Rightarrow> string \<Rightarrow> string" where
  "JoinHostPort host port =
     (if CHR '':'' \<in> set host then ''['' @ host @ '']:'' @ port else host @ '':'' @ port)"

section \<open>Endpoints\<close>

definition SchemeTCP :: Scheme where "SchemeTCP = 1"
definition SchemeUDP :: Scheme where "SchemeUDP = 2"
definition SchemeTLS :: Scheme where "SchemeTLS = 3"
definition SchemeWS :: Scheme where "SchemeWS = 4"
definition SchemeWSS :: Scheme where "SchemeWSS = 5"

lemmas scheme_defs = SchemeTCP_def SchemeUDP_def SchemeTLS_def SchemeWS_def SchemeWSS_def

definition Scheme_String :: "Scheme \<Rightarrow> string" where
  "Scheme_String s =
     (if s = SchemeTCP then ''tcp'' else if s = SchemeUDP then ''udp'' else if s = SchemeTLS then ''tls''
      else if s = SchemeWS then ''ws'' else if s = SchemeWSS then ''wss'' else ''unknown'')"

definition IsSession :: "Scheme \<Rightarrow> bool" where
  "IsSession s \<longleftrightarrow> s = SchemeTCP \<or> s = SchemeTLS \<or> s = SchemeWS \<or> s = SchemeWSS"

definition IsPacket :: "Scheme \<Rightarrow> bool" where
  "IsPacket s \<longleftrightarrow> s = SchemeUDP"

record Endpoint =
  eScheme :: Scheme
  Host :: string
  Port :: "16 word"
  Path :: string
  RawQuery :: string

record url =
  uScheme :: string
  uHost :: string
  uUser :: bool
  uFragment :: string
  uPath :: string
  uRawQuery :: string

definition parseScheme :: "string \<Rightarrow> gerr + Scheme" where
  "parseScheme raw =
     (let s = map lower raw in
      if s = ''tcp'' then Inr SchemeTCP else if s = ''udp'' then Inr SchemeUDP else if s = ''tls'' then Inr SchemeTLS
      else if s = ''ws'' then Inr SchemeWS else if s = ''wss'' then Inr SchemeWSS
      else Inl (FmtErrorf ''%w: %s'' (Sentinel ErrUnsupportedScheme)))"

definition endpointPort :: "Scheme \<Rightarrow> string \<Rightarrow> gerr + 16 word" where
  "endpointPort scheme raw =
     (if raw = [] then
        if scheme = SchemeTLS \<or> scheme = SchemeWSS then Inr 443
        else if scheme = SchemeWS then Inr 80
        else Inl (Sentinel ErrMissingPort)
      else case ParseUint16 raw of
        None \<Rightarrow> Inl (FmtErrorf ''%w: invalid port %q'' (Sentinel ErrInvalidEndpoint))
      | Some v \<Rightarrow> Inr v)"

definition Endpoint_Validate :: "Endpoint \<Rightarrow> gerr option" where
  "Endpoint_Validate e =
     (if eScheme e = SchemeTCP \<or> eScheme e = SchemeUDP \<or> eScheme e = SchemeTLS then
        if Path e \<noteq> [] \<and> Path e \<noteq> ''/'' then Some (Sentinel ErrUnexpectedPath)
        else if RawQuery e \<noteq> [] then Some (Sentinel ErrUnexpectedQuery)
        else None
      else if eScheme e = SchemeWS \<or> eScheme e = SchemeWSS then
        if Path e = [] then Some (Sentinel ErrInvalidEndpoint) else None
      else Some (Sentinel ErrUnsupportedScheme))"

definition ValidateDial :: "Endpoint \<Rightarrow> gerr option" where
  "ValidateDial e =
     (case Endpoint_Validate e of
        Some err \<Rightarrow> Some err
      | None \<Rightarrow> if Host e = [] then Some (Sentinel ErrMissingHost)
          else if Port e = 0 then Some (Sentinel ErrMissingPort) else None)"

definition ParseEndpoint :: "gerr + url \<Rightarrow> gerr + Endpoint" where
  "ParseEndpoint parsed =
     (case parsed of
        Inl err \<Rightarrow> Inl (FmtErrorf ''%w: %v'' (Sentinel ErrInvalidEndpoint))
      | Inr u \<Rightarrow>
          if uScheme u = [] \<or> uHost u = [] \<or> uUser u \<or> uFragment u \<noteq> [] then Inl (Sentinel ErrInvalidEndpoint)
          else case parseScheme (uScheme u) of
            Inl err \<Rightarrow> Inl err
          | Inr scheme \<Rightarrow>
              (case endpointPort scheme (snd (split_host_port (uHost u))) of
                 Inl err \<Rightarrow> Inl err
               | Inr port \<Rightarrow>
                   let e = \<lparr>eScheme = scheme, Host = fst (split_host_port (uHost u)), Port = port,
                     Path = (if (scheme = SchemeWS \<or> scheme = SchemeWSS) \<and> uPath u = [] then ''/'' else uPath u),
                     RawQuery = uRawQuery u\<rparr> in
                   (case Endpoint_Validate e of Some err \<Rightarrow> Inl err | None \<Rightarrow> Inr e)))"

definition Address :: "Endpoint \<Rightarrow> string" where
  "Address e = JoinHostPort (Host e) (Itoa (unat (Port e)))"

definition defaultPort :: "Scheme \<Rightarrow> 16 word" where
  "defaultPort s = (if s = SchemeWS then 80 else if s = SchemeTLS \<or> s = SchemeWSS then 443 else 0)"

definition url_host :: "Endpoint \<Rightarrow> string" where
  "url_host e =
     (if defaultPort (eScheme e) = Port e \<and> Host e \<noteq> []
      then if CHR '':'' \<in> set (Host e) then ''['' @ Host e @ '']'' else Host e
      else Address e)"

definition Endpoint_URL :: "Endpoint \<Rightarrow> url" where
  "Endpoint_URL e = \<lparr>uScheme = Scheme_String (eScheme e), uHost = url_host e, uUser = False, uFragment = [],
     uPath = (if (eScheme e = SchemeWS \<or> eScheme e = SchemeWSS) \<and> Path e = [] then ''/'' else Path e),
     uRawQuery = RawQuery e\<rparr>"

definition WithPort :: "16 word \<Rightarrow> Endpoint \<Rightarrow> Endpoint" where
  "WithPort p e = e\<lparr>Port := p\<rparr>"

text \<open>\<open>addr\<close> is what \<^verbatim>\<open>net.SplitHostPort\<close> makes of the bound address.\<close>

definition boundEndpoint :: "Endpoint \<Rightarrow> (string \<times> string) option \<Rightarrow> Endpoint" where
  "boundEndpoint e addr =
     (case addr of
        None \<Rightarrow> e
      | Some (host, portText) \<Rightarrow>
          (case ParseUint16 portText of
             None \<Rightarrow> e
           | Some p \<Rightarrow>
               let e' = e\<lparr>Port := p\<rparr> in
               if Host e' \<noteq> [] \<and> Host e' \<noteq> ''0.0.0.0'' \<and> Host e' \<noteq> ''::'' then e' else e'\<lparr>Host := host\<rparr>))"

section \<open>Decimal ports\<close>

lemma of_digit [simp]: "n < 10 \<Longrightarrow> (of_char (digit n) :: nat) = 48 + n"
  by (simp add: digit_def)

lemma is_digit_digit [simp]: "n < 10 \<Longrightarrow> is_digit (digit n)"
  by (simp add: is_digit_def)

lemma Itoa_nonempty [simp]: "Itoa n \<noteq> []"
  by (subst Itoa.simps) auto

lemma Itoa_digits [simp]: "list_all is_digit (Itoa n)"
  by (induction n rule: Itoa.induct) (subst Itoa.simps, auto)

lemma decimal_Itoa [simp]: "decimal (Itoa n) = n"
proof (induction n rule: Itoa.induct)
  case (1 n)
  have "decimal (xs @ [digit d]) = 10 * decimal xs + d" if "d < 10" for xs d
    using that by (simp add: decimal_def)
  moreover have "decimal [digit n] = n" if "n < 10" using that by (simp add: decimal_def)
  ultimately show ?case using 1 by (subst Itoa.simps) auto
qed

lemma ParseUint16_Itoa [simp]: "ParseUint16 (Itoa (unat p)) = Some p"
proof -
  have "unat p < 2 ^ 16" using unsigned_less [of p] by simp
  then show ?thesis by (simp add: ParseUint16_def)
qed

section \<open>Hosts and ports\<close>

lemma split_last_None [simp]: "CHR '':'' \<notin> set s \<Longrightarrow> split_last s = None"
  by (induction s) auto

lemma split_last_colon: "CHR '':'' \<notin> set b \<Longrightarrow> split_last (a @ CHR '':'' # b) = Some (a, b)"
  by (induction a) auto

lemma digits_no_colon: "list_all is_digit b \<Longrightarrow> CHR '':'' \<notin> set b"
  by (auto simp: list_all_iff is_digit_def)

lemma split_last_suffix: "split_last s = Some (a, b) \<Longrightarrow> s = a @ CHR '':'' # b"
  by (induction s arbitrary: a) (auto split: option.splits if_splits)

lemma split_last_bracket:
  assumes "split_last (s @ '']'') = Some (a, b)" shows "\<not> list_all is_digit b"
proof -
  have "s @ '']'' = a @ CHR '':'' # b" by (rule split_last_suffix [OF assms])
  then have "CHR '']'' \<in> set b" by (cases b rule: rev_cases) auto
  then show ?thesis by (auto simp: list_all_iff is_digit_def intro!: bexI [of _ "CHR '']''"])
qed

lemma strip_brackets [simp]: "strip (CHR ''['' # s @ '']'') = s"
  by (simp add: strip_def bracketed_def butlast_append)

lemma strip_plain: "\<not> bracketed s \<Longrightarrow> strip s = s"
  by (simp add: strip_def)

lemma split_Join:
  assumes "\<not> bracketed host \<or> CHR '':'' \<in> set host" and "list_all is_digit port"
  shows "split_host_port (JoinHostPort host port) = (host, port)"
proof -
  have "split_host_port (a @ CHR '':'' # port) = (strip a, port)" for a
    using assms(2) by (simp add: split_host_port_def split_last_colon digits_no_colon)
  from this [of host] this [of "CHR ''['' # host @ '']''"] show ?thesis
    using assms(1) by (auto simp: JoinHostPort_def strip_plain)
qed

lemma split_bare:
  assumes "\<not> bracketed host \<or> CHR '':'' \<in> set host"
  shows "split_host_port (if CHR '':'' \<in> set host then ''['' @ host @ '']'' else host) = (host, [])"
proof (cases "CHR '':'' \<in> set host")
  case True
  have "\<not> list_all is_digit b" if "split_last (CHR ''['' # host @ '']'') = Some (a, b)" for a b
    using split_last_bracket [of "CHR ''['' # host" a b] that by simp
  with True show ?thesis by (auto simp: split_host_port_def split: option.splits)
qed (use assms in \<open>simp add: split_host_port_def strip_plain\<close>)

section \<open>Correctness\<close>

lemma parseScheme_String:
  assumes "Endpoint_Validate e = None"
  shows "parseScheme (Scheme_String (eScheme e)) = Inr (eScheme e)" "Scheme_String (eScheme e) \<noteq> []"
  using assms by (auto simp: Endpoint_Validate_def Scheme_String_def parseScheme_def lower_def scheme_defs split: if_splits)

text \<open>The endpoints whose text form keeps everything: the port of a TCP or UDP endpoint must not be an elided zero.\<close>

definition printable :: "Endpoint \<Rightarrow> bool" where
  "printable e \<longleftrightarrow> Endpoint_Validate e = None \<and> (\<not> bracketed (Host e) \<or> CHR '':'' \<in> set (Host e))
     \<and> \<not> ((eScheme e = SchemeTCP \<or> eScheme e = SchemeUDP) \<and> Port e = 0 \<and> Host e \<noteq> [])"

lemma url_host_split:
  assumes "printable e"
  shows "url_host e \<noteq> []" "fst (split_host_port (url_host e)) = Host e"
    "endpointPort (eScheme e) (snd (split_host_port (url_host e))) = Inr (Port e)"
proof -
  have b: "\<not> bracketed (Host e) \<or> CHR '':'' \<in> set (Host e)" using assms by (simp add: printable_def)
  show "url_host e \<noteq> []" by (auto simp: url_host_def Address_def JoinHostPort_def)
  have "fst (split_host_port (url_host e)) = Host e
      \<and> endpointPort (eScheme e) (snd (split_host_port (url_host e))) = Inr (Port e)"
  proof (cases "defaultPort (eScheme e) = Port e \<and> Host e \<noteq> []")
    case True
    then have "split_host_port (url_host e) = (Host e, [])" using split_bare [OF b] by (simp add: url_host_def)
    moreover have "eScheme e = SchemeTLS \<or> eScheme e = SchemeWSS \<or> eScheme e = SchemeWS"
      using True assms by (auto simp: printable_def defaultPort_def Endpoint_Validate_def split: if_splits)
    ultimately show ?thesis using True by (auto simp: endpointPort_def defaultPort_def scheme_defs)
  next
    case False
    then have "url_host e = Address e" by (auto simp: url_host_def)
    then show ?thesis using split_Join [OF b, of "Itoa (unat (Port e))"] by (simp add: Address_def endpointPort_def)
  qed
  then show "fst (split_host_port (url_host e)) = Host e"
    "endpointPort (eScheme e) (snd (split_host_port (url_host e))) = Inr (Port e)" by auto
qed



text \<open>The text form of a TCP endpoint that asks for any free port is not an endpoint.\<close>

lemma port_zero_lost:
  assumes "Endpoint_Validate e = None" "eScheme e = SchemeTCP" "Port e = 0" "Host e \<noteq> []"
    and "\<not> bracketed (Host e) \<or> CHR '':'' \<in> set (Host e)"
  shows "ParseEndpoint (Inr (Endpoint_URL e)) = Inl (Sentinel ErrMissingPort)"
proof -
  have "defaultPort (eScheme e) = Port e" using assms(2,3) by (simp add: defaultPort_def scheme_defs)
  then have "split_host_port (url_host e) = (Host e, [])" "url_host e \<noteq> []"
    using split_bare [OF assms(5)] assms(4) by (simp_all add: url_host_def)
  then show ?thesis
    using parseScheme_String [OF assms(1)] assms(2)
    by (simp add: ParseEndpoint_def Endpoint_URL_def endpointPort_def scheme_defs)
qed

text \<open>A listener's endpoint keeps what was asked for, with the port that was bound.\<close>

lemma boundEndpoint_fields [simp]:
  "eScheme (boundEndpoint e addr) = eScheme e" "Path (boundEndpoint e addr) = Path e" "RawQuery (boundEndpoint e addr) = RawQuery e"
  by (simp_all add: boundEndpoint_def Let_def split: option.splits prod.splits)

lemma boundEndpoint_valid: "Endpoint_Validate (boundEndpoint e addr) = Endpoint_Validate e"
  by (simp add: Endpoint_Validate_def)

lemma boundEndpoint_port: "Port (boundEndpoint e (Some (h, Itoa (unat p)))) = p"
  by (simp add: boundEndpoint_def Let_def)

end
