(* ===== verification/Conn_Setup.thy ===== *)
theory Conn_Setup
  imports Error_Model Options Endpoint
begin

text \<open>
  How sessions, packet connections and listeners come to be: \<^verbatim>\<open>Dial\<close>, \<^verbatim>\<open>Listen\<close>, \<^verbatim>\<open>DialPacket\<close>, \<^verbatim>\<open>ListenPacket\<close>, the stream
  listener's \<^verbatim>\<open>handleAccepted\<close> and \<^verbatim>\<open>acceptLoop\<close>, the WebSocket upgrade handler and the WebSocket client's dial.
  Each is a function from what its calls return (the operating system, the TLS and WebSocket libraries, the
  Engine's own admission and tracking, which other goroutines influence) to its effects, in order, and its
  result: the error, or \<open>None\<close> for the session. \<open>settled\<close> replays the effects and demands that everything acquired
  is given back or handed to the new session.
\<close>

section \<open>Effects\<close>

datatype EventKind = EventConnect | EventHandshake | EventAccept

text \<open>
  \<open>GiveLease\<close> hands the lease and \<open>Track\<close> a new lease to the Engine's table of sessions; sockets are numbered in the
  order of their creation. The \<^verbatim>\<open>bool\<close> of an event tells whether it names the new session.
\<close>

datatype eff = BeginOp | EndOp | AcqLease | RelLease | GiveLease | Track | AcqHandshake | RelHandshake | AcqUpgrade | RelUpgrade
  | OpenSock nat | CloseSock nat | CloseListener gerr | is_Emit: Emit EventKind bool "gerr option"

record held =
  ops :: nat
  leases :: nat
  handshakes :: nat
  upgrades :: nat
  socks :: "nat list"
  tracked :: bool

definition nothing :: held where
  "nothing = \<lparr>ops = 0, leases = 0, handshakes = 0, upgrades = 0, socks = [], tracked = False\<rparr>"

text \<open>
  Only what is held can be given back, and an operation ends only when nothing acquired in it is left: \<^verbatim>\<open>endOp\<close> decides
  whether a shutdown is complete.
\<close>

fun apply_eff :: "eff \<Rightarrow> held \<Rightarrow> held option" where
  "apply_eff BeginOp h = Some (h\<lparr>ops := ops h + 1\<rparr>)"
| "apply_eff EndOp h = (if 0 < ops h \<and> leases h = 0 \<and> handshakes h = 0 \<and> upgrades h = 0 then Some (h\<lparr>ops := ops h - 1\<rparr>) else None)"
| "apply_eff AcqLease h = Some (h\<lparr>leases := leases h + 1\<rparr>)"
| "apply_eff RelLease h = (if 0 < leases h then Some (h\<lparr>leases := leases h - 1\<rparr>) else None)"
| "apply_eff GiveLease h = (if 0 < leases h \<and> \<not> tracked h then Some (h\<lparr>leases := leases h - 1, tracked := True\<rparr>) else None)"
| "apply_eff Track h = (if tracked h then None else Some (h\<lparr>tracked := True\<rparr>))"
| "apply_eff AcqHandshake h = Some (h\<lparr>handshakes := handshakes h + 1\<rparr>)"
| "apply_eff RelHandshake h = (if 0 < handshakes h then Some (h\<lparr>handshakes := handshakes h - 1\<rparr>) else None)"
| "apply_eff AcqUpgrade h = Some (h\<lparr>upgrades := upgrades h + 1\<rparr>)"
| "apply_eff RelUpgrade h = (if 0 < upgrades h then Some (h\<lparr>upgrades := upgrades h - 1\<rparr>) else None)"
| "apply_eff (OpenSock i) h = (if i \<in> set (socks h) then None else Some (h\<lparr>socks := i # socks h\<rparr>))"
| "apply_eff (CloseSock i) h = Some (h\<lparr>socks := removeAll i (socks h)\<rparr>)"
| "apply_eff (CloseListener e) h = Some h"
| "apply_eff (Emit k b e) h = Some h"

fun replay :: "eff list \<Rightarrow> held \<Rightarrow> held option" where
  "replay [] h = Some h"
| "replay (x # xs) h = (case apply_eff x h of None \<Rightarrow> None | Some h' \<Rightarrow> replay xs h')"

definition settled :: "eff list \<times> gerr option \<Rightarrow> bool" where
  "settled tr_r \<longleftrightarrow> (case tr_r of (tr, r) \<Rightarrow>
     case replay tr nothing of
       None \<Rightarrow> False
     | Some h \<Rightarrow> ops h = 0 \<and> leases h = 0 \<and> handshakes h = 0 \<and> upgrades h = 0
         \<and> (if r = None then tracked h \<and> length (socks h) = 1 else \<not> tracked h \<and> socks h = []))"

section \<open>Outcomes of calls\<close>

text \<open>
  \<open>cause0\<close> and \<open>cause1\<close> are successive readings of \<^verbatim>\<open>context.Cause\<close> of the caller's context, \<open>bounded\<close> that of the context with
  the timeout.
\<close>

record env =
  plat :: "Op \<Rightarrow> gerr \<Rightarrow> (ErrorKind \<times> sentinel) option"
  closeStatus :: "gerr \<Rightarrow> int"
  observed :: bool
  cause0 :: "gerr option"
  cause1 :: "gerr option"
  bounded :: "gerr option"
  laddr :: "net_addr option"
  raddr :: "net_addr option"

definition op_error :: "env \<Rightarrow> Op \<Rightarrow> Scheme \<Rightarrow> classifyHint \<Rightarrow> gerr \<Rightarrow> gerr option" where
  "op_error env op scheme hint e = classifyOperational (plat env) (closeStatus env) op scheme (laddr env) (raddr env) (Some e) hint"

definition op_error_unbound :: "env \<Rightarrow> Op \<Rightarrow> Scheme \<Rightarrow> gerr option \<Rightarrow> gerr option" where
  "op_error_unbound env op scheme e = classifyOperational (plat env) (closeStatus env) op scheme None None e hintNone"

definition emits :: "env \<Rightarrow> eff list \<Rightarrow> eff list" where
  "emits env evs = (if observed env then evs else [])"

section \<open>Sockets\<close>

record tcp_outcome =
  t_dial :: "gerr option"
  t_istcp :: bool
  t_configure :: "gerr option"

definition dialTCP :: "env \<Rightarrow> Scheme \<Rightarrow> tcp_outcome \<Rightarrow> eff list \<times> gerr option" where
  "dialTCP env scheme t =
     (case t_dial t of
        Some err \<Rightarrow>
          ([], case cause1 env of
                 Some c \<Rightarrow> Some c
               | None \<Rightarrow> op_error_unbound env OpDial scheme (mapOperationTimeout (cause0 env) (bounded env) TimeoutConnect (Some err)))
      | None \<Rightarrow>
          if \<not> t_istcp t
          then ([OpenSock 0, CloseSock 0], op_error env OpDial scheme hintNone (ErrorString ''transport: tcp dial returned %T''))
          else case t_configure t of
            Some err \<Rightarrow> ([OpenSock 0, CloseSock 0], op_error env OpDial scheme hintNone err)
          | None \<Rightarrow> ([OpenSock 0], None))"

definition listenTCP :: "env \<Rightarrow> Scheme \<Rightarrow> gerr option \<Rightarrow> bool \<Rightarrow> eff list \<times> gerr option" where
  "listenTCP env scheme rlisten istcp =
     (case rlisten of
        Some err \<Rightarrow> ([], case cause0 env of Some c \<Rightarrow> Some c | None \<Rightarrow> op_error_unbound env OpListen scheme (Some err))
      | None \<Rightarrow>
          if \<not> istcp
          then ([OpenSock 0, CloseSock 0],
            classifyOperational (plat env) (closeStatus env) OpListen scheme (laddr env) None
              (Some (ErrorString ''transport: tcp listen returned %T'')) hintNone)
          else ([OpenSock 0], None))"

section \<open>Stream sessions\<close>

record stream_outcome =
  s_lease :: "gerr option"
  s_tls :: "sentinel option"
  s_handshake_slot :: "gerr option"
  s_handshake :: "gerr option"
  s_framer :: "gerr option"
  s_add :: "gerr option"

text \<open>\<^verbatim>\<open>adoptStreamWithLease\<close>: what \<^verbatim>\<open>newFramer\<close> and \<^verbatim>\<open>addStreamWithLease\<close> answer.\<close>

definition adoptStreamWithLease :: "stream_outcome \<Rightarrow> gerr option" where
  "adoptStreamWithLease x = (case s_framer x of Some err \<Rightarrow> Some err | None \<Rightarrow> s_add x)"

definition adopt_stream :: "env \<Rightarrow> Scheme \<Rightarrow> stream_outcome \<Rightarrow> bool \<Rightarrow> eff list \<times> gerr option" where
  "adopt_stream env scheme x handshakeComplete =
     (case adoptStreamWithLease x of
        Some err \<Rightarrow>
          (emits env (Emit EventConnect False None # (if handshakeComplete then [Emit EventHandshake False None] else [])) @ [CloseSock 0],
           if errors_is err ErrClosed \<or> errors_is err ErrResourceExhausted then op_error env OpDial scheme hintNone err else Some err)
      | None \<Rightarrow>
          (GiveLease # emits env (Emit EventConnect True None # (if handshakeComplete then [Emit EventHandshake True None] else [])),
           None))"

definition dial_secured :: "env \<Rightarrow> Scheme \<Rightarrow> stream_outcome \<Rightarrow> eff list \<times> gerr option" where
  "dial_secured env scheme x =
     (if scheme \<noteq> SchemeTLS then adopt_stream env scheme x False
      else case s_tls x of
        Some err \<Rightarrow> (emits env [Emit EventConnect False None] @ [CloseSock 0], Some (Sentinel err))
      | None \<Rightarrow>
          (case s_handshake_slot x of
             Some err \<Rightarrow>
               let opErr = op_error env OpHandshake scheme hintNone err in
               (emits env [Emit EventConnect False None, Emit EventHandshake False opErr] @ [CloseSock 0], opErr)
           | None \<Rightarrow>
               (case s_handshake x of
                  Some err \<Rightarrow>
                    let opErr = (case cause0 env of Some c \<Rightarrow> Some c | None \<Rightarrow> op_error env OpHandshake scheme hintTLSHandshake err) in
                    ([AcqHandshake, RelHandshake, CloseSock 0]
                       @ emits env [Emit EventConnect False None, Emit EventHandshake False opErr], opErr)
                | None \<Rightarrow> apfst (\<lambda>tr. [AcqHandshake, RelHandshake] @ tr) (adopt_stream env scheme x True))))"

text \<open>The deferred release runs when the lease was not transferred.\<close>

definition with_lease :: "eff list \<times> gerr option \<Rightarrow> eff list \<times> gerr option" where
  "with_lease p = (case p of (tr, r) \<Rightarrow> (AcqLease # tr @ (if r = None then [] else [RelLease]), r))"

definition dialStream :: "env \<Rightarrow> Scheme \<Rightarrow> tcp_outcome \<Rightarrow> stream_outcome \<Rightarrow> eff list \<times> gerr option" where
  "dialStream env scheme t x =
     (case dialTCP env scheme t of
        (tr, Some err) \<Rightarrow> (tr @ emits env [Emit EventConnect False (Some err)], Some err)
      | (tr, None) \<Rightarrow>
          (case s_lease x of
             Some err \<Rightarrow>
               (tr @ emits env [Emit EventConnect False None] @ [CloseSock 0], op_error env OpDial scheme hintNone err)
           | None \<Rightarrow> apfst (append tr) (with_lease (dial_secured env scheme x))))"

text \<open>
  The accepting side. \<^verbatim>\<open>prepare\<close> is the TLS handshake under a handshake slot; \<^verbatim>\<open>handleAccepted\<close> runs as one Engine
  operation and closes the listener when a session cannot be built for a reason of its own.
\<close>

definition prepare :: "stream_outcome \<Rightarrow> eff list \<times> gerr option" where
  "prepare x =
     (case s_handshake_slot x of
        Some err \<Rightarrow> ([], Some err)
      | None \<Rightarrow> ([AcqHandshake, RelHandshake], s_handshake x))"

definition accept_adopt :: "env \<Rightarrow> Scheme \<Rightarrow> bool \<Rightarrow> stream_outcome \<Rightarrow> eff list \<times> gerr option" where
  "accept_adopt env scheme prepared x =
     (case adoptStreamWithLease x of
        Some err \<Rightarrow>
          (CloseSock 0 # (if \<not> errors_is err ErrClosed \<and> \<not> errors_is err ErrResourceExhausted then [CloseListener err] else []), Some err)
      | None \<Rightarrow>
          (GiveLease # emits env ((if prepared then [Emit EventHandshake True None] else []) @ [Emit EventAccept True None]), None))"

definition accept_prepared :: "env \<Rightarrow> Scheme \<Rightarrow> bool \<Rightarrow> stream_outcome \<Rightarrow> eff list \<times> gerr option" where
  "accept_prepared env scheme tls x =
     (if \<not> tls then accept_adopt env scheme False x
      else case prepare x of
        (tr, Some err) \<Rightarrow>
          (tr @ emits env [Emit EventHandshake False (op_error env OpHandshake scheme hintTLSHandshake err)] @ [CloseSock 0], Some err)
      | (tr, None) \<Rightarrow> apfst (append tr) (accept_adopt env scheme True x))"

definition handleAccepted :: "env \<Rightarrow> Scheme \<Rightarrow> bool \<Rightarrow> gerr option \<Rightarrow> stream_outcome \<Rightarrow> eff list \<times> gerr option" where
  "handleAccepted env scheme tls rbegin x =
     (case rbegin of
        Some err \<Rightarrow> ([OpenSock 0, CloseSock 0], Some err)
      | None \<Rightarrow>
          (case s_lease x of
             Some err \<Rightarrow> ([OpenSock 0, BeginOp, CloseSock 0, EndOp], Some err)
           | None \<Rightarrow> apfst (\<lambda>tr. [OpenSock 0, BeginOp] @ tr @ [EndOp]) (with_lease (accept_prepared env scheme tls x))))"

definition listenStream :: "env \<Rightarrow> Scheme \<Rightarrow> gerr option \<Rightarrow> bool \<Rightarrow> sentinel option \<Rightarrow> gerr option \<Rightarrow> eff list \<times> gerr option" where
  "listenStream env scheme rlisten istcp rtls radd =
     (case listenTCP env scheme rlisten istcp of
        (tr, Some err) \<Rightarrow> (tr, Some err)
      | (tr, None) \<Rightarrow>
          (case if scheme = SchemeTLS then rtls else None of
             Some err \<Rightarrow> (tr @ [CloseSock 0], Some (Sentinel err))
           | None \<Rightarrow>
               (case radd of
                  Some err \<Rightarrow> (tr @ [CloseSock 0], Some err)
                | None \<Rightarrow> (tr @ [Track], None))))"

section \<open>The accept loop\<close>

text \<open>
  What \<^verbatim>\<open>Accept\<close> returns in one turn: a connection, which \<^verbatim>\<open>configureTCP\<close> accepts or not; an error while the listener
  is closing; a temporary error, after which the wait runs to its end or is cut short; another error.
\<close>

datatype accepted = Conn bool | Closing | Temporary bool | Fatal gerr

definition Millisecond :: int where
  "Millisecond = 1000000"

definition backoff :: "int \<Rightarrow> int" where
  "backoff delay = (if delay = 0 then 5 * Millisecond else if delay * 2 > Second then Second else delay * 2)"

definition normalizeListenerError :: "gerr \<Rightarrow> gerr option" where
  "normalizeListenerError err = (if errors_is err NetErrClosed then None else Some err)"

text \<open>The waits, the number of connections handed to \<^verbatim>\<open>handleAccepted\<close>, and the argument of the last \<^verbatim>\<open>initiateClose\<close>, if the loop ended.\<close>

fun acceptLoop :: "env \<Rightarrow> Scheme \<Rightarrow> int \<Rightarrow> accepted list \<Rightarrow> int list \<times> nat \<times> gerr option option" where
  "acceptLoop env scheme delay [] = ([], 0, None)"
| "acceptLoop env scheme delay (Conn ok # xs) =
     apsnd (apfst (\<lambda>n. if ok then n + 1 else n)) (acceptLoop env scheme 0 xs)"
| "acceptLoop env scheme delay (Closing # xs) = ([], 0, Some None)"
| "acceptLoop env scheme delay (Temporary waited # xs) =
     (let d = backoff delay in
      if waited then apfst (Cons d) (acceptLoop env scheme d xs) else ([d], 0, Some None))"
| "acceptLoop env scheme delay (Fatal err # xs) =
     ([], 0, Some (case normalizeListenerError err of
        None \<Rightarrow> None
      | Some e \<Rightarrow> classifyOperational (plat env) (closeStatus env) OpAccept scheme (laddr env) None (Some e) hintNone))"

text \<open>\<^verbatim>\<open>initiateClose\<close> and \<^verbatim>\<open>finalize\<close> of the listener; both run their body once.\<close>

record listener_state =
  lclosing :: bool
  lerr :: "gerr option"
  ldone :: bool
  lremoved :: nat

definition initiateClose :: "gerr option \<Rightarrow> listener_state \<Rightarrow> listener_state" where
  "initiateClose cause l =
     (if lclosing l then l
      else l\<lparr>lclosing := True, lerr := (case cause of
        None \<Rightarrow> lerr l
      | Some c \<Rightarrow>
          (case if errors_as is_Error c \<noteq> None then Some c else normalizeListenerError c of None \<Rightarrow> lerr l | Some c' \<Rightarrow> Some c'))\<rparr>)"

definition finalize :: "listener_state \<Rightarrow> listener_state" where
  "finalize l = (if ldone l then l else (initiateClose None l)\<lparr>ldone := True, lremoved := lremoved l + 1\<rparr>)"

text \<open>
  \<^verbatim>\<open>configuredTCPListener.Accept\<close>, given what the underlying listener returns and how \<^verbatim>\<open>configureTCP\<close> ends; the first argument
  numbers the sockets. The result is None while it waits.
\<close>

datatype tcp_accepted = AcceptErr gerr | NotTCP | ConfigureErr gerr | Configured

fun configuredAccept :: "nat \<Rightarrow> tcp_accepted list \<Rightarrow> eff list \<times> (gerr + nat) option" where
  "configuredAccept i [] = ([], None)"
| "configuredAccept i (AcceptErr err # xs) = ([], Some (Inl err))"
| "configuredAccept i (NotTCP # xs) = apfst (\<lambda>tr. OpenSock i # CloseSock i # tr) (configuredAccept (i + 1) xs)"
| "configuredAccept i (ConfigureErr err # xs) = apfst (\<lambda>tr. OpenSock i # CloseSock i # tr) (configuredAccept (i + 1) xs)"
| "configuredAccept i (Configured # xs) = ([OpenSock i], Some (Inr i))"

text \<open>
  The WebSocket listener: \<^verbatim>\<open>Close\<close>, whose body runs once, and the goroutine that serves until \<^verbatim>\<open>http.Server.Serve\<close> returns.
  \<open>is_closed\<close> recognises \<^verbatim>\<open>http.ErrServerClosed\<close>; \<open>w_stopped\<close> tells that the context, the server, the listener and the tracker have been closed.
\<close>

record ws_listener =
  wl_closing :: bool
  w_stopped :: bool
  wl_err :: "gerr option"
  wl_done :: bool
  w_removed :: nat

definition ignore_closed :: "(gerr \<Rightarrow> bool) \<Rightarrow> gerr option \<Rightarrow> gerr option" where
  "ignore_closed is_closed err =
     (case err of
        None \<Rightarrow> None
      | Some e \<Rightarrow> if is_closed e \<or> errors_is e NetErrClosed then None else Some e)"

definition ws_Close :: "(gerr \<Rightarrow> bool) \<Rightarrow> gerr option \<Rightarrow> ws_listener \<Rightarrow> gerr option \<times> ws_listener" where
  "ws_Close is_closed rserver l =
     (if wl_closing l then (None, l) else (ignore_closed is_closed rserver, l\<lparr>wl_closing := True, w_stopped := True\<rparr>))"

definition serve_returns :: "(gerr \<Rightarrow> bool) \<Rightarrow> gerr option \<Rightarrow> gerr option \<Rightarrow> ws_listener \<Rightarrow> ws_listener" where
  "serve_returns is_closed rserve rserver l =
     (let l' = snd (ws_Close is_closed rserver (l\<lparr>wl_err := ignore_closed is_closed rserve\<rparr>)) in
      l'\<lparr>wl_done := True, w_removed := w_removed l' + 1\<rparr>)"

section \<open>Packet connections\<close>

definition listenPacket :: "env \<Rightarrow> gerr option \<Rightarrow> bool \<Rightarrow> gerr option \<Rightarrow> eff list \<times> gerr option" where
  "listenPacket env rlisten isudp radd =
     (let fail = (\<lambda>e. classifyOperational (plat env) (closeStatus env) OpListen SchemeUDP (laddr env) None (Some e) hintNone) in
      case rlisten of
        Some err \<Rightarrow> ([], case cause0 env of Some c \<Rightarrow> Some c | None \<Rightarrow> op_error_unbound env OpListen SchemeUDP (Some err))
      | None \<Rightarrow>
          if \<not> isudp then ([OpenSock 0, CloseSock 0], fail (ErrorString ''transport: UDP listen returned %T''))
          else case radd of
            Some err \<Rightarrow> ([OpenSock 0, CloseSock 0], fail err)
          | None \<Rightarrow> ([OpenSock 0, Track], None))"

definition dialPacket :: "env \<Rightarrow> gerr option \<Rightarrow> bool \<Rightarrow> bool \<Rightarrow> gerr option \<Rightarrow> eff list \<times> gerr option" where
  "dialPacket env rdial isudp remoteudp radd =
     (case rdial of
        Some err \<Rightarrow>
          ([], case cause1 env of
                 Some c \<Rightarrow> Some c
               | None \<Rightarrow> op_error_unbound env OpDial SchemeUDP (mapOperationTimeout (cause0 env) (bounded env) TimeoutConnect (Some err)))
      | None \<Rightarrow>
          if \<not> isudp
          then ([OpenSock 0, CloseSock 0], op_error env OpDial SchemeUDP hintNone (ErrorString ''transport: UDP dial returned %T''))
          else if \<not> remoteudp
          then ([OpenSock 0, CloseSock 0], op_error env OpDial SchemeUDP hintNone (ErrorString ''transport: UDP remote returned %T''))
          else case radd of
            Some err \<Rightarrow> ([OpenSock 0, CloseSock 0], op_error env OpDial SchemeUDP hintNone err)
          | None \<Rightarrow> ([OpenSock 0, Track], None))"

section \<open>WebSocket sessions, server side\<close>

record upgrade_outcome =
  u_path :: bool
  u_begin :: "gerr option"
  u_holder :: bool
  u_slot :: "gerr option"
  u_accept :: "gerr option"
  u_take :: bool
  u_cipher :: "gerr option"
  u_add :: "gerr option"

text \<open>One turn of \<^verbatim>\<open>admittedHTTPListener.Accept\<close>: the tracker becomes the owner of the lease before the operation ends.\<close>

definition admittedAccept :: "gerr option \<Rightarrow> gerr option \<Rightarrow> eff list \<times> gerr option" where
  "admittedAccept rbegin rlease =
     (case rbegin of
        Some err \<Rightarrow> ([OpenSock 0, CloseSock 0], Some err)
      | None \<Rightarrow>
          (case rlease of
             Some err \<Rightarrow> ([OpenSock 0, BeginOp, EndOp, CloseSock 0], Some err)
           | None \<Rightarrow> ([OpenSock 0, BeginOp, AcqLease, GiveLease, EndOp], None)))"

definition unavailable :: gerr where
  "unavailable = ErrorString ''service unavailable''"

text \<open>
  The handler of \<^verbatim>\<open>listenWebSocket\<close>. From \<^verbatim>\<open>websocket.Accept\<close> on it owns the hijacked connection, from \<^verbatim>\<open>takeWithPhysical\<close>
  on the lease as well.
\<close>

definition serve_taken :: "env \<Rightarrow> upgrade_outcome \<Rightarrow> eff list \<times> gerr option" where
  "serve_taken env u =
     (case u_cipher u of
        Some err \<Rightarrow> ([CloseSock 0, RelLease, CloseSock 0], Some err)
      | None \<Rightarrow>
          (case u_add u of
             Some err \<Rightarrow> ([CloseSock 0, RelLease, CloseSock 0], Some err)
           | None \<Rightarrow> (GiveLease # emits env [Emit EventHandshake True None, Emit EventAccept True None], None)))"

definition serve_upgrade :: "env \<Rightarrow> Scheme \<Rightarrow> upgrade_outcome \<Rightarrow> eff list \<times> gerr option" where
  "serve_upgrade env scheme u =
     (if \<not> u_holder u then ([], Some unavailable)
      else case u_slot u of
        Some err \<Rightarrow> (emits env [Emit EventHandshake False (op_error env OpUpgrade scheme hintNone err)], Some err)
      | None \<Rightarrow>
          (case u_accept u of
             Some err \<Rightarrow> ([AcqUpgrade, RelUpgrade] @ emits env [Emit EventHandshake False (op_error env OpUpgrade scheme hintWSUpgrade err)], Some err)
           | None \<Rightarrow>
               if \<not> u_take u then ([AcqUpgrade, OpenSock 0, RelUpgrade, CloseSock 0], Some unavailable)
               else apfst (\<lambda>tr. [AcqUpgrade, OpenSock 0, RelUpgrade, AcqLease] @ tr) (serve_taken env u)))"

definition upgradeHandler :: "env \<Rightarrow> Scheme \<Rightarrow> upgrade_outcome \<Rightarrow> eff list \<times> gerr option" where
  "upgradeHandler env scheme u =
     (if \<not> u_path u then ([], Some (ErrorString ''404 page not found''))
      else case u_begin u of
        Some err \<Rightarrow> ([], Some err)
      | None \<Rightarrow> apfst (\<lambda>tr. BeginOp # tr @ [EndOp]) (serve_upgrade env scheme u))"

definition listenWebSocket ::
  "env \<Rightarrow> bool \<Rightarrow> Endpoint \<Rightarrow> gerr option \<Rightarrow> bool \<Rightarrow> sentinel option \<Rightarrow> gerr option \<Rightarrow> eff list \<times> gerr option"
where
  "listenWebSocket env customFramer e rlisten istcp rtls radd =
     (if customFramer then ([], Some (Sentinel ErrFramerNotSupported))
      else if RawQuery e \<noteq> [] then ([], Some (Sentinel ErrInvalidWebSocketConfig))
      else case listenTCP env (eScheme e) rlisten istcp of
        (tr, Some err) \<Rightarrow> (tr, Some err)
      | (tr, None) \<Rightarrow>
          (case if eScheme e = SchemeWSS then rtls else None of
             Some err \<Rightarrow> (tr @ [CloseSock 0], Some (Sentinel err))
           | None \<Rightarrow>
               (case radd of
                  Some err \<Rightarrow> (tr @ [CloseSock 0], Some err)
                | None \<Rightarrow> (tr @ [Track], None))))"

section \<open>WebSocket sessions, client side\<close>

text \<open>
  \<^verbatim>\<open>wsDialAdmission\<close> carries the admitted connection from the dial callback of the HTTP transport to \<^verbatim>\<open>dialWebSocket\<close>;
  \<open>w_connect\<close> is \<open>Some\<close> the connect error once \<^verbatim>\<open>recordConnect\<close> ran, \<open>w_known\<close> whether it has addresses.
\<close>

record wsDialAdmission =
  w_lease :: bool
  w_physical :: "nat option"
  w_connect :: "gerr option option"
  w_known :: bool

definition newAdmission :: wsDialAdmission where
  "newAdmission = \<lparr>w_lease = False, w_physical = None, w_connect = None, w_known = False\<rparr>"

definition recordConnect :: "gerr option \<Rightarrow> wsDialAdmission \<Rightarrow> wsDialAdmission" where
  "recordConnect err w = (if w_connect w = None then w\<lparr>w_connect := Some err, w_known := (err = None)\<rparr> else w)"

definition adm_set :: "nat \<Rightarrow> wsDialAdmission \<Rightarrow> bool \<times> wsDialAdmission" where
  "adm_set i w = (if w_lease w then (False, w) else (True, w\<lparr>w_lease := True, w_physical := Some i, w_known := True\<rparr>))"

definition adm_take :: "wsDialAdmission \<Rightarrow> (bool \<times> nat option) \<times> wsDialAdmission" where
  "adm_take w = ((w_lease w, w_physical w), w\<lparr>w_lease := False, w_physical := None\<rparr>)"

definition close_physical :: "nat option \<Rightarrow> eff list" where
  "close_physical p = (case p of None \<Rightarrow> [] | Some i \<Rightarrow> [CloseSock i])"

definition adm_release :: "wsDialAdmission \<Rightarrow> eff list \<times> wsDialAdmission" where
  "adm_release w = (case adm_take w of ((lease, p), w') \<Rightarrow> (close_physical p @ (if lease then [RelLease] else []), w'))"

record attempt =
  a_dial :: "gerr option"
  a_configure :: "gerr option"
  a_lease :: "gerr option"
  a_slot :: "gerr option"
  a_handshake :: "gerr option"

definition dialRaw :: "env \<Rightarrow> attempt \<Rightarrow> nat \<Rightarrow> wsDialAdmission \<Rightarrow> eff list \<times> gerr option \<times> wsDialAdmission" where
  "dialRaw env a i w =
     (let note = (\<lambda>err. if observed env then recordConnect err w else w) in
      case a_dial a of
        Some err \<Rightarrow>
          let mapped = mapOperationTimeout (cause0 env) (bounded env) TimeoutConnect (Some err) in ([], mapped, note mapped)
      | None \<Rightarrow>
          (case a_configure a of
             Some err \<Rightarrow> ([OpenSock i, CloseSock i], Some err, note None)
           | None \<Rightarrow>
               (case a_lease a of
                  Some err \<Rightarrow> ([OpenSock i, CloseSock i], Some err, note None)
                | None \<Rightarrow> ([OpenSock i, AcqLease], None, note None))))"

definition admit :: "nat \<Rightarrow> wsDialAdmission \<Rightarrow> eff list \<times> wsDialAdmission" where
  "admit i w = (case adm_set i w of (True, w') \<Rightarrow> ([], w') | (False, w') \<Rightarrow> ([RelLease, CloseSock i], w'))"

text \<open>\<^verbatim>\<open>DialContext\<close> and \<^verbatim>\<open>DialTLSContext\<close> of the transport.\<close>

definition dial_attempt :: "env \<Rightarrow> bool \<Rightarrow> attempt \<Rightarrow> nat \<Rightarrow> wsDialAdmission \<Rightarrow> eff list \<times> wsDialAdmission" where
  "dial_attempt env tls a i w =
     (case dialRaw env a i w of
        (tr, Some err, w') \<Rightarrow> (tr, w')
      | (tr, None, w') \<Rightarrow>
          if \<not> tls then apfst (append tr) (admit i w')
          else if a_slot a \<noteq> None then (tr @ [RelLease, CloseSock i], w')
          else if a_handshake a \<noteq> None then (tr @ [AcqHandshake, RelHandshake, RelLease, CloseSock i], w')
          else apfst (\<lambda>tr'. tr @ [AcqHandshake, RelHandshake] @ tr') (admit i w'))"

fun dial_attempts :: "env \<Rightarrow> bool \<Rightarrow> attempt list \<Rightarrow> nat \<Rightarrow> wsDialAdmission \<Rightarrow> eff list \<times> wsDialAdmission" where
  "dial_attempts env tls [] i w = ([], w)"
| "dial_attempts env tls (a # as) i w =
     (case dial_attempt env tls a i w of (tr, w') \<Rightarrow> apfst (append tr) (dial_attempts env tls as (i + 1) w'))"

record ws_outcome =
  c_upgrade :: "gerr option"
  c_tls :: "sentinel option"
  c_attempts :: "attempt list"
  c_dial :: "gerr option"
  c_cipher :: "gerr option"
  c_add :: "gerr option"

text \<open>The errors of an upgrade carry the addresses \<^verbatim>\<open>connectInfo\<close> returns, which is asked only for an observer.\<close>

definition noted :: "env \<Rightarrow> wsDialAdmission \<Rightarrow> net_addr option \<Rightarrow> net_addr option" where
  "noted env w a = (if observed env \<and> w_known w then a else None)"

definition noted_error :: "env \<Rightarrow> Op \<Rightarrow> Scheme \<Rightarrow> wsDialAdmission \<Rightarrow> classifyHint \<Rightarrow> gerr \<Rightarrow> gerr option" where
  "noted_error env op scheme w hint e =
     classifyOperational (plat env) (closeStatus env) op scheme (noted env w (laddr env)) (noted env w (raddr env)) (Some e) hint"

definition upgrade_error :: "env \<Rightarrow> Scheme \<Rightarrow> wsDialAdmission \<Rightarrow> gerr \<Rightarrow> gerr option" where
  "upgrade_error env scheme w err =
     (case cause0 env of
        Some c \<Rightarrow> Some c
      | None \<Rightarrow>
          let e = (if isTimeoutFailure err \<and> errors_as is_TimeoutError err = None then TimeoutErr TimeoutHandshake (Some err) else err);
              r = noted_error env OpUpgrade scheme w hintWSUpgrade e
          in if scheme \<noteq> SchemeWSS then r
             else case Option.bind r (errors_as is_Error) of
               Some (OpErr op pr kind l rem c) \<Rightarrow> if kind = ErrorTLS then Some (OpErr OpHandshake pr kind l rem c) else r
             | _ \<Rightarrow> r)"

definition upgrade_events :: "env \<Rightarrow> Scheme \<Rightarrow> wsDialAdmission \<Rightarrow> gerr option \<Rightarrow> eff list" where
  "upgrade_events env scheme w r =
     (case w_connect w of
        None \<Rightarrow> []
      | Some (Some e) \<Rightarrow> emits env [Emit EventConnect False (noted_error env OpDial scheme w hintNone e)]
      | Some None \<Rightarrow> emits env [Emit EventConnect False None, Emit EventHandshake False r])"

definition ws_dialled :: "env \<Rightarrow> Scheme \<Rightarrow> ws_outcome \<Rightarrow> wsDialAdmission \<Rightarrow> eff list \<times> gerr option \<times> wsDialAdmission" where
  "ws_dialled env scheme x w =
     (case c_dial x of
        Some err \<Rightarrow> let r = upgrade_error env scheme w err in (upgrade_events env scheme w r, r, w)
      | None \<Rightarrow>
          (case c_cipher x of
             Some err \<Rightarrow> (close_physical (w_physical w), noted_error env OpUpgrade scheme w hintNone err, w)
           | None \<Rightarrow>
               (case adm_take w of
                  ((False, p), w') \<Rightarrow>
                    (close_physical p, noted_error env OpUpgrade scheme w hintNone
                       (ErrorString ''transport: websocket dial completed without connection admission''), w')
                | ((True, p), w') \<Rightarrow>
                    (case c_add x of
                       Some err \<Rightarrow>
                         (close_physical p @ [RelLease] @ close_physical p, op_error env OpUpgrade scheme hintNone err, w')
                     | None \<Rightarrow>
                         (GiveLease # emits env [Emit EventConnect True None, Emit EventHandshake True None], None, w')))))"

definition dialWebSocket :: "env \<Rightarrow> bool \<Rightarrow> Scheme \<Rightarrow> ws_outcome \<Rightarrow> eff list \<times> gerr option" where
  "dialWebSocket env customFramer scheme x =
     (if customFramer then ([], Some (Sentinel ErrFramerNotSupported))
      else case c_upgrade x of
        Some err \<Rightarrow> ([], op_error_unbound env OpUpgrade scheme (Some err))
      | None \<Rightarrow>
          (case if scheme = SchemeWSS then c_tls x else None of
             Some err \<Rightarrow> ([AcqUpgrade, RelUpgrade], Some (Sentinel err))
           | None \<Rightarrow>
               (case dial_attempts env (scheme = SchemeWSS) (c_attempts x) 0 newAdmission of
                  (tr, w) \<Rightarrow>
                    (case ws_dialled env scheme x w of
                       (tr', r, w') \<Rightarrow> ([AcqUpgrade] @ tr @ tr' @ fst (adm_release w') @ [RelUpgrade], r)))))"

section \<open>The interface\<close>

definition as_operation :: "gerr option \<Rightarrow> eff list \<times> gerr option \<Rightarrow> eff list \<times> gerr option" where
  "as_operation rbegin p =
     (case rbegin of Some err \<Rightarrow> ([], Some err) | None \<Rightarrow> apfst (\<lambda>tr. BeginOp # tr @ [EndOp]) p)"

definition guard :: "bool \<Rightarrow> gerr option \<Rightarrow> bool \<Rightarrow> eff list \<times> gerr option \<Rightarrow> eff list \<times> gerr option" where
  "guard nilctx invalid supported p =
     (if nilctx then ([], Some (Sentinel ErrNilContext))
      else case invalid of
        Some err \<Rightarrow> ([], Some err)
      | None \<Rightarrow> if \<not> supported then ([], Some (Sentinel ErrProtocolMismatch)) else p)"

definition Dial ::
  "env \<Rightarrow> bool \<Rightarrow> bool \<Rightarrow> Endpoint \<Rightarrow> gerr option \<Rightarrow> tcp_outcome \<Rightarrow> stream_outcome \<Rightarrow> ws_outcome \<Rightarrow> eff list \<times> gerr option"
where
  "Dial env nilctx customFramer e rbegin t x y =
     guard nilctx (ValidateDial e) (IsSession (eScheme e))
       (as_operation rbegin
          (if eScheme e = SchemeTCP \<or> eScheme e = SchemeTLS then dialStream env (eScheme e) t x
           else if eScheme e = SchemeWS \<or> eScheme e = SchemeWSS then dialWebSocket env customFramer (eScheme e) y
           else ([], Some (Sentinel ErrProtocolMismatch))))"

definition Listen ::
  "env \<Rightarrow> bool \<Rightarrow> bool \<Rightarrow> Endpoint \<Rightarrow> gerr option \<Rightarrow> gerr option \<Rightarrow> bool \<Rightarrow> sentinel option \<Rightarrow> gerr option \<Rightarrow> eff list \<times> gerr option"
where
  "Listen env nilctx customFramer e rbegin rlisten istcp rtls radd =
     guard nilctx (Endpoint_Validate e) (IsSession (eScheme e))
       (as_operation rbegin
          (if eScheme e = SchemeTCP \<or> eScheme e = SchemeTLS then listenStream env (eScheme e) rlisten istcp rtls radd
           else if eScheme e = SchemeWS \<or> eScheme e = SchemeWSS then listenWebSocket env customFramer e rlisten istcp rtls radd
           else ([], Some (Sentinel ErrProtocolMismatch))))"

definition ListenPacket :: "env \<Rightarrow> bool \<Rightarrow> Endpoint \<Rightarrow> gerr option \<Rightarrow> gerr option \<Rightarrow> bool \<Rightarrow> gerr option \<Rightarrow> eff list \<times> gerr option" where
  "ListenPacket env nilctx e rbegin rlisten isudp radd =
     guard nilctx (Endpoint_Validate e) (eScheme e = SchemeUDP) (as_operation rbegin (listenPacket env rlisten isudp radd))"

definition DialPacket :: "env \<Rightarrow> bool \<Rightarrow> Endpoint \<Rightarrow> gerr option \<Rightarrow> gerr option \<Rightarrow> bool \<Rightarrow> bool \<Rightarrow> gerr option \<Rightarrow> eff list \<times> gerr option" where
  "DialPacket env nilctx e rbegin rdial isudp remoteudp radd =
     guard nilctx (ValidateDial e) (eScheme e = SchemeUDP) (as_operation rbegin (dialPacket env rdial isudp remoteudp radd))"

section \<open>Balance\<close>

text \<open>\<open>runs p h ok bad\<close>: replaying the effects of \<open>p\<close> in \<open>h\<close> leads to \<open>ok\<close> when it succeeds and to \<open>bad\<close> when it fails.\<close>

definition runs :: "eff list \<times> gerr option \<Rightarrow> held \<Rightarrow> held \<Rightarrow> held \<Rightarrow> bool" where
  "runs p h ok bad \<longleftrightarrow> replay (fst p) h = Some (if snd p = None then ok else bad)"

abbreviation holding :: "nat \<Rightarrow> nat \<Rightarrow> nat \<Rightarrow> nat list \<Rightarrow> bool \<Rightarrow> held" where
  "holding b l u s t \<equiv> \<lparr>ops = b, leases = l, handshakes = 0, upgrades = u, socks = s, tracked = t\<rparr>"

lemma replay_append [simp]: "replay (xs @ ys) h = Option.bind (replay xs h) (replay ys)"
  by (induction xs arbitrary: h) (auto split: option.splits)

lemma replay_emits [simp]: "list_all is_Emit evs \<Longrightarrow> replay (emits env evs) h = Some h"
  by (induction evs) (auto simp: emits_def is_Emit_def)

lemma classify_Some [simp]: "classifyOperational pl st op sc l r (Some e) hint \<noteq> None"
  by (auto simp: classifyOperational_def envelopeOperational_def split: prod.splits)

lemma op_error_Some [simp]: "op_error env op scheme hint e \<noteq> None" "op_error_unbound env op scheme (Some e) \<noteq> None"
    "noted_error env op scheme w hint e \<noteq> None"
  by (simp_all add: op_error_def op_error_unbound_def noted_error_def del: not_None_eq)

lemma op_error_ex [simp]: "\<exists>y. op_error env op scheme hint e = Some y" "\<exists>y. op_error_unbound env op scheme (Some e) = Some y"
    "\<exists>y. noted_error env op scheme w hint e = Some y"
  using op_error_Some by (simp_all only: not_None_eq)

lemma mapped_Some: "\<exists>x. mapOperationTimeout p q k (Some e) = Some x"
  by (auto simp: mapOperationTimeout_def split: option.splits)

lemma op_error_mapped [simp]: "op_error_unbound env op scheme (mapOperationTimeout p q k (Some e)) \<noteq> None"
  using mapped_Some [of p q k e] by (metis op_error_Some(2))

lemma dialTCP_runs: "runs (dialTCP env scheme t) (holding b 0 u [] False) (holding b 0 u [0] False) (holding b 0 u [] False)"
  by (auto simp: runs_def dialTCP_def simp del: not_None_eq split: option.splits)

lemma listenTCP_runs: "runs (listenTCP env scheme r i) (holding b 0 u [] False) (holding b 0 u [0] False) (holding b 0 u [] False)"
  by (auto simp: runs_def listenTCP_def simp del: not_None_eq split: option.splits)

lemma adopt_stream_runs:
  "runs (adopt_stream env scheme x hc) (holding b 1 u [0] False) (holding b 0 u [0] True) (holding b 1 u [] False)"
  by (auto simp: runs_def adopt_stream_def simp del: not_None_eq split: option.splits)

lemma dial_secured_runs:
  "runs (dial_secured env scheme x) (holding b 1 u [0] False) (holding b 0 u [0] True) (holding b 1 u [] False)"
  using adopt_stream_runs [of env scheme x _ b u]
  by (auto simp: runs_def dial_secured_def Let_def simp del: not_None_eq split: option.splits)

lemma accept_adopt_runs:
  "runs (accept_adopt env scheme pr x) (holding b 1 u [0] False) (holding b 0 u [0] True) (holding b 1 u [] False)"
  by (auto simp: runs_def accept_adopt_def split: option.splits)

lemma accept_prepared_runs:
  "runs (accept_prepared env scheme tls x) (holding b 1 u [0] False) (holding b 0 u [0] True) (holding b 1 u [] False)"
  using accept_adopt_runs [of env scheme _ x b u]
  by (auto simp: runs_def accept_prepared_def prepare_def split: option.splits)

lemma with_lease_runs:
  assumes "runs p (holding b 1 u [0] False) (holding b 0 u [0] True) (holding b 1 u [] False)"
  shows "runs (with_lease p) (holding b 0 u [0] False) (holding b 0 u [0] True) (holding b 0 u [] False)"
  using assms by (auto simp: runs_def with_lease_def split: prod.splits)

lemma dialStream_runs:
  "runs (dialStream env scheme t x) (holding b 0 u [] False) (holding b 0 u [0] True) (holding b 0 u [] False)"
  using dialTCP_runs [of env scheme t b u] with_lease_runs [OF dial_secured_runs [of env scheme x b u]]
  by (auto simp: runs_def dialStream_def simp del: not_None_eq split: prod.splits option.splits)

text \<open>From nothing to one tracked connection, or back to nothing.\<close>

definition opens :: "eff list \<times> gerr option \<Rightarrow> nat \<Rightarrow> nat \<Rightarrow> bool" where
  "opens p b u \<longleftrightarrow> (\<exists>i. runs p (holding b 0 u [] False) (holding b 0 u [i] True) (holding b 0 u [] False))"

lemma opens_settled: "opens p 0 0 \<Longrightarrow> settled p"
  by (auto simp: opens_def runs_def settled_def nothing_def split: prod.splits)

lemma opens_fail [simp]: "opens ([], Some err) b u"
  by (simp add: opens_def runs_def)

lemma opens_operation: "opens p (Suc b) 0 \<Longrightarrow> opens (as_operation rbegin p) b 0"
  by (auto simp: opens_def runs_def as_operation_def split: option.splits)

lemma opens_guard: "opens p b u \<Longrightarrow> opens (guard nilctx invalid supported p) b u"
  by (auto simp: guard_def split: option.splits)

lemma dialStream_opens: "opens (dialStream env scheme t x) b u"
  unfolding opens_def using dialStream_runs [of env scheme t x b u] by blast

lemma listenStream_opens: "opens (listenStream env scheme rl i rt ra) b u"
  using listenTCP_runs [of env scheme rl i b u]
  by (auto simp: opens_def runs_def listenStream_def split: prod.splits option.splits)

lemma listenWebSocket_opens: "opens (listenWebSocket env cf e rl i rt ra) b u"
  using listenTCP_runs [of env "eScheme e" rl i b u]
  by (auto simp: opens_def runs_def listenWebSocket_def split: prod.splits option.splits)

lemma listenPacket_opens: "opens (listenPacket env rl i ra) b u"
  by (auto simp: opens_def runs_def listenPacket_def Let_def simp del: not_None_eq split: option.splits)

lemma dialPacket_opens: "opens (dialPacket env rd i j ra) b u"
  by (auto simp: opens_def runs_def dialPacket_def simp del: not_None_eq split: option.splits)

lemma handleAccepted_opens: "opens (handleAccepted env scheme tls rb x) 0 0"
  using with_lease_runs [OF accept_prepared_runs [of env scheme tls x 1 0]]
  by (auto simp: opens_def runs_def handleAccepted_def split: option.splits)

lemma admittedAccept_opens: "opens (admittedAccept rb rl) 0 0"
  by (auto simp: opens_def runs_def admittedAccept_def split: option.splits)

lemma serve_upgrade_opens: "opens (serve_upgrade env scheme u) b 0"
  by (auto simp: opens_def runs_def serve_upgrade_def serve_taken_def split: option.splits)

lemma upgradeHandler_opens: "opens (upgradeHandler env scheme u) 0 0"
  using serve_upgrade_opens [of env scheme u 1]
  by (auto simp: opens_def runs_def upgradeHandler_def split: option.splits)

text \<open>What the dial callbacks leave in \<^verbatim>\<open>wsDialAdmission\<close> is all they hold.\<close>

definition adm_wf :: "nat \<Rightarrow> wsDialAdmission \<Rightarrow> bool" where
  "adm_wf i w \<longleftrightarrow> (w_lease w \<longleftrightarrow> w_physical w \<noteq> None) \<and> (\<forall>j. w_physical w = Some j \<longrightarrow> j < i)"

abbreviation adm_held :: "nat \<Rightarrow> nat \<Rightarrow> wsDialAdmission \<Rightarrow> held" where
  "adm_held b u w \<equiv> holding b (of_bool (w_lease w)) u (case w_physical w of None \<Rightarrow> [] | Some i \<Rightarrow> [i]) False"

lemma recordConnect_fields [simp]:
  "w_lease (recordConnect err w) = w_lease w" "w_physical (recordConnect err w) = w_physical w"
  by (simp_all add: recordConnect_def)

lemma dialRaw_held:
  assumes "adm_wf i w" and "dialRaw env a i w = (tr, r, w')"
  shows "w_lease w' = w_lease w" "w_physical w' = w_physical w"
    "replay tr (adm_held b u w) =
       Some (if r \<noteq> None then adm_held b u w
             else holding b (Suc (of_bool (w_lease w))) u (i # (case w_physical w of None \<Rightarrow> [] | Some j \<Rightarrow> [j])) False)"
  using assms by (auto simp: adm_wf_def dialRaw_def Let_def intro: mapped_Some split: option.splits if_splits)

lemma admit_held:
  assumes "adm_wf i w" and "admit i w = (tr, w')"
  shows "replay tr (holding b (Suc (of_bool (w_lease w))) u (i # (case w_physical w of None \<Rightarrow> [] | Some j \<Rightarrow> [j])) False)
      = Some (adm_held b u w')" "adm_wf (Suc i) w'"
  using assms by (cases "w_physical w"; fastforce simp: adm_wf_def admit_def adm_set_def)+

lemma dial_attempt_held:
  assumes w: "adm_wf i w" and d: "dial_attempt env tls a i w = (tr, w')"
  shows "replay tr (adm_held b u w) = Some (adm_held b u w') \<and> adm_wf (Suc i) w'"
proof -
  obtain tr1 r w1 where raw: "dialRaw env a i w = (tr1, r, w1)" by (cases "dialRaw env a i w")
  note h = dialRaw_held(1,2) [OF w raw] dialRaw_held(3) [OF w raw, of b u]
  have w1: "adm_wf i w1" "adm_wf (Suc i) w1" using w h(1,2) by (auto simp: adm_wf_def less_Suc_eq)
  have up: "removeAll i (case w_physical w of None \<Rightarrow> [] | Some j \<Rightarrow> [j]) = (case w_physical w of None \<Rightarrow> [] | Some j \<Rightarrow> [j])"
    using w by (auto simp: adm_wf_def split: option.splits)
  obtain tr2 w2 where ad: "admit i w1 = (tr2, w2)" by (cases "admit i w1")
  note a = admit_held(1) [OF w1(1) ad, of b u] admit_held(2) [OF w1(1) ad]
  show ?thesis
  proof (cases r)
    case None
    then show ?thesis using d raw h a w1 ad up by (auto simp: dial_attempt_def split: if_splits)
  next
    case (Some err)
    then show ?thesis using d raw h w1 by (simp add: dial_attempt_def)
  qed
qed

lemma dial_attempts_held:
  "adm_wf i w \<Longrightarrow> dial_attempts env tls as i w = (tr, w') \<Longrightarrow>
     replay tr (adm_held b u w) = Some (adm_held b u w') \<and> (\<exists>j. adm_wf j w')"
proof (induction env tls as i w arbitrary: tr rule: dial_attempts.induct)
  case (2 env tls a as i w)
  obtain tr1 w1 where 1: "dial_attempt env tls a i w = (tr1, w1)" by fastforce
  obtain tr2 where 2: "dial_attempts env tls as (i + 1) w1 = (tr2, w')" "tr = tr1 @ tr2"
    using "2.prems"(2) 1 by (cases "dial_attempts env tls as (i + 1) w1") auto
  note h = dial_attempt_held [OF "2.prems"(1) 1]
  show ?case using "2.IH" [OF 1 [symmetric] _ 2(1)] h 2(2) by auto
qed auto

lemma upgrade_error_Some [simp]: "upgrade_error env scheme w err \<noteq> None"
  by (auto simp: upgrade_error_def Let_def simp del: not_None_eq split: option.splits gerr.splits)

lemma upgrade_error_ex [simp]: "\<exists>y. upgrade_error env scheme w err = Some y"
  using upgrade_error_Some by (simp only: not_None_eq)

lemma upgrade_events_replay [simp]: "replay (upgrade_events env scheme w r) h = Some h"
  by (auto simp: upgrade_events_def split: option.splits)

lemma ws_dialled_held:
  assumes "adm_wf j w" and "ws_dialled env scheme x w = (tr, r, w')"
  shows "\<exists>i. replay (tr @ fst (adm_release w')) (adm_held b u w)
    = Some (if r = None then holding b 0 u [i] True else holding b 0 u [] False)"
  using assms
  by (cases "w_physical w")
     (auto simp: adm_wf_def ws_dialled_def adm_take_def adm_release_def close_physical_def Let_def simp del: not_None_eq
       split: option.splits if_splits)

lemma dialWebSocket_opens: "opens (dialWebSocket env cf scheme x) b 0"
proof -
  obtain tr w where d: "dial_attempts env (scheme = SchemeWSS) (c_attempts x) 0 newAdmission = (tr, w)" by fastforce
  obtain tr' r w' where e: "ws_dialled env scheme x w = (tr', r, w')" by (cases "ws_dialled env scheme x w")
  have "adm_wf 0 newAdmission" by (simp add: adm_wf_def newAdmission_def)
  from dial_attempts_held [OF this d, of b "Suc 0"]
  obtain j where t: "replay tr (holding b 0 (Suc 0) [] False) = Some (adm_held b (Suc 0) w)" and j: "adm_wf j w"
    by (auto simp: newAdmission_def)
  obtain i where "replay (tr' @ fst (adm_release w')) (adm_held b (Suc 0) w)
      = Some (if r = None then holding b 0 (Suc 0) [i] True else holding b 0 (Suc 0) [] False)"
    using ws_dialled_held [OF j e, of b "Suc 0"] by blast
  then have l: "replay (tr @ tr' @ fst (adm_release w')) (holding b 0 (Suc 0) [] False)
      = Some (if r = None then holding b 0 (Suc 0) [i] True else holding b 0 (Suc 0) [] False)" using t by simp
  have "runs (AcqUpgrade # l @ [RelUpgrade], r) (holding b 0 0 [] False) (holding b 0 0 [i] True) (holding b 0 0 [] False)"
    if "replay l (holding b 0 (Suc 0) [] False)
      = Some (if r = None then holding b 0 (Suc 0) [i] True else holding b 0 (Suc 0) [] False)" for l
    using that by (simp add: runs_def split: if_splits)
  from this [OF l] have "opens ([AcqUpgrade] @ tr @ tr' @ fst (adm_release w') @ [RelUpgrade], r) b 0"
    by (auto simp: opens_def simp del: replay_append)
  moreover have "opens ([AcqUpgrade, RelUpgrade], Some err) b 0" for err by (simp add: opens_def runs_def)
  moreover have "opens ([], op_error_unbound env OpUpgrade scheme (Some err)) b 0" for err
    by (simp add: opens_def runs_def del: not_None_eq)
  ultimately show ?thesis using d e by (auto simp: dialWebSocket_def split: option.splits)
qed

section \<open>Correctness\<close>

fun event_of :: "eff \<Rightarrow> EventKind list" where
  "event_of (Emit k b e) = [k]"
| "event_of _ = []"

definition events_of :: "eff list \<Rightarrow> EventKind list" where
  "events_of tr = concat (map event_of tr)"

lemma events_emits [simp]: "events_of (xs @ ys) = events_of xs @ events_of ys" "events_of (x # xs) = event_of x @ events_of xs"
  "events_of [] = []"
  by (simp_all add: events_of_def)

lemma emits_events: "events_of (emits env evs) = (if observed env then events_of evs else [])"
  by (simp add: emits_def)

lemma dial_secured_events:
  "events_of (fst (dial_secured env scheme x)) = (if \<not> observed env then []
     else if scheme = SchemeTLS \<and> s_tls x = None then [EventConnect, EventHandshake] else [EventConnect])"
proof -
  have "events_of (fst (adopt_stream env sch x hc))
      = (if observed env then EventConnect # (if hc then [EventHandshake] else []) else [])" for sch hc
    by (cases "adoptStreamWithLease x") (simp_all add: adopt_stream_def emits_events)
  then show ?thesis
    by (cases "s_tls x"; cases "s_handshake_slot x"; cases "s_handshake x")
       (simp_all add: dial_secured_def emits_events Let_def)
qed

lemma dialStream_events:
  "events_of (fst (dialStream env scheme t x)) \<in> (if observed env then {[EventConnect], [EventConnect, EventHandshake]} else {[]})"
proof -
  obtain tr r where d: "dialTCP env scheme t = (tr, r)" by fastforce
  then have "events_of tr = []" by (auto simp: dialTCP_def split: option.splits if_splits)
  moreover have "events_of (fst (with_lease p)) = events_of (fst p)" for p
    by (simp add: with_lease_def split: prod.splits)
  ultimately show ?thesis
    using d by (cases r; cases "s_lease x") (simp_all add: dialStream_def emits_events dial_secured_events)
qed


text \<open>
  The dial callback runs in a goroutine of the HTTP transport, which does not wait for it when the request is
  given up. A connection it admits after the deferred \<^verbatim>\<open>release\<close> stays in \<^verbatim>\<open>wsDialAdmission\<close>, and nobody releases its lease.
\<close>

lemma late_dial_leaks:
  assumes "adm_wf i w" and "a_dial a = None" "a_configure a = None" "a_lease a = None"
  shows "\<exists>w'. dial_attempt env False a i (snd (adm_release w)) = ([OpenSock i, AcqLease], w') \<and> w_lease w'
    \<and> replay [OpenSock i, AcqLease] (holding 0 0 0 [] False) = Some (holding 0 1 0 [i] False)"
  using assms by (auto simp: dial_attempt_def dialRaw_def admit_def adm_set_def adm_release_def adm_take_def recordConnect_def)

text \<open>Only the socket that \<^verbatim>\<open>Accept\<close> of a listener returns stays open.\<close>

lemma configuredAccept_sockets:
  "replay (fst (configuredAccept i xs)) (holding b l u [] t)
     = Some (holding b l u (case snd (configuredAccept i xs) of Some (Inr j) \<Rightarrow> [j] | _ \<Rightarrow> []) t)"
  by (induction i xs rule: configuredAccept.induct) simp_all

lemma ws_listener_once:
  "wl_closing l \<Longrightarrow> ws_Close f r l = (None, l)"
  "\<not> wl_closing l \<Longrightarrow> w_stopped (serve_returns f rs r l) \<and> wl_done (serve_returns f rs r l)
     \<and> w_removed (serve_returns f rs r l) = w_removed l + 1 \<and> wl_err (serve_returns f rs r l) = ignore_closed f rs"
  by (simp_all add: ws_Close_def serve_returns_def)

section \<open>The listener\<close>

text \<open>The waits of the accept loop are between five milliseconds and a second, and each doubles the one before up to that.\<close>

lemma acceptLoop_waits:
  "acceptLoop env scheme delay xs = (waits, n, r) \<Longrightarrow> delay = 0 \<or> 5 * Millisecond \<le> delay \<Longrightarrow>
     list_all (\<lambda>d. 5 * Millisecond \<le> d \<and> d \<le> Second) waits"
proof (induction env scheme delay xs arbitrary: waits n r rule: acceptLoop.induct)
  case (2 env scheme delay ok xs)
  then show ?case by (cases "acceptLoop env scheme 0 xs") (auto split: prod.splits)
next
  case (4 env scheme delay waited xs)
  have "5 * Millisecond \<le> backoff delay" "backoff delay \<le> Second"
    using "4.prems"(2) by (auto simp: backoff_def Millisecond_def Second_def)
  with 4 show ?case by (cases "acceptLoop env scheme (backoff delay) xs") (auto simp: Let_def split: if_splits)
qed auto

text \<open>However often they run, the first cause stays, the listener is removed once, and a done listener is closing.\<close>

lemma listener_once:
  "lclosing l \<Longrightarrow> initiateClose c l = l" "lclosing (initiateClose c l)"
  "finalize (finalize l) = finalize l" "lclosing l \<Longrightarrow> lerr (finalize l) = lerr l"
  by (simp_all add: initiateClose_def finalize_def)

end
