(* ===== verification/HTTP_Tracker.thy ===== *)
theory HTTP_Tracker
  imports Session_Prog "HOL-Library.AList" "HOL-Library.Sublist"
begin

text \<open>
  The admission of the WebSocket server's connections (\<^verbatim>\<open>transport/websocket_server_admission.go\<close>) and the TLS
  listener that shares it (\<^verbatim>\<open>transport/websocket_tls.go\<close>): each accepted connection has a holder of its lease, which the
  upgrade handler takes or the HTTP server, a failed handshake or the closing listener releases. The critical
  sections of the holder's and the tracker's mutex are the steps, so taking and releasing interleave. Connections
  are numbers; holders are numbered in the order of their registration. \<open>taken\<close> and \<open>freed\<close> record the leases
  that were handed to a handler and the calls of \<^verbatim>\<open>connectionLease.release\<close>.
\<close>

section \<open>State\<close>

datatype httpConnLeaseState = Held | Transferred | Released

record tracker =
  holders :: "httpConnLeaseState list"
  leases :: "(nat \<times> nat) list"
  byLease :: "(nat \<times> nat) list"
  taken :: "nat list"
  freed :: "nat list"

definition newHTTPConnTracker :: tracker where
  "newHTTPConnTracker = \<lparr>holders = [], leases = [], byLease = [], taken = [], freed = []\<rparr>"

datatype tev = TTau | TFail | TDone

type_synonym 'r tprog = "(tev, tracker, 'r) prog"

section \<open>Operations\<close>

text \<open>A connection that is registered or bound is a new object.\<close>

definition fresh :: "nat \<Rightarrow> tracker \<Rightarrow> bool" where
  "fresh c s \<longleftrightarrow> c \<notin> fst ` set (leases s)"

definition register :: "nat \<Rightarrow> unit tprog" where
  "register c = atom (\<lambda>e s.
     if fresh c s then
       Some (s\<lparr>holders := holders s @ [Held], leases := AList.update c (length (holders s)) (leases s),
         byLease := AList.update (length (holders s)) c (byLease s)\<rparr>, ())
     else None)"

definition lookup :: "nat \<Rightarrow> nat option tprog" where
  "lookup c = atom (\<lambda>e s. Some (s, map_of (leases s) c))"

definition rebind :: "nat \<Rightarrow> nat \<Rightarrow> bool tprog" where
  "rebind old new = atom (\<lambda>e s.
     case map_of (leases s) old of
       None \<Rightarrow> Some (s, False)
     | Some h \<Rightarrow>
         if fresh new s then
           Some (s\<lparr>leases := AList.update new h (AList.delete old (leases s)), byLease := AList.update h new (byLease s)\<rparr>, True)
         else None)"

definition detachHolder :: "nat \<Rightarrow> unit tprog" where
  "detachHolder h = atom (\<lambda>e s.
     case map_of (byLease s) h of
       None \<Rightarrow> Some (s, ())
     | Some c \<Rightarrow> Some (s\<lparr>byLease := AList.delete h (byLease s), leases := AList.delete c (leases s)\<rparr>, ()))"

text \<open>The critical sections on the holder: \<open>None\<close> for a holder that does not exist.\<close>

definition leave_held :: "httpConnLeaseState \<Rightarrow> nat \<Rightarrow> bool tprog" where
  "leave_held st h = atom (\<lambda>e s.
     if h < length (holders s) then
       if holders s ! h \<noteq> Held then Some (s, False)
       else Some (s\<lparr>holders := (holders s)[h := st], taken := (if st = Transferred then taken s @ [h] else taken s)\<rparr>, True)
     else None)"

definition lease_release :: "nat \<Rightarrow> unit tprog" where
  "lease_release h = atom (\<lambda>e s. Some (s\<lparr>freed := freed s @ [h]\<rparr>, ()))"

definition takeWithPhysical :: "nat \<Rightarrow> bool tprog" where
  "takeWithPhysical h = bind (leave_held Transferred h) (\<lambda>ok.
     if \<not> ok then Ret False else seq (detachHolder h) (Ret True))"

definition release :: "nat \<Rightarrow> unit tprog" where
  "release h = bind (leave_held Released h) (\<lambda>ok.
     if \<not> ok then Ret () else seq (detachHolder h) (lease_release h))"

definition releaseConn :: "nat \<Rightarrow> unit tprog" where
  "releaseConn c = bind (lookup c) (\<lambda>r. case r of None \<Rightarrow> Ret () | Some h \<Rightarrow> release h)"

definition collect :: "nat list tprog" where
  "collect = atom (\<lambda>e s. Some (s, map snd (leases s)))"

text \<open>
  \<open>refused\<close> tells whether \<^verbatim>\<open>acquireHandshake\<close> fails, \<open>fails\<close> whether the TLS handshake does, \<open>ctx_done\<close> which case the final select
  takes. Closing the connection and giving the handshake slot back do not touch the tracker.
\<close>

definition choice :: "bool tprog" where
  "choice = atom (\<lambda>e s. case e of TFail \<Rightarrow> Some (s, True) | TDone \<Rightarrow> Some (s, False) | TTau \<Rightarrow> None)"

definition handshake :: "nat \<Rightarrow> nat \<Rightarrow> unit tprog" where
  "handshake raw tlsConn = bind choice (\<lambda>refused.
     if refused then releaseConn raw
     else bind choice (\<lambda>fails.
       if fails then releaseConn raw
       else bind (rebind raw tlsConn) (\<lambda>ok.
         if \<not> ok then Ret ()
         else bind choice (\<lambda>ctx_done. if ctx_done then releaseConn tlsConn else Ret ()))))"

datatype tlabel = TRegister nat | TTake nat | TReleaseConn nat | THandshake nat nat | TCloseAll | TCloseRest "nat list"

fun tracker_body :: "tlabel \<Rightarrow> tlabel option tprog" where
  "tracker_body (TRegister c) = seq (register c) (Ret None)"
| "tracker_body (TTake h) = seq (takeWithPhysical h) (Ret None)"
| "tracker_body (TReleaseConn c) = seq (releaseConn c) (Ret None)"
| "tracker_body (THandshake raw tlsConn) = seq (handshake raw tlsConn) (Ret None)"
| "tracker_body TCloseAll = bind collect (\<lambda>hs. Ret (Some (TCloseRest hs)))"
| "tracker_body (TCloseRest []) = Ret None"
| "tracker_body (TCloseRest (h # hs)) = seq (release h) (Ret (Some (TCloseRest hs)))"

definition tracker_call :: "tlabel \<Rightarrow> bool" where
  "tracker_call l = (case l of TCloseRest _ \<Rightarrow> False | _ \<Rightarrow> True)"

definition tracker_start :: "(tev, tracker, tlabel) psys" where
  "tracker_start = \<lparr>pst = newHTTPConnTracker, threads = []\<rparr>"

section \<open>Invariant\<close>

definition state_of :: "tracker \<Rightarrow> nat \<Rightarrow> httpConnLeaseState option" where
  "state_of s h = (if h < length (holders s) then Some (holders s ! h) else None)"

text \<open>The two maps are inverse, a held lease is in them, and every lease goes one way at most once.\<close>

definition tracker_wf :: "tracker \<Rightarrow> bool" where
  "tracker_wf s \<longleftrightarrow>
     (\<forall>c h. map_of (leases s) c = Some h \<longleftrightarrow> map_of (byLease s) h = Some c)
     \<and> distinct (map fst (leases s))
     \<and> (\<forall>h. state_of s h = Some Held \<longrightarrow> map_of (byLease s) h \<noteq> None)
     \<and> (\<forall>h. map_of (byLease s) h \<noteq> None \<longrightarrow> state_of s h \<noteq> None)
     \<and> distinct (taken s) \<and> set (taken s) = {h. state_of s h = Some Transferred}
     \<and> distinct (freed s) \<and> set (freed s) \<subseteq> {h. state_of s h = Some Released}"

text \<open>A goroutine between the sections owns what is left to do for its holder.\<close>

datatype tres = Detaching nat | Freeing nat

fun town :: "tracker \<Rightarrow> tres holding" where
  "town s (Detaching h) = of_bool (map_of (byLease s) h \<noteq> None \<and> state_of s h \<noteq> Some Held)"
| "town s (Freeing h) = of_bool (state_of s h = Some Released \<and> h \<notin> set (freed s))"

definition monotone_states :: "tracker \<Rightarrow> tracker \<Rightarrow> bool" where
  "monotone_states s s' \<longleftrightarrow>
     (\<forall>h st. state_of s h = Some st \<longrightarrow> (st = Held \<and> state_of s' h \<noteq> None) \<or> state_of s' h = Some st)
     \<and> prefix (taken s) (taken s') \<and> prefix (freed s) (freed s')"

abbreviation wpt :: "('r \<Rightarrow> tres holding \<Rightarrow> bool) \<Rightarrow> 'r tprog \<Rightarrow> tres holding \<Rightarrow> bool" where
  "wpt \<equiv> wp tracker_wf monotone_states (\<lambda>_. False) town"

lemma monotone_refl [simp]: "monotone_states s s"
  by (auto simp: monotone_states_def)

lemma all_tres: "(\<forall>k. P k) \<longleftrightarrow> (\<forall>h. P (Detaching h)) \<and> (\<forall>h. P (Freeing h))"
  by (metis tres.exhaust)

lemma town_eq:
  "(\<And>h. map_of (byLease s') h = map_of (byLease s) h) \<Longrightarrow> (\<And>h. state_of s' h = state_of s h) \<Longrightarrow> freed s' = freed s \<Longrightarrow>
   town s' = town s"
  by (rule ext, rename_tac k, case_tac k) simp_all

lemmas alist_simps = update_conv' delete_conv' distinct_update distinct_delete

lemma wp_register: "Q () h \<Longrightarrow> wpt Q (register c) h"
  unfolding register_def
proof (rule wp_atom_frame)
  fix e s s' r
  assume q: "Q () h" and w: "tracker_wf s"
    and f: "(if fresh c s then Some (s\<lparr>holders := holders s @ [Held], leases := AList.update c (length (holders s)) (leases s),
         byLease := AList.update (length (holders s)) c (byLease s)\<rparr>, ()) else None) = Some (s', r)"
  let ?n = "length (holders s)"
  have s': "s' = s\<lparr>holders := holders s @ [Held], leases := AList.update c ?n (leases s), byLease := AList.update ?n c (byLease s)\<rparr>"
    and fr: "map_of (leases s) c = None"
    using f by (auto simp: fresh_def map_of_eq_None_iff split: if_splits)
  have st: "state_of s' h = (if h = ?n then Some Held else state_of s h)" for h
    by (auto simp: s' state_of_def nth_append)
  have n: "map_of (byLease s) ?n = None" "state_of s ?n = None"
    using w by (auto simp: tracker_wf_def state_of_def)
  have b: "map_of (byLease s') h = (if h = ?n then Some c else map_of (byLease s) h)" for h
    by (simp add: s' alist_simps)
  have fz: "freed s' = freed s" by (simp add: s')
  have "tracker_wf s'"
    unfolding tracker_wf_def st b using w fr n
    by (auto simp: tracker_wf_def s' alist_simps)
  moreover have "town s' = town s"
    using n fz by (intro ext, rename_tac k, case_tac k) (auto simp: st b)
  moreover have "monotone_states s s'"
    unfolding monotone_states_def st using n(2) fz by (auto simp: s')
  ultimately show "tracker_wf s' \<and> monotone_states s s' \<and> town s' = town s \<and> Q r h" using q by simp
qed

lemma wp_read: "(\<And>s r. f s = r \<Longrightarrow> Q r h) \<Longrightarrow> wpt Q (atom (\<lambda>e s. Some (s, f s))) h"
  by (rule wp_atom_frame) auto

lemma wp_choice: "(\<And>b. Q b h) \<Longrightarrow> wpt Q choice h"
  unfolding choice_def by (rule wp_atom_frame) (auto split: tev.splits)

lemma wp_rebind: "(\<And>b. Q b h) \<Longrightarrow> wpt Q (rebind old new) h"
  unfolding rebind_def
proof (rule wp_atom_frame)
  fix e s s' r
  assume q: "\<And>b. Q b h" and w: "tracker_wf s"
    and f: "(case map_of (leases s) old of
       None \<Rightarrow> Some (s, False)
     | Some h \<Rightarrow>
         if fresh new s then
           Some (s\<lparr>leases := AList.update new h (AList.delete old (leases s)), byLease := AList.update h new (byLease s)\<rparr>, True)
         else None) = Some (s', r)"
  show "tracker_wf s' \<and> monotone_states s s' \<and> town s' = town s \<and> Q r h"
  proof (cases "map_of (leases s) old")
    case None
    then show ?thesis using f w q by simp
  next
    case (Some k)
    then have s': "s' = s\<lparr>leases := AList.update new k (AList.delete old (leases s)), byLease := AList.update k new (byLease s)\<rparr>"
      and fr: "map_of (leases s) new = None"
      using f by (auto simp: fresh_def map_of_eq_None_iff split: if_splits)
    have inv: "map_of (leases s) c = Some j \<longleftrightarrow> map_of (byLease s) j = Some c" for c j using w by (simp add: tracker_wf_def)
    have k: "map_of (byLease s) k = Some old" using Some inv by simp
    have st: "state_of s' = state_of s" by (simp add: s' state_of_def fun_eq_iff)
    have dom: "map_of (byLease s') j = None \<longleftrightarrow> map_of (byLease s) j = None" for j using k by (simp add: s' alist_simps)
    have "map_of (leases s') c = Some j \<longleftrightarrow> map_of (byLease s') j = Some c" for c j
      using inv [of c j] inv [of old j] inv [of new j] k fr Some by (auto simp: s' alist_simps)
    then have "tracker_wf s'"
      using w unfolding tracker_wf_def st dom by (auto simp: s' alist_simps)
    moreover have "town s' = town s"
      by (intro ext, rename_tac x, case_tac x) (simp_all add: st dom, simp_all add: s')
    moreover have "monotone_states s s'" by (simp add: monotone_states_def st, simp add: s')
    ultimately show ?thesis using q by simp
  qed
qed

text \<open>The section that leaves \<open>Held\<close> acquires what is left to do.\<close>

definition todo :: "httpConnLeaseState \<Rightarrow> nat \<Rightarrow> tres holding" where
  "todo st h = none(Detaching h := 1, Freeing h := of_bool (st = Released))"

lemma wp_leave_held:
  assumes "st \<noteq> Held" and "Q False none" and "Q True (todo st h)"
  shows "wpt Q (leave_held st h) none"
  unfolding leave_held_def
proof (rule wp_atom)
  fix e s s' r
  assume w: "tracker_wf s"
    and f: "(if h < length (holders s) then
       if holders s ! h \<noteq> Held then Some (s, False)
       else Some (s\<lparr>holders := (holders s)[h := st], taken := (if st = Transferred then taken s @ [h] else taken s)\<rparr>, True)
     else None) = Some (s', r)"
  show "tracker_wf s' \<and> monotone_states s s' \<and> (\<exists>h'. moved town s s' none h' \<and> Q r h')"
  proof (cases r)
    case False
    then have "s' = s" using f by (auto split: if_splits)
    then show ?thesis using w False assms(2) by (auto simp: moved_def intro!: exI [of _ none])
  next
    case True
    then have held: "state_of s h = Some Held"
      and s': "s' = s\<lparr>holders := (holders s)[h := st], taken := (if st = Transferred then taken s @ [h] else taken s)\<rparr>"
      using f by (auto simp: state_of_def split: if_splits)
    have stt: "state_of s' j = (if j = h then Some st else state_of s j)" for j
      using held by (auto simp: s' state_of_def nth_list_update split: if_splits)
    have same: "byLease s' = byLease s" "leases s' = leases s" "freed s' = freed s"
        "taken s' = (if st = Transferred then taken s @ [h] else taken s)" by (simp_all add: s')
    have "h \<notin> set (taken s)" "h \<notin> set (freed s)" using w held by (auto simp: tracker_wf_def)
    then have "tracker_wf s'"
      using w held assms(1) unfolding tracker_wf_def stt same by (auto split: if_splits)
    moreover have "monotone_states s s'" using held by (auto simp: monotone_states_def stt same)
    moreover have "moved town s s' none (todo st h)"
      using w held assms(1) \<open>h \<notin> set (freed s)\<close>
      by (auto simp: moved_def all_tres todo_def stt same tracker_wf_def)
    ultimately show ?thesis using assms(3) True by auto
  qed
qed

lemma wp_detach:
  assumes "1 \<le> g (Detaching h)" and "Q () (g(Detaching h := g (Detaching h) - 1))"
  shows "wpt Q (detachHolder h) g"
  unfolding detachHolder_def
proof (rule wp_atom)
  fix e s s' r
  assume w: "tracker_wf s" and hd: "holds town s g"
    and f: "(case map_of (byLease s) h of
       None \<Rightarrow> Some (s, ())
     | Some c \<Rightarrow> Some (s\<lparr>byLease := AList.delete h (byLease s), leases := AList.delete c (leases s)\<rparr>, ())) = Some (s', r)"
  have "1 \<le> town s (Detaching h)" using hd assms(1) unfolding holds_def by (metis order_trans)
  then obtain c where c: "map_of (byLease s) h = Some c" and nh: "state_of s h \<noteq> Some Held"
    by (auto simp: of_bool_def split: if_splits)
  then have s': "s' = s\<lparr>byLease := AList.delete h (byLease s), leases := AList.delete c (leases s)\<rparr>" using f by simp
  have inv: "map_of (leases s) d = Some j \<longleftrightarrow> map_of (byLease s) j = Some d" for d j using w by (simp add: tracker_wf_def)
  have st: "state_of s' = state_of s" by (simp add: s' state_of_def fun_eq_iff)
  have b: "map_of (byLease s') j = (if j = h then None else map_of (byLease s) j)" for j by (simp add: s' alist_simps)
  have l: "map_of (leases s') d = (if d = c then None else map_of (leases s) d)" for d by (simp add: s' alist_simps)
  have same: "freed s' = freed s" "taken s' = taken s" "distinct (map fst (leases s')) \<longleftrightarrow> True"
    using w by (simp_all add: s' alist_simps tracker_wf_def)
  have "map_of (leases s') d = Some j \<longleftrightarrow> map_of (byLease s') j = Some d" for d j
    using inv [of d j] inv [of c j] c inv [of d h] by (auto simp: b l)
  then have "tracker_wf s'" using w nh unfolding tracker_wf_def st same by (auto simp: b)
  moreover have "monotone_states s s'" by (simp add: monotone_states_def st same)
  moreover have "moved town s s' g (g(Detaching h := g (Detaching h) - 1))"
    using hd assms(1) c nh by (auto simp: moved_def holds_def all_tres st b same)
  ultimately show "tracker_wf s' \<and> monotone_states s s' \<and> (\<exists>h'. moved town s s' g h' \<and> Q r h')" using assms(2) by auto
qed

lemma wp_lease_release:
  assumes "1 \<le> g (Freeing h)" and "Q () (g(Freeing h := g (Freeing h) - 1))"
  shows "wpt Q (lease_release h) g"
  unfolding lease_release_def
proof (rule wp_atom)
  fix e s s' r
  assume w: "tracker_wf s" and hd: "holds town s g" and "Some (s\<lparr>freed := freed s @ [h]\<rparr>, ()) = Some (s', r)"
  then have s': "s' = s\<lparr>freed := freed s @ [h]\<rparr>" by simp
  have "1 \<le> town s (Freeing h)" using hd assms(1) unfolding holds_def by (metis order_trans)
  then have rel: "state_of s h = Some Released" "h \<notin> set (freed s)" by (auto simp: of_bool_def split: if_splits)
  have st: "state_of s' = state_of s" by (simp add: s' state_of_def fun_eq_iff)
  have same: "byLease s' = byLease s" "leases s' = leases s" "taken s' = taken s" "freed s' = freed s @ [h]" by (simp_all add: s')
  have "tracker_wf s'" using w rel unfolding tracker_wf_def st same by auto
  moreover have "monotone_states s s'" by (simp add: monotone_states_def st same)
  moreover have "moved town s s' g (g(Freeing h := g (Freeing h) - 1))"
    using hd assms(1) rel by (auto simp: moved_def holds_def all_tres st same)
  ultimately show "tracker_wf s' \<and> monotone_states s s' \<and> (\<exists>h'. moved town s s' g h' \<and> Q r h')" using assms(2) by auto
qed

lemma wp_take: "(\<And>b. Q b none) \<Longrightarrow> wpt Q (takeWithPhysical h) none"
  unfolding takeWithPhysical_def
  by (rule wp_bind, rule wp_leave_held) (auto intro!: wp_bind wp_detach simp: todo_def fun_upd_idem)

lemma wp_release: "Q () none \<Longrightarrow> wpt Q (release h) none"
  unfolding release_def
  by (rule wp_bind, rule wp_leave_held)
     (auto intro!: wp_bind wp_detach wp_lease_release simp: todo_def fun_upd_twist fun_upd_idem)

lemma wp_releaseConn: "Q () none \<Longrightarrow> wpt Q (releaseConn c) none"
  unfolding releaseConn_def lookup_def
  by (rule wp_bind, rule wp_read) (auto intro!: wp_release split: option.splits)

lemma wp_handshake: "Q () none \<Longrightarrow> wpt Q (handshake raw tlsConn) none"
  unfolding handshake_def
  by (rule wp_bind, rule wp_choice) (auto intro!: wp_bind wp_choice wp_rebind wp_releaseConn)

lemma tracker_body_ok: "wpt (next_hold (\<lambda>_. False) (\<lambda>_. none)) (tracker_body l) none"
  by (cases l rule: tracker_body.cases)
     (auto intro!: wp_bind wp_register wp_take wp_releaseConn wp_handshake wp_release wp_read simp: next_hold_def collect_def)

interpretation tracking: session_loops tracker_body "Collect tracker_call" "\<lambda>_. none" tracker_wf monotone_states "\<lambda>_. False"
    town "\<lambda>c. c = tracker_start"
proof (unfold_locales, rule tracker_body_ok)
  fix s s' s'' assume "monotone_states s s'" "monotone_states s' s''"
  then show "monotone_states s s''" unfolding monotone_states_def by (metis option.distinct(1) not_None_eq prefix_order.trans)
qed (auto simp: tracker_start_def newHTTPConnTracker_def tracker_wf_def state_of_def all_tres intro!: exI [of _ "[]"])

abbreviation tracking_run :: "(tev, tracker, tlabel) psys \<Rightarrow> bool" where
  "tracking_run \<equiv> reachable (\<lambda>c. c = tracker_start) (pstep tracker_body (Collect tracker_call))"

text \<open>
  C32. However the acceptor, the HTTP server, TLS handshakes, upgrade handlers and the closing listener interleave,
  every admitted connection's lease is handed to at most one handler or released at most once, never both, and
  a lease that is still held can be found in the tracker; when all of them have returned, every lease that was
  given up has been released, and the tracker forgot every connection whose lease is gone.
\<close>

theorem http_tracker:
  assumes "tracking_run c"
  shows "distinct (taken (pst c)) \<and> distinct (freed (pst c)) \<and> set (taken (pst c)) \<inter> set (freed (pst c)) = {}
    \<and> (\<forall>h. state_of (pst c) h = Some Held \<longrightarrow> (\<exists>x. map_of (leases (pst c)) x = Some h))
    \<and> (set (threads c) \<subseteq> {Ret None} \<longrightarrow>
         set (freed (pst c)) = {h. state_of (pst c) h = Some Released}
       \<and> snd ` set (leases (pst c)) = {h. state_of (pst c) h = Some Held})"
proof -
  note w = tracking.reachable_W [OF assms]
  have held: "\<exists>x. map_of (leases (pst c)) x = Some h" if "state_of (pst c) h = Some Held" for h
    using w that by (auto simp: tracker_wf_def)
  have "set (freed (pst c)) = {h. state_of (pst c) h = Some Released} \<and> snd ` set (leases (pst c)) = {h. state_of (pst c) h = Some Held}"
    if "set (threads c) \<subseteq> {Ret None}"
  proof -
    have z: "town (pst c) k = 0" for k using tracking.quiescent [OF assms that] by simp
    have f: "state_of (pst c) h = Some Released \<Longrightarrow> h \<in> set (freed (pst c))" for h
      using z [of "Freeing h"] by (auto simp: of_bool_def split: if_splits)
    have d: "map_of (byLease (pst c)) h \<noteq> None \<Longrightarrow> state_of (pst c) h = Some Held" for h
      using z [of "Detaching h"] by (auto simp: of_bool_def split: if_splits)
    have "distinct (map fst (leases (pst c)))" using w by (simp add: tracker_wf_def)
    then have "(\<exists>x. map_of (leases (pst c)) x = Some h) \<longleftrightarrow> h \<in> snd ` set (leases (pst c))" for h
      by (force dest: map_of_SomeD intro: map_of_is_SomeI)
    then have "snd ` set (leases (pst c)) = {h. state_of (pst c) h = Some Held}"
      using held d w unfolding tracker_wf_def by (metis (mono_tags, lifting) Collect_cong mem_Collect_eq option.distinct(1) subsetI subset_antisym)
    moreover have "set (freed (pst c)) = {h. state_of (pst c) h = Some Released}"
      using f w by (auto simp: tracker_wf_def)
    ultimately show ?thesis by blast
  qed
  then show ?thesis using w held by (auto simp: tracker_wf_def)
qed

text \<open>Two connections; the first is secured and taken by a handler while the listener closes.\<close>

definition tracker_demo :: "(tev, tlabel) move list" where
  "tracker_demo = [Go (TRegister 0), Do 0 TTau, Go (TRegister 1), Do 1 TTau,
     Go (THandshake 0 10), Do 2 TDone, Do 2 TDone, Do 2 TTau, Do 2 TDone, Go (TTake 0), Do 3 TTau, Go TCloseAll, Do 4 TTau,
     Loop 4, Do 4 TTau, Do 4 TTau, Do 4 TTau, Loop 4, Do 4 TTau, Loop 4, Do 3 TTau]"

lemma tracker_demo_run:
  "map_option (\<lambda>c. (map returned (threads c), taken (pst c), freed (pst c), holders (pst c)))
     (exec tracker_body tracker_call tracker_demo tracker_start)
   = Some (replicate 5 (Some None), [0], [1], [Transferred, Released])"
  by code_simp

theorem http_tracker_witness:
  "\<exists>c. tracking_run c \<and> taken (pst c) = [0] \<and> freed (pst c) = [1] \<and> leases (pst c) = []"
proof -
  obtain c where c: "exec tracker_body tracker_call tracker_demo tracker_start = Some c"
    "map returned (threads c) = replicate 5 (Some None)" "taken (pst c) = [0]" "freed (pst c) = [1]"
    "holders (pst c) = [Transferred, Released]"
    using tracker_demo_run by auto
  have r: "tracking_run c" by (rule exec_reachable [OF c(1)], rule reach_init) simp
  have "snd ` set (leases (pst c)) = {h. state_of (pst c) h = Some Held}"
    using http_tracker [OF r] all_returned [OF c(2)] by blast
  also have "\<dots> = {}" using c(5) by (auto simp: state_of_def less_Suc_eq)
  finally show ?thesis using r c(3,4) by auto
qed

end
