(* ===== verification/Key_Wrap.thy ===== *)
theory Key_Wrap
  imports Ogre_Prelude
begin

text \<open>
  Wrapping of session keys (\<^verbatim>\<open>secure/rsa.go\<close>): the guards on the RSA keys around the library's OAEP. \<open>encrypt\<close>, \<open>decrypt\<close>
  and \<open>generate\<close> are the results of \<^verbatim>\<open>crypto/rsa\<close>; a big integer is an \<open>int\<close>, a nil one is None.
\<close>

datatype rsa_error =
    ErrMissingPublicKey
  | ErrMissingPrivateKey
  | ErrInvalidRSAKey
  | ErrRSAKeyTooSmall
  | RSALibrary string

record rsa_public =
  pubN :: "int option"
  pubE :: int

record rsa_private =
  privPublic :: rsa_public
  privD :: "int option"
  Primes :: "int list"

record RSAOAEP =
  public_key :: "rsa_public option"
  private_key :: "rsa_private option"

definition MinRSAKeyBits :: nat where
  "MinRSAKeyBits = 2048"

text \<open>\<^verbatim>\<open>BitLen\<close> of a positive integer reaches \<open>b\<close> exactly when the integer reaches \<open>2 ^ (b - 1)\<close>.\<close>

fun bit_len :: "nat \<Rightarrow> nat" where
  "bit_len n = (if n = 0 then 0 else Suc (bit_len (n div 2)))"

declare bit_len.simps [simp del]

definition validateRSAPublicKey :: "rsa_public option \<Rightarrow> rsa_error option" where
  "validateRSAPublicKey key =
     (case key of
        None \<Rightarrow> Some ErrInvalidRSAKey
      | Some k \<Rightarrow>
          (case pubN k of
             None \<Rightarrow> Some ErrInvalidRSAKey
           | Some n \<Rightarrow>
               if n \<le> 0 \<or> pubE k < 3 \<or> pubE k mod 2 = 0 then Some ErrInvalidRSAKey
               else if bit_len (nat n) < MinRSAKeyBits then Some ErrRSAKeyTooSmall
               else None))"

definition validateRSAPrivateKey :: "rsa_private option \<Rightarrow> rsa_error option" where
  "validateRSAPrivateKey key =
     (case key of
        None \<Rightarrow> Some ErrInvalidRSAKey
      | Some k \<Rightarrow>
          (case validateRSAPublicKey (Some (privPublic k)) of
             Some err \<Rightarrow> Some err
           | None \<Rightarrow>
               (case privD k of
                  None \<Rightarrow> Some ErrInvalidRSAKey
                | Some d \<Rightarrow> if d \<le> 0 \<or> length (Primes k) < 2 then Some ErrInvalidRSAKey else None)))"

definition NewRSAOAEP :: "rsa_public option \<Rightarrow> rsa_private option \<Rightarrow> RSAOAEP" where
  "NewRSAOAEP pub priv = \<lparr>public_key = pub, private_key = priv\<rparr>"

definition GenerateRSAOAEP :: "(int \<Rightarrow> string + rsa_private) \<Rightarrow> int \<Rightarrow> rsa_error + RSAOAEP" where
  "GenerateRSAOAEP generate bits =
     (if bits < int MinRSAKeyBits then Inl ErrRSAKeyTooSmall
      else case generate bits of
        Inl m \<Rightarrow> Inl (RSALibrary m)
      | Inr priv \<Rightarrow> Inr (NewRSAOAEP (Some (privPublic priv)) (Some priv)))"

definition Wrap :: "(rsa_public \<Rightarrow> 'b \<Rightarrow> string + 'b) \<Rightarrow> RSAOAEP option \<Rightarrow> 'b \<Rightarrow> rsa_error + 'b" where
  "Wrap encrypt r key =
     (case Option.bind r public_key of
        None \<Rightarrow> Inl ErrMissingPublicKey
      | Some pub \<Rightarrow>
          (case validateRSAPublicKey (Some pub) of
             Some err \<Rightarrow> Inl err
           | None \<Rightarrow> (case encrypt pub key of Inl m \<Rightarrow> Inl (RSALibrary m) | Inr w \<Rightarrow> Inr w)))"

definition Unwrap :: "(rsa_private \<Rightarrow> 'b \<Rightarrow> string + 'b) \<Rightarrow> RSAOAEP option \<Rightarrow> 'b \<Rightarrow> rsa_error + 'b" where
  "Unwrap decrypt r wrapped =
     (case Option.bind r private_key of
        None \<Rightarrow> Inl ErrMissingPrivateKey
      | Some priv \<Rightarrow>
          (case validateRSAPrivateKey (Some priv) of
             Some err \<Rightarrow> Inl err
           | None \<Rightarrow> (case decrypt priv wrapped of Inl m \<Rightarrow> Inl (RSALibrary m) | Inr k \<Rightarrow> Inr k)))"

section \<open>Correctness\<close>

lemma bit_len_bound: "b < bit_len n \<longleftrightarrow> 2 ^ b \<le> n"
proof (induction b arbitrary: n)
  case 0
  then show ?case by (subst bit_len.simps) auto
next
  case (Suc b)
  have "Suc b < bit_len n \<longleftrightarrow> n \<noteq> 0 \<and> b < bit_len (n div 2)" by (subst bit_len.simps) simp
  also have "\<dots> \<longleftrightarrow> 2 ^ Suc b \<le> n"
    unfolding Suc.IH using less_eq_div_iff_mult_less_eq [of 2 "2 ^ b" n] by (cases "n = 0") (simp_all add: mult.commute)
  finally show ?case .
qed

lemma bit_len_int: "0 < n \<Longrightarrow> Suc b \<le> bit_len (nat n) \<longleftrightarrow> 2 ^ b \<le> n"
  using bit_len_bound [of b "nat n"] by (simp add: Suc_le_eq le_nat_iff)

text \<open>A key that is used has an odd exponent of at least 3 and a modulus of at least \<open>2 ^ 2047\<close>.\<close>

lemma validateRSAPublicKey_accepts:
  "validateRSAPublicKey (Some k) = None \<longleftrightarrow> (\<exists>n. pubN k = Some n \<and> 2 ^ 2047 \<le> n) \<and> 3 \<le> pubE k \<and> odd (pubE k)"
proof (cases "pubN k")
  case (Some n)
  show ?thesis
  proof (cases "0 < n")
    case True
    with Some bit_len_int [OF True, of 2047] show ?thesis
      by (simp add: validateRSAPublicKey_def MinRSAKeyBits_def odd_iff_mod_2_eq_one not_less del: power_numeral) linarith
  next
    case False
    then have "\<not> 2 ^ 2047 \<le> n" using zero_less_power [of "2::int" 2047] by linarith
    with Some False show ?thesis by (simp add: validateRSAPublicKey_def del: power_numeral)
  qed
qed (simp add: validateRSAPublicKey_def)

text \<open>A pair that unwraps what it wraps does so through the guards, whenever both keys pass them.\<close>

lemma wrap_unwrap:
  assumes "private_key r = Some priv" "public_key r = Some (privPublic priv)"
    and "validateRSAPrivateKey (Some priv) = None"
    and "encrypt (privPublic priv) key = Inr w" "decrypt priv w = Inr key"
  shows "Wrap encrypt (Some r) key = Inr w \<and> Unwrap decrypt (Some r) w = Inr key"
proof -
  have "validateRSAPublicKey (Some (privPublic priv)) = None"
    using assms(3) by (simp add: validateRSAPrivateKey_def split: option.splits)
  with assms show ?thesis by (simp add: Wrap_def Unwrap_def)
qed

end
