(* ===== verification/GmSSL.thy ===== *)
theory GmSSL
  imports Wire Key_Wrap
begin

text \<open>
  The GmSSL primitives (\<^verbatim>\<open>secure/gmssl/gmssl.go\<close>): the SM3 digest, the SM4-GCM cipher and the SM2 key wrapper. The C
  library is a parameter: a function whose result is None where the call does not return 1.
\<close>

datatype gm_error = ErrGmSSL | ErrInvalidKeySize | ErrInvalidSM2Key | ErrMessageTooLarge | GmCiphertextTooShort | GmKey rsa_error

section \<open>SM3\<close>

definition SM3_Sum :: "(bytes \<Rightarrow> bytes) \<Rightarrow> bytes \<Rightarrow> bytes \<Rightarrow> bytes" where
  "SM3_Sum sm3 dst data = dst @ sm3 data"

definition SM3_Verify :: "(bytes \<Rightarrow> bytes) \<Rightarrow> bytes \<Rightarrow> bytes \<Rightarrow> bool" where
  "SM3_Verify sm3 data digest = (if length digest \<noteq> 32 then False else SM3_Sum sm3 [] data = digest)"

section \<open>SM4-GCM\<close>

text \<open>\<open>gcmEncrypt key nonce aad plaintext\<close> is a ciphertext and its tag; \<open>gcmDecrypt key nonce aad ciphertext tag\<close> a plaintext.\<close>

record sm4_lib =
  gcmEncrypt :: "bytes \<Rightarrow> bytes \<Rightarrow> bytes \<Rightarrow> bytes \<Rightarrow> (bytes \<times> bytes) option"
  gcmDecrypt :: "bytes \<Rightarrow> bytes \<Rightarrow> bytes \<Rightarrow> bytes \<Rightarrow> bytes \<Rightarrow> bytes option"

definition AlgSM4GCM :: Algorithm where
  "AlgSM4GCM = 0x0002"

definition gm_gerr :: "gm_error \<Rightarrow> gerr" where
  "gm_gerr e =
     ErrorString (case e of
        ErrGmSSL \<Rightarrow> ''secure/gmssl: GmSSL operation failed''
      | ErrInvalidKeySize \<Rightarrow> ''secure/gmssl: invalid key size''
      | ErrInvalidSM2Key \<Rightarrow> ''secure/gmssl: invalid SM2 key''
      | ErrMessageTooLarge \<Rightarrow> ''secure/gmssl: SM2 plaintext exceeds 255 bytes''
      | GmCiphertextTooShort \<Rightarrow> ''secure/gmssl: ciphertext too short''
      | GmKey _ \<Rightarrow> ''secure: missing key'')"

definition NewSM4GCM :: "bytes \<Rightarrow> gm_error + bytes" where
  "NewSM4GCM key = (if length key \<noteq> 16 then Inl ErrInvalidKeySize else Inr key)"

definition SM4GCM_SealAAD :: "sm4_lib \<Rightarrow> bytes \<Rightarrow> rng \<Rightarrow> bytes \<Rightarrow> bytes \<Rightarrow> gm_error + bytes" where
  "SM4GCM_SealAAD lib key rand plaintext aad =
     (case rand 12 of
        Inl _ \<Rightarrow> Inl ErrGmSSL
      | Inr nonce \<Rightarrow>
          (case gcmEncrypt lib key nonce aad plaintext of
             None \<Rightarrow> Inl ErrGmSSL
           | Some (ct, tag) \<Rightarrow> Inr (nonce @ ct @ tag)))"

definition SM4GCM_OpenAAD :: "sm4_lib \<Rightarrow> bytes \<Rightarrow> bytes \<Rightarrow> bytes \<Rightarrow> gm_error + bytes" where
  "SM4GCM_OpenAAD lib key ciphertext aad =
     (if length ciphertext < 12 + 16 then Inl GmCiphertextTooShort
      else
        let nonce = take 12 ciphertext;
            body = drop 12 (take (length ciphertext - 16) ciphertext);
            tag = drop (length ciphertext - 16) ciphertext in
        case gcmDecrypt lib key nonce aad body tag of
          None \<Rightarrow> Inl ErrGmSSL
        | Some plain \<Rightarrow> Inr plain)"

definition SM4GCM :: "sm4_lib \<Rightarrow> bytes \<Rightarrow> Cipher" where
  "SM4GCM lib key =
     \<lparr>cAlgorithm = AlgSM4GCM,
      cSeal = (\<lambda>rand p. map_sum gm_gerr id (SM4GCM_SealAAD lib key rand p [])),
      cOpen = (\<lambda>ct. map_sum gm_gerr id (SM4GCM_OpenAAD lib key ct [])),
      cAAD = Some (\<lambda>rand p aad. map_sum gm_gerr id (SM4GCM_SealAAD lib key rand p aad),
                   \<lambda>ct aad. map_sum gm_gerr id (SM4GCM_OpenAAD lib key ct aad))\<rparr>"

section \<open>SM2\<close>

text \<open>A wrapper holds the keys of \<^verbatim>\<open>hasPublic\<close> and \<^verbatim>\<open>hasPrivate\<close>; \<open>'k\<close> is \<^verbatim>\<open>SM2_KEY\<close>.\<close>

record 'k SM2KeyWrapper =
  sm2_public :: "'k option"
  sm2_private :: "'k option"

definition NewSM2KeyWrapper ::
  "(bytes \<Rightarrow> 'k option) \<Rightarrow> (bytes \<Rightarrow> 'k option) \<Rightarrow> bytes \<Rightarrow> bytes \<Rightarrow> gm_error + 'k SM2KeyWrapper"
where
  "NewSM2KeyWrapper from_private from_public publicKey privateKey =
     (let priv = (if length privateKey \<noteq> 32 then None else from_private privateKey);
          pub = (if length publicKey \<noteq> 64 \<and> length publicKey \<noteq> 65 then None else from_public publicKey) in
      if privateKey \<noteq> [] \<and> priv = None then Inl ErrInvalidSM2Key
      else
        let w = (if privateKey \<noteq> [] then \<lparr>sm2_public = priv, sm2_private = priv\<rparr> else \<lparr>sm2_public = None, sm2_private = None\<rparr>) in
        if publicKey \<noteq> [] \<and> pub = None then Inl ErrInvalidSM2Key
        else
          let w' = (if publicKey \<noteq> [] then w\<lparr>sm2_public := pub\<rparr> else w) in
          if sm2_public w' = None \<and> sm2_private w' = None then Inl ErrInvalidSM2Key else Inr w')"

definition GenerateSM2Key :: "(bytes \<times> bytes) option \<Rightarrow> gm_error + bytes \<times> bytes" where
  "GenerateSM2Key generated = (case generated of None \<Rightarrow> Inl ErrGmSSL | Some keys \<Rightarrow> Inr keys)"

definition SM2_Wrap :: "('k \<Rightarrow> bytes \<Rightarrow> bytes option) \<Rightarrow> 'k SM2KeyWrapper \<Rightarrow> bytes \<Rightarrow> gm_error + bytes" where
  "SM2_Wrap encrypt w key =
     (case sm2_public w of
        None \<Rightarrow> Inl (GmKey ErrMissingPublicKey)
      | Some k \<Rightarrow>
          if key = [] \<or> 255 < length key then Inl ErrMessageTooLarge
          else case encrypt k key of None \<Rightarrow> Inl ErrGmSSL | Some out \<Rightarrow> Inr out)"

definition SM2_Unwrap :: "('k \<Rightarrow> bytes \<Rightarrow> bytes option) \<Rightarrow> 'k SM2KeyWrapper \<Rightarrow> bytes \<Rightarrow> gm_error + bytes" where
  "SM2_Unwrap decrypt w wrapped =
     (case sm2_private w of
        None \<Rightarrow> Inl (GmKey ErrMissingPrivateKey)
      | Some k \<Rightarrow>
          if wrapped = [] then Inl GmCiphertextTooShort
          else case decrypt k wrapped of None \<Rightarrow> Inl ErrGmSSL | Some out \<Rightarrow> Inr out)"

section \<open>Correctness\<close>

text \<open>What GCM promises: the tag has 16 bytes, and decryption inverts encryption.\<close>

definition sm4_law :: "sm4_lib \<Rightarrow> bytes \<Rightarrow> bool" where
  "sm4_law lib key \<longleftrightarrow>
     (\<forall>nonce aad p ct tag. gcmEncrypt lib key nonce aad p = Some (ct, tag) \<longrightarrow>
        length tag = 16 \<and> gcmDecrypt lib key nonce aad ct tag = Some p)"

lemma sm4_open_seal:
  assumes "sm4_law lib key" "rng_ok rand" "SM4GCM_SealAAD lib key rand p aad = Inr c"
  shows "SM4GCM_OpenAAD lib key c aad = Inr p"
proof -
  from assms(3) obtain nonce ct tag where
    c: "rand 12 = Inr nonce" "gcmEncrypt lib key nonce aad p = Some (ct, tag)" "c = nonce @ ct @ tag"
    by (auto simp: SM4GCM_SealAAD_def split: sum.splits option.splits)
  have "length nonce = 12" using assms(2) c(1) by (simp add: rng_ok_def)
  moreover have "length tag = 16" "gcmDecrypt lib key nonce aad ct tag = Some p"
    using assms(1) c(2) by (auto simp: sm4_law_def)
  ultimately show ?thesis by (simp add: SM4GCM_OpenAAD_def c(3))
qed

text \<open>So an SM4 codec meets the assumption of the wire round trip, as an AES codec does.\<close>

lemma reversible_SM4GCM: "sm4_law lib key \<Longrightarrow> reversible (SM4GCM lib key)"
  using sm4_open_seal
  by (fastforce simp: reversible_def seal_with_def open_with_def SM4GCM_def map_sum_def split: sum.splits)

text \<open>A wrapper that is built from a private key alone can wrap and unwrap.\<close>

lemma sm2_roundtrip:
  assumes "length privateKey = 32" "from_private privateKey = Some k"
    and "0 < length key" "length key \<le> 255" "encrypt k key = Some w" "w \<noteq> []" "decrypt k w = Some key"
  shows "\<exists>x. NewSM2KeyWrapper from_private from_public [] privateKey = Inr x
     \<and> SM2_Wrap encrypt x key = Inr w \<and> SM2_Unwrap decrypt x w = Inr key"
  using assms by (auto simp: NewSM2KeyWrapper_def SM2_Wrap_def SM2_Unwrap_def Let_def)

end
