(* ===== verification/TLS_Listener.thy ===== *)
theory TLS_Listener
  imports Ogre_Prelude "HOL-Library.Multiset"
begin

text \<open>
  The accept path of the \<^verbatim>\<open>wss\<close> listener (\<^verbatim>\<open>transport/websocket_tls.go\<close>): \<^verbatim>\<open>acceptLoop\<close>, one handshake goroutine for every
  accepted connection, calls of \<^verbatim>\<open>Accept\<close> by the HTTP server, and \<^verbatim>\<open>Close\<close>. Each event is one step of one of them, so
  that they interleave. Connections are numbered in the order in which the underlying listener accepts them; \<open>served\<close>
  and \<open>dropped\<close> record the connections that \<^verbatim>\<open>Accept\<close> returned and that a handshake goroutine closed, \<open>results\<close> the
  errors that \<^verbatim>\<open>Accept\<close> returned.
\<close>

datatype 'e loop_at = Accepting | Failed 'e | Recording 'e | Cancelling | LoopDone

datatype 'e accept_error = NetErrClosed | Base 'e

record 'e gated =
  loop :: "'e loop_at"
  ctx_done :: bool
  closed_once :: bool
  base_open :: bool
  lerr :: "'e option"
  accepted :: nat
  shaking :: "nat list"
  offering :: "nat list"
  served :: "nat list"
  dropped :: "nat list"
  results :: "'e accept_error list"

definition newGatedTLSListener :: "'e gated" where
  "newGatedTLSListener = \<lparr>loop = Accepting, ctx_done = False, closed_once = False, base_open = True, lerr = None,
     accepted = 0, shaking = [], offering = [], served = [], dropped = [], results = []\<rparr>"

text \<open>
  What can happen next. \<open>BaseConn\<close> and \<open>BaseErr\<close> are the outcomes of the underlying \<^verbatim>\<open>Accept\<close>, \<open>HandshakeFails\<close> and
  \<open>HandshakeDone\<close> those of a handshake (admission, TLS and rebinding included), \<open>Hand\<close> and \<open>CtxDone\<close> the branches of the
  select at its end, \<open>AcceptDone\<close> the second branch of \<^verbatim>\<open>Accept\<close>, and \<open>ParentDone\<close> the end of the listener's context.
\<close>

datatype 'e gated_event =
    BaseConn | BaseErr 'e | LoopStep
  | HandshakeFails nat | HandshakeDone nat | Hand nat | CtxDone nat
  | AcceptDone | CloseCancel | CloseBase | ParentDone

fun loop_step :: "'e gated \<Rightarrow> 'e gated option" where
  "loop_step s =
     (case loop s of
        Accepting \<Rightarrow> None
      | Failed e \<Rightarrow> Some (s\<lparr>loop := if ctx_done s then Cancelling else Recording e\<rparr>)
      | Recording e \<Rightarrow> Some (s\<lparr>lerr := Some e, loop := Cancelling\<rparr>)
      | Cancelling \<Rightarrow> Some (s\<lparr>ctx_done := True, loop := LoopDone\<rparr>)
      | LoopDone \<Rightarrow> None)"

definition accept_result :: "'e gated \<Rightarrow> 'e accept_error" where
  "accept_result s = (case lerr s of Some e \<Rightarrow> Base e | None \<Rightarrow> NetErrClosed)"

fun gated_step :: "'e gated_event \<Rightarrow> 'e gated \<Rightarrow> 'e gated option" where
  "gated_step BaseConn s =
     (if loop s = Accepting \<and> base_open s then Some (s\<lparr>accepted := accepted s + 1, shaking := accepted s # shaking s\<rparr>) else None)"
| "gated_step (BaseErr e) s = (if loop s = Accepting then Some (s\<lparr>loop := Failed e\<rparr>) else None)"
| "gated_step LoopStep s = loop_step s"
| "gated_step (HandshakeFails c) s =
     (if c \<in> set (shaking s) then Some (s\<lparr>shaking := remove1 c (shaking s), dropped := dropped s @ [c]\<rparr>) else None)"
| "gated_step (HandshakeDone c) s =
     (if c \<in> set (shaking s) then Some (s\<lparr>shaking := remove1 c (shaking s), offering := c # offering s\<rparr>) else None)"
| "gated_step (Hand c) s =
     (if c \<in> set (offering s) then Some (s\<lparr>offering := remove1 c (offering s), served := served s @ [c]\<rparr>) else None)"
| "gated_step (CtxDone c) s =
     (if ctx_done s \<and> c \<in> set (offering s)
      then Some (s\<lparr>offering := remove1 c (offering s), dropped := dropped s @ [c]\<rparr>) else None)"
| "gated_step AcceptDone s = (if ctx_done s then Some (s\<lparr>results := results s @ [accept_result s]\<rparr>) else None)"
| "gated_step CloseCancel s = (if closed_once s then None else Some (s\<lparr>closed_once := True, ctx_done := True\<rparr>))"
| "gated_step CloseBase s = (if closed_once s then Some (s\<lparr>base_open := False\<rparr>) else None)"
| "gated_step ParentDone s = Some (s\<lparr>ctx_done := True\<rparr>)"

fun gated_run :: "'e gated_event list \<Rightarrow> 'e gated \<Rightarrow> 'e gated option" where
  "gated_run [] s = Some s"
| "gated_run (ev # evs) s = Option.bind (gated_step ev s) (gated_run evs)"

section \<open>Correctness\<close>

definition in_flight :: "'e gated \<Rightarrow> nat multiset" where
  "in_flight s = mset (shaking s) + mset (offering s)"

definition conserved :: "'e gated \<Rightarrow> bool" where
  "conserved s \<longleftrightarrow> in_flight s + mset (served s) + mset (dropped s) = mset [0..<accepted s]"

lemma conserved_start: "conserved newGatedTLSListener"
  by (simp add: conserved_def newGatedTLSListener_def in_flight_def)

lemma remove1_add: "c \<in> set xs \<Longrightarrow> mset xs = add_mset c (mset (remove1 c xs))"
  by simp

lemma conserved_move:
  assumes "conserved s"
  shows "c \<in> set (shaking s) \<Longrightarrow> conserved (s\<lparr>shaking := remove1 c (shaking s), dropped := dropped s @ [c]\<rparr>)"
    and "c \<in> set (shaking s) \<Longrightarrow> conserved (s\<lparr>shaking := remove1 c (shaking s), offering := c # offering s\<rparr>)"
    and "c \<in> set (offering s) \<Longrightarrow> conserved (s\<lparr>offering := remove1 c (offering s), served := served s @ [c]\<rparr>)"
    and "c \<in> set (offering s) \<Longrightarrow> conserved (s\<lparr>offering := remove1 c (offering s), dropped := dropped s @ [c]\<rparr>)"
  using assms remove1_add [of c "shaking s"] remove1_add [of c "offering s"]
  by (simp_all add: conserved_def in_flight_def del: mset_remove1)

lemma conserved_new:
  "conserved s \<Longrightarrow> conserved (s\<lparr>accepted := accepted s + 1, shaking := accepted s # shaking s\<rparr>)"
  by (simp add: conserved_def in_flight_def del: mset_upt)

lemma conserved_other:
  "conserved s \<Longrightarrow> in_flight t = in_flight s \<Longrightarrow> served t = served s \<Longrightarrow> dropped t = dropped s \<Longrightarrow> accepted t = accepted s
    \<Longrightarrow> conserved t"
  by (simp add: conserved_def)

lemma conserved_step:
  assumes "gated_step ev s = Some t" "conserved s"
  shows "conserved t"
proof (cases ev)
  case BaseConn
  then show ?thesis using assms conserved_new [OF assms(2)] by (auto split: if_splits)
next
  case LoopStep
  then show ?thesis using assms(1) by (intro conserved_other [OF assms(2)]) (auto simp: in_flight_def split: loop_at.splits)
next
  case (HandshakeFails c)
  then show ?thesis using assms(1) conserved_move(1) [OF assms(2), of c] by (auto split: if_splits)
next
  case (HandshakeDone c)
  then show ?thesis using assms(1) conserved_move(2) [OF assms(2), of c] by (auto split: if_splits)
next
  case (Hand c)
  then show ?thesis using assms(1) conserved_move(3) [OF assms(2), of c] by (auto split: if_splits)
next
  case (CtxDone c)
  then show ?thesis using assms(1) conserved_move(4) [OF assms(2), of c] by (auto split: if_splits)
qed (use assms(1) in \<open>(intro conserved_other [OF assms(2)]; auto simp: in_flight_def split: if_splits)+\<close>)

lemma conserved_run: "gated_run evs s = Some t \<Longrightarrow> conserved s \<Longrightarrow> conserved t"
  by (induction evs arbitrary: s) (auto simp: bind_eq_Some_conv dest: conserved_step)

text \<open>
  No accepted connection is lost or handled twice: each is in a handshake goroutine, was returned by exactly one
  \<^verbatim>\<open>Accept\<close>, or was closed exactly once, and a goroutine that waits when the context is done can always close its own.
\<close>

lemma gated_conserves:
  assumes "gated_run evs newGatedTLSListener = Some s"
  shows "distinct (served s @ dropped s)"
    and "set (served s) \<union> set (dropped s) \<union> set_mset (in_flight s) = {..<accepted s}"
    and "ctx_done s \<Longrightarrow> c \<in> set (offering s) \<Longrightarrow> \<exists>t. gated_step (CtxDone c) s = Some t"
proof -
  have eq: "in_flight s + mset (served s @ dropped s) = mset [0..<accepted s]"
    using conserved_run [OF assms conserved_start] by (simp add: conserved_def add.assoc)
  obtain ys where "mset ys = in_flight s" using ex_mset by blast
  with eq have "mset (ys @ served s @ dropped s) = mset [0..<accepted s]" by simp
  from mset_eq_imp_distinct_iff [OF this] show "distinct (served s @ dropped s)" by simp
  show "set (served s) \<union> set (dropped s) \<union> set_mset (in_flight s) = {..<accepted s}"
    using arg_cong [OF eq, of set_mset] by (simp add: atLeast0LessThan Un_ac)
qed simp

text \<open>
  When the loop has ended with an error, however temporary, the listener is dead without being closed: no connection is
  accepted any more and every later \<^verbatim>\<open>Accept\<close> fails with that same error.
\<close>

lemma gated_dead_step:
  assumes "gated_step ev s = Some t" "loop s = LoopDone" "lerr s = Some e"
  shows "loop t = LoopDone \<and> lerr t = Some e \<and> accepted t = accepted s
    \<and> (results t = results s \<or> results t = results s @ [Base e])"
  using assms by (cases ev) (auto simp: accept_result_def split: if_splits)

lemma gated_dead:
  assumes "gated_run evs s = Some t" "loop s = LoopDone" "lerr s = Some e"
  shows "accepted t = accepted s \<and> (\<exists>n. results t = results s @ replicate n (Base e))"
  using assms
proof (induction evs arbitrary: s)
  case (Cons ev evs)
  from Cons.prems(1) obtain u where u: "gated_step ev s = Some u" "gated_run evs u = Some t"
    by (auto simp: bind_eq_Some_conv)
  note d = gated_dead_step [OF u(1) Cons.prems(2,3)]
  with Cons.IH [OF u(2)] obtain n where "accepted t = accepted s" "results t = results u @ replicate n (Base e)" by auto
  moreover from this(2) d have "results t = results s @ replicate n (Base e) \<or> results t = results s @ replicate (Suc n) (Base e)"
    by auto
  ultimately show ?case by blast
qed simp

lemma gated_temporary_error:
  "\<exists>s. gated_run [BaseErr e, LoopStep, LoopStep, LoopStep] newGatedTLSListener = Some s
     \<and> loop s = LoopDone \<and> lerr s = Some e \<and> base_open s \<and> \<not> closed_once s"
  by (simp add: newGatedTLSListener_def)

end
