(* ===== verification/Stats.thy ===== *)
theory Stats
  imports Engine Observer Stream_Session WebSocket_Session Packet_Session
begin

text \<open>
  Statistics (\<^verbatim>\<open>transport/stats.go\<close>, \<^verbatim>\<open>admissionController.snapshot\<close>): a snapshot reads the fields one after another,
  while the other goroutines go on. The state is therefore a function \<open>at\<close> of the read: \<open>at i\<close> is the state at the
  \<open>i\<close>-th read of the snapshot. \<open>now\<close> is the time since the resource started, when its age is read.
\<close>

record EngineStats =
  OpeningConnections :: nat
  ActiveConnections :: nat
  DrainingConnections :: nat
  ActiveHandshakes :: nat
  PendingUpgrades :: nat
  GlobalQueuedBytes :: nat
  RejectedConnections :: nat
  RejectedPeers :: nat
  RejectedListeners :: nat
  RejectedHandshakes :: nat
  RejectedUpgrades :: nat
  RejectedQueuedBytes :: nat
  ObserverDroppedEvents :: u64
  ObserverPanics :: u64

text \<open>The first five counters are read in one critical section.\<close>

definition engine_Stats :: "(nat \<Rightarrow> engine) \<Rightarrow> (nat \<Rightarrow> 'v dispatcher) option \<Rightarrow> EngineStats" where
  "engine_Stats at obs =
     \<lparr>OpeningConnections = nonNegativeUint64 (nopening (eadm (at 0))),
      ActiveConnections = nonNegativeUint64 (nactive (eadm (at 0))),
      DrainingConnections = nonNegativeUint64 (ndraining (eadm (at 0))),
      ActiveHandshakes = nonNegativeUint64 (handshakes (eadm (at 0))),
      PendingUpgrades = nonNegativeUint64 (upgrades (eadm (at 0))),
      GlobalQueuedBytes = nonNegativeUint64 (qused (qbytes (eadm (at 1)))),
      RejectedConnections = rejectedConnections (eadm (at 2)), RejectedPeers = rejectedPeers (eadm (at 3)),
      RejectedListeners = rejectedListeners (eadm (at 4)), RejectedHandshakes = rejectedHandshakes (eadm (at 5)),
      RejectedUpgrades = rejectedUpgrades (eadm (at 6)), RejectedQueuedBytes = qrejected (qbytes (eadm (at 7))),
      ObserverDroppedEvents = (case obs of None \<Rightarrow> 0 | Some d \<Rightarrow> Observer.dropped (d 0)),
      ObserverPanics = (case obs of None \<Rightarrow> 0 | Some d \<Rightarrow> panics (d 1))\<rparr>"

record SessionStats =
  Age :: int
  StatBytesRX :: u64
  StatBytesTX :: u64
  StatMessagesRX :: u64
  StatMessagesTX :: u64
  StatBackpressure :: u64
  StatDecodeErrors :: u64
  QueuedFrames :: nat
  QueuedBytes :: nat

definition session_Stats :: "int \<Rightarrow> resourceAge \<Rightarrow> (nat \<Rightarrow> 'a sst_scheme) \<Rightarrow> SessionStats" where
  "session_Stats now a at =
     \<lparr>Age = age_current now a, StatBytesRX = stats (at 0) BytesRX, StatBytesTX = stats (at 1) BytesTX,
      StatMessagesRX = stats (at 2) MessagesRX, StatMessagesTX = stats (at 3) MessagesTX,
      StatBackpressure = stats (at 4) Backpressure, StatDecodeErrors = stats (at 5) DecodeErrors,
      QueuedFrames = nat (slots (at 6)), QueuedBytes = nonNegativeUint64 (qused (quota (at 7)))\<rparr>"

record PacketConnStats =
  PacketAge :: int
  PacketBytesRX :: u64
  PacketBytesTX :: u64
  PacketsRX :: u64
  PacketsTX :: u64
  PacketBackpressure :: u64
  StatDroppedDatagrams :: u64
  QueuedPackets :: nat
  PacketQueuedBytes :: nat

definition packet_Stats :: "int \<Rightarrow> resourceAge \<Rightarrow> (nat \<Rightarrow> 'a sst_scheme) \<Rightarrow> PacketConnStats" where
  "packet_Stats now a at =
     \<lparr>PacketAge = age_current now a, PacketBytesRX = stats (at 0) BytesRX, PacketBytesTX = stats (at 1) BytesTX,
      PacketsRX = stats (at 2) MessagesRX, PacketsTX = stats (at 3) MessagesTX,
      PacketBackpressure = stats (at 4) Backpressure, StatDroppedDatagrams = stats (at 5) DroppedDatagrams,
      QueuedPackets = nat (slots (at 6)), PacketQueuedBytes = nonNegativeUint64 (qused (quota (at 7)))\<rparr>"

record ListenerStats =
  ListenerAge :: int
  AcceptedConnections :: u64
  ListenerRejected :: nat
  CurrentConnections :: nat

text \<open>The stream and the WebSocket listener have the same method.\<close>

definition listener_Stats ::
  "int \<Rightarrow> (resourceAge \<times> u64) option \<Rightarrow> (nat \<Rightarrow> listenerCapacity) option \<Rightarrow> ListenerStats"
where
  "listener_Stats now counters capacity =
     \<lparr>ListenerAge = (case counters of None \<Rightarrow> 0 | Some (a, _) \<Rightarrow> age_current now a),
      AcceptedConnections = (case counters of None \<Rightarrow> 0 | Some (_, n) \<Rightarrow> n),
      ListenerRejected = (case capacity of None \<Rightarrow> 0 | Some c \<Rightarrow> crejected (c 0)),
      CurrentConnections = (case capacity of None \<Rightarrow> 0 | Some c \<Rightarrow> nonNegativeUint64 (cused (c 1)))\<rparr>"

section \<open>Correctness\<close>

lemma nonNegativeUint64_nat: "nonNegativeUint64 v = nat v"
  by (simp add: nonNegativeUint64_def)

text \<open>
  The connections of an Engine's statistics are those of one moment: the leases that operations hold and the
  tracked sessions.
\<close>

lemma engine_stats_exact:
  assumes "reachable einit (estep http) s" "at 0 = eng s"
  shows "int (OpeningConnections (engine_Stats at obs)) = tsum t_open (thr s)
     \<and> ActiveConnections (engine_Stats at obs) + DrainingConnections (engine_Stats at obs) = length (sessions (eng s))
     \<and> int (ActiveHandshakes (engine_Stats at obs)) = tsum (t_act Handshake) (thr s)
     \<and> int (PendingUpgrades (engine_Stats at obs)) = tsum (t_act Upgrade) (thr s)"
proof -
  have inv: "einv s" using engine_sys.reachable_inv [OF assms(1)] .
  have z: "0 \<le> tsum f ts" if "\<And>t. 0 \<le> f t" for f :: "_ \<Rightarrow> int" and ts
    using that by (induction ts) (auto intro: add_nonneg_nonneg)
  note nonneg = z [of t_open "thr s", OF thread_nonneg(2)] z [of "t_act Handshake" "thr s", OF thread_nonneg(3)]
    z [of "t_act Upgrade" "thr s", OF thread_nonneg(3)]
  have "0 \<le> ssum st (eng s)" for st
    unfolding ssum_def by (rule sum_list_nonneg) (auto simp: lease_in_def split: option.splits)
  then have "nat (ssum connectionActive (eng s)) + nat (ssum connectionDraining (eng s)) = length (sessions (eng s))"
    using inv ssum_total [of "eng s"] by (simp add: einv_def nat_add_distrib [symmetric])
  then show ?thesis using inv nonneg
    by (simp add: einv_def leases_ok_def engine_Stats_def assms(2) nonNegativeUint64_nat)
qed

text \<open>What a session reports as queued is within its limits at every read, and nothing once its goroutines have returned.\<close>

lemma session_stats_bounds:
  assumes "\<And>i. 0 \<le> slots (at i) \<and> slots (at i) \<le> int w + 1 \<and> 0 \<le> qused (quota (at i)) \<and> qused (quota (at i)) \<le> m"
  shows "QueuedFrames (session_Stats now a at) \<le> w + 1 \<and> int (QueuedBytes (session_Stats now a at)) \<le> m"
    and "QueuedPackets (packet_Stats now a at) \<le> w + 1 \<and> int (PacketQueuedBytes (packet_Stats now a at)) \<le> m"
  using assms [of 6] assms [of 7]
  by (auto simp: session_Stats_def packet_Stats_def nonNegativeUint64_nat)

lemma stream_stats:
  assumes "\<And>i. conn_run cfg (c i)" "\<And>i. wqueue (pst (c i)) = w" "\<And>i. qlimit (quota (pst (c i))) = m"
  shows "QueuedFrames (session_Stats now a (\<lambda>i. pst (c i))) \<le> w + 1 \<and> int (QueuedBytes (session_Stats now a (\<lambda>i. pst (c i)))) \<le> m"
proof (rule session_stats_bounds(1))
  fix i
  show "0 \<le> slots (pst (c i)) \<and> slots (pst (c i)) \<le> int w + 1 \<and> 0 \<le> qused (quota (pst (c i))) \<and> qused (quota (pst (c i))) \<le> m"
    using conn_loops.reachable_W [OF assms(1) [of i]] conn_loops.own_nonneg [OF assms(1) [of i], of Slot] assms(2,3) [of i]
    by (simp add: swf_def quota_wf_def)
qed

lemma packet_stats:
  assumes "\<And>i. packet_running p (c i)" "\<And>i. wqueue (pst (c i)) = w" "\<And>i. qlimit (quota (pst (c i))) = m"
  shows "QueuedPackets (packet_Stats now a (\<lambda>i. pst (c i))) \<le> w + 1
     \<and> int (PacketQueuedBytes (packet_Stats now a (\<lambda>i. pst (c i)))) \<le> m"
proof (rule session_stats_bounds(2))
  fix i
  show "0 \<le> slots (pst (c i)) \<and> slots (pst (c i)) \<le> int w + 1 \<and> 0 \<le> qused (quota (pst (c i))) \<and> qused (quota (pst (c i))) \<le> m"
    using packet_loops.reachable_W [OF assms(1) [of i]] packet_loops.own_nonneg [OF assms(1) [of i], of Slot] assms(2,3) [of i]
    by (simp add: swf_def quota_wf_def)
qed

lemma stream_stats_idle:
  assumes "conn_run cfg c" "set (threads c) \<subseteq> {Ret None}"
  shows "QueuedFrames (session_Stats now a (\<lambda>_. pst c)) = 0 \<and> QueuedBytes (session_Stats now a (\<lambda>_. pst c)) = 0"
  using session_idle [OF conn_loops.reachable_W [OF assms(1)] conn_loops.quiescent [OF assms]]
  by (simp add: session_Stats_def nonNegativeUint64_def)

end
