(* ===== verification/Peer_Key.thy ===== *)
theory Peer_Key
  imports Endpoint
begin

text \<open>
  The key under which admission control counts the connections of a peer (\<^verbatim>\<open>peerKey\<close> and \<^verbatim>\<open>canonicalIP\<close> of
  \<^verbatim>\<open>transport/limits.go\<close>), with the text form of an address that \<^verbatim>\<open>net.IP\<close> gives it.
\<close>

section \<open>The text form of an address\<close>

definition To4 :: "bytes \<Rightarrow> bytes option" where
  "To4 ip =
     (if length ip = 4 then Some ip
      else if length ip = 16 \<and> take 12 ip = replicate 10 0 @ [255, 255] then Some (drop 12 ip)
      else None)"

fun join_with :: "char \<Rightarrow> string list \<Rightarrow> string" where
  "join_with c [] = []"
| "join_with c [s] = s"
| "join_with c (s # ss) = s @ c # join_with c ss"

definition hex_digit :: "int \<Rightarrow> char" where
  "hex_digit n = (if n < 10 then char_of (48 + n) else char_of (87 + n))"

definition hex16 :: "int \<Rightarrow> string" where
  "hex16 n = (let ds = [n div 4096 mod 16, n div 256 mod 16, n div 16 mod 16, n mod 16] in
     map hex_digit (if n = 0 then [0] else dropWhile (\<lambda>d. d = 0) ds))"

fun groups16 :: "bytes \<Rightarrow> int list" where
  "groups16 (a # b # bs) = (256 * uint a + uint b) # groups16 bs"
| "groups16 _ = []"

text \<open>The first longest run of at least two zero groups, as its start and length; none is length 0.\<close>

fun zero_run :: "nat \<Rightarrow> int list \<Rightarrow> nat \<times> nat \<Rightarrow> nat \<times> nat" where
  "zero_run i [] best = best"
| "zero_run i (g # gs) best =
     (let l = length (takeWhile (\<lambda>x. x = 0) (g # gs)) in
      zero_run (i + 1) gs (if 2 \<le> l \<and> snd best < l then (i, l) else best))"

definition string6 :: "bytes \<Rightarrow> string" where
  "string6 ip =
     (let gs = groups16 ip; (i, l) = zero_run 0 gs (0, 0); ts = map hex16 gs; sep = CHR '':'' in
      if l = 0 then join_with sep ts
      else join_with sep (take i ts) @ ''::'' @ join_with sep (drop (i + l) ts))"

definition string4 :: "bytes \<Rightarrow> string" where
  "string4 ip = join_with (CHR ''.'') (map (\<lambda>b. Itoa (unat b)) ip)"

definition hex_bytes :: "bytes \<Rightarrow> string" where
  "hex_bytes ip = concat (map (\<lambda>b. [hex_digit (uint b div 16), hex_digit (uint b mod 16)]) ip)"

definition IP_String :: "bytes \<Rightarrow> string" where
  "IP_String ip =
     (if ip = [] then ''<nil>''
      else if length ip \<noteq> 4 \<and> length ip \<noteq> 16 then CHR ''?'' # hex_bytes ip
      else case To4 ip of Some p \<Rightarrow> string4 p | None \<Rightarrow> string6 ip)"

section \<open>Keys\<close>

definition canonicalIP :: "bytes \<Rightarrow> string" where
  "canonicalIP ip = (case To4 ip of Some v4 \<Rightarrow> IP_String v4 | None \<Rightarrow> IP_String ip)"

text \<open>
  \<open>split\<close> is the host of \<^verbatim>\<open>net.SplitHostPort\<close> on the address's text form and \<open>parse\<close> is \<^verbatim>\<open>net.ParseIP\<close>.
\<close>

definition peerKey :: "(net_addr \<Rightarrow> string option) \<Rightarrow> (string \<Rightarrow> bytes option) \<Rightarrow> net_addr option \<Rightarrow> string" where
  "peerKey split parse addr =
     (case addr of
        None \<Rightarrow> []
      | Some (TCPAddr None) \<Rightarrow> []
      | Some (TCPAddr (Some a)) \<Rightarrow> canonicalIP (addrIP a)
      | Some (UDPAddr None) \<Rightarrow> []
      | Some (UDPAddr (Some a)) \<Rightarrow> canonicalIP (addrIP a)
      | Some other \<Rightarrow>
          (case split other of
             None \<Rightarrow> []
           | Some host \<Rightarrow> (case parse host of None \<Rightarrow> host | Some ip \<Rightarrow> canonicalIP ip)))"

section \<open>Correctness\<close>

lemma Itoa_dot_inject:
  assumes "Itoa a @ CHR ''.'' # x = Itoa b @ CHR ''.'' # y"
  shows "a = b \<and> x = y"
proof -
  have d: "takeWhile is_digit (Itoa n @ CHR ''.'' # z) = Itoa n" "dropWhile is_digit (Itoa n @ CHR ''.'' # z) = CHR ''.'' # z"
    for n z
    using Itoa_digits [of n] by (simp_all add: list_all_iff is_digit_def)
  have e: "Itoa a = Itoa b" using arg_cong [OF assms, of "takeWhile is_digit"] by (simp only: d)
  have "x = y" using arg_cong [OF assms, of "dropWhile is_digit"] by (simp only: d list.inject)
  with arg_cong [OF e, of decimal] show ?thesis by simp
qed

lemma Itoa_inject: "Itoa a = Itoa b \<Longrightarrow> a = b"
  by (metis decimal_Itoa)

lemma string4_inject:
  "length p = 4 \<Longrightarrow> length q = 4 \<Longrightarrow> string4 p = string4 q \<Longrightarrow> p = q"
  by (auto simp: string4_def numeral_eq_Suc length_Suc_conv word_unat_eq_iff dest!: Itoa_dot_inject Itoa_inject)

lemma To4_length: "To4 ip = Some v \<Longrightarrow> length v = 4"
  by (auto simp: To4_def split: if_splits)

lemma canonicalIP_v4: "To4 ip = Some v \<Longrightarrow> canonicalIP ip = string4 v"
  by (auto simp: canonicalIP_def IP_String_def dest!: To4_length) (auto simp: To4_def)

text \<open>
  Two IPv4 peers share a count exactly when they have the same address, whatever their ports and protocols are and
  whether the address comes in its 4-byte or its IPv6-mapped form.
\<close>

lemma peerKey_v4:
  assumes "To4 (addrIP a) = Some v" "To4 (addrIP b) = Some w"
  shows "peerKey split parse (Some (TCPAddr (Some a))) = peerKey split' parse' (Some (UDPAddr (Some b))) \<longleftrightarrow> v = w"
    and "peerKey split parse (Some (TCPAddr (Some a))) = peerKey split' parse' (Some (TCPAddr (Some b))) \<longleftrightarrow> v = w"
  using string4_inject [of v w] To4_length [OF assms(1)] To4_length [OF assms(2)]
  by (auto simp: peerKey_def canonicalIP_v4 [OF assms(1)] canonicalIP_v4 [OF assms(2)])

text \<open>An address in another form counts with the TCP peers of the address that it names.\<close>

lemma peerKey_text:
  assumes "split (staticAddr n s) = Some host" "parse host = Some (addrIP a)"
  shows "peerKey split parse (Some (staticAddr n s)) = peerKey split' parse' (Some (TCPAddr (Some a)))"
  using assms by (simp add: peerKey_def)

lemma IP_String_examples:
  "IP_String [32, 1, 13, 184, 0, 0, 0, 0, 0, 1, 0, 0, 0, 0, 0, 1] = ''2001:db8::1:0:0:1''"
  "IP_String [0, 0, 0, 0, 0, 0, 0, 0, 0, 0, 0, 0, 0, 0, 0, 1] = ''::1''"
  "IP_String [0, 0, 0, 0, 0, 0, 0, 0, 0, 0, 255, 255, 10, 0, 0, 7] = ''10.0.0.7''"
  by code_simp+

end
