(* ===== verification/Spec2Isabelle.thy ===== *)
theory Spec2Isabelle
  imports Error_Model Messages Base64 Wire Quota Session_State Limits Engine Stream_IO Stream_Session WebSocket_IO WebSocket_Session Packet_Session
    Pollers Quic HTTP_Client Activity_Clock Observer Options Endpoint Conn_Setup HTTP_Tracker Key_Wrap GmSSL TLS_Listener Stats Peer_Key
begin

text \<open>
  A verification of \<^bold>\<open>ogrenet\<close>, a Go library for message-oriented connections over TCP, TLS, WebSocket and UDP, with
  HTTP and QUIC clients and three poller packages. Paths are relative to the root of the repository.

  \<^bold>\<open>The program.\<close> An Engine (\<^verbatim>\<open>transport/engine*.go\<close>) is configured by options and creates sessions: \<^verbatim>\<open>Dial\<close> and \<^verbatim>\<open>Listen\<close> for
  streams and WebSockets, \<^verbatim>\<open>DialPacket\<close> and \<^verbatim>\<open>ListenPacket\<close> for datagrams. Every connection passes admission control
  (\<^verbatim>\<open>limits.go\<close>), which leases it to the Engine until the session ends. A session has a send gate (\<^verbatim>\<open>gate.go\<close>), a lifecycle
  (\<^verbatim>\<open>lifecycle.go\<close>), a byte quota (\<^verbatim>\<open>quota.go\<close>), a bounded queue, and goroutines that write, read, watch for inactivity and
  finalize. Streams carry the frames of \<^verbatim>\<open>wire/wire.go\<close>; both streams and WebSockets may encrypt with a cipher of \<^verbatim>\<open>secure/\<close>.
  Failures are classified into one error envelope (\<^verbatim>\<open>error_model.go\<close>). Events go to an observer (\<^verbatim>\<open>observer.go\<close>). Shutting
  an Engine down drains its sessions and closes \<^verbatim>\<open>Done\<close> when nothing is left.

  \<^bold>\<open>Method.\<close> Pure code is a function. Values of Go's \<^verbatim>\<open>int\<close>, \<^verbatim>\<open>int64\<close> and \<^verbatim>\<open>time.Duration\<close> are integers, with \<open>add64\<close> where the
  sum can wrap around; bytes, header fields and counters are words. An error is a tree of type \<open>gerr\<close>, on which \<^verbatim>\<open>errors.Is\<close>
  and \<^verbatim>\<open>errors.As\<close> are computed; it is None or the left side of a sum where the code returns nil or a value.
  Concurrent code is a set of threads whose atomic steps are the critical sections, the compare-and-swap instructions and
  the channel operations of the source, interleaved in every order. Calls into the standard library that can fail, third-party
  packages and the operating system are parameters or events: their results are chosen freely, and what a
  theorem needs of them is a hypothesis of it.

  \<^bold>\<open>Foundations.\<close>
  \<^item> \<open>Ogre_Prelude\<close>: 64-bit arithmetic, lists, sums over threads, \<open>reachable\<close> and the locale \<open>invariant_system\<close>.
  \<^item> \<open>Go_Errors\<close>: error trees, sentinels, addresses. \<open>Error_Model\<close>: \<^verbatim>\<open>transport/error_model.go\<close> and \<^verbatim>\<open>error_classify*.go\<close>;
    what \<^verbatim>\<open>classifyOperational\<close> returns matches the cause and the sentinel of its kind.
  \<^item> \<open>Session_Prog\<close>: programs of atomic actions, threads that run them, \<open>exec\<close> for concrete runs, weakest preconditions
    with resources that a thread owns, and the locale \<open>session_loops\<close>, which turns them into invariants of every interleaving.

  \<^bold>\<open>Data.\<close>
  \<^item> \<open>Messages\<close> (\<^verbatim>\<open>message.go\<close>), \<open>Base64\<close>, \<open>Wire\<close> (\<^verbatim>\<open>wire/\<close>, \<^verbatim>\<open>secure/secure.go\<close>, \<^verbatim>\<open>secure/aesgcm.go\<close>): round trip, canonicity,
    bounds and the decoding contract of frames, which the locale \<open>framer_law\<close> states for the readers.
  \<^item> \<open>Key_Wrap\<close> (\<^verbatim>\<open>secure/rsa.go\<close>), \<open>GmSSL\<close> (\<^verbatim>\<open>secure/gmssl/gmssl.go\<close>): the guards of key wrapping; SM4-GCM is a reversible cipher.
  \<^item> \<open>Endpoint\<close> (\<^verbatim>\<open>endpoint.go\<close>): the round trip of endpoints. \<open>Peer_Key\<close>: the keys of peers in \<^verbatim>\<open>limits.go\<close>.
  \<^item> \<open>Options\<close> (\<^verbatim>\<open>transport/options.go\<close>, \<^verbatim>\<open>tls.go\<close>, \<^verbatim>\<open>timeouts.go\<close>): whatever options \<^verbatim>\<open>New\<close> accepts give a well-formed configuration.

  \<^bold>\<open>Shared resources.\<close>
  \<^item> \<open>Quota\<close> (\<^verbatim>\<open>quota.go\<close> and the global quota of \<^verbatim>\<open>limits.go\<close>): exact accounting and no lost wake-up.
  \<^item> \<open>Session_State\<close> (\<^verbatim>\<open>gate.go\<close>, \<^verbatim>\<open>lifecycle.go\<close>): the gate drains once, close goals have one winner, signals announce states.
  \<^item> \<open>Limits\<close> (\<^verbatim>\<open>limits.go\<close>): counters equal live leases. \<open>Engine\<close> (\<^verbatim>\<open>engine*.go\<close>): exact accounting, \<^verbatim>\<open>Done\<close> is safe and, on the
    stream, packet and dial paths, live; \<open>engine_done_missed\<close> shows the path on which it is not.
  \<^item> \<open>Activity_Clock\<close> (\<^verbatim>\<open>activity_clock.go\<close>), \<open>Observer\<close> (\<^verbatim>\<open>observer.go\<close>): expiry against time; refinement of a bounded queue.
  \<^item> \<open>Stats\<close> (\<^verbatim>\<open>stats.go\<close>): snapshots of a moving state agree with the accounting of the components they read.

  \<^bold>\<open>Sessions.\<close>
  \<^item> \<open>Session_Core\<close>: the state and the actions that all sessions share, with their invariant. \<open>Stream_IO\<close> (\<^verbatim>\<open>conn.go\<close>): the reader's
    buffer does not depend on how the stream is cut, and \<^verbatim>\<open>writeAll\<close> writes everything or fails.
  \<^item> \<open>Stream_Session\<close> (\<^verbatim>\<open>conn.go\<close>, \<^verbatim>\<open>admission.go\<close>, \<^verbatim>\<open>stream_graceful.go\<close>), \<open>WebSocket_IO\<close> and \<open>WebSocket_Session\<close> (\<^verbatim>\<open>websocket*.go\<close>),
    \<open>Packet_Session\<close> (\<^verbatim>\<open>packet*.go\<close>): the send path keeps its order and limits, nothing leaks, a graceful close that
    returns nil has written everything, and terminal states are final.
  \<^item> \<open>Conn_Setup\<close> (\<^verbatim>\<open>engine_session_api.go\<close>, \<^verbatim>\<open>engine_packet_api.go\<close>, \<^verbatim>\<open>engine_stream_*.go\<close>, \<^verbatim>\<open>tcp.go\<close>, \<^verbatim>\<open>listener.go\<close>,
    \<^verbatim>\<open>websocket_client.go\<close>, \<^verbatim>\<open>websocket_server.go\<close>): each call as a trace of acquisitions and releases, which replays to
    nothing left, or to one tracked session. \<open>HTTP_Tracker\<close> (\<^verbatim>\<open>websocket_server_admission.go\<close>) and \<open>TLS_Listener\<close>
    (\<^verbatim>\<open>websocket_tls.go\<close>): the interleaved parts of the WebSocket server; no lease and no connection is lost or used twice.

  \<^bold>\<open>Other packages.\<close> \<open>Pollers\<close> (\<^verbatim>\<open>epoll/\<close>, \<^verbatim>\<open>kqueue/\<close>, \<^verbatim>\<open>iocp/\<close>): closing races with every call and uses no closed descriptor.
  \<open>Quic\<close> (\<^verbatim>\<open>quic/\<close>, \<^verbatim>\<open>internal/quicpolicy/\<close>) and \<open>HTTP_Client\<close> (\<^verbatim>\<open>client/\<close>): policies, error envelopes, the construction of the
  protocol transports, and the fallback between HTTP versions.

  \<^bold>\<open>Bounds.\<close> There is no fuel in the session models: a loop of a goroutine is a thread that starts its body again, and a call
  that waits is a thread with no enabled step. \<open>decode_all\<close> recurses on the buffer and \<open>writeAll\<close> on the results
  of the writes; its completeness is proved from the documented progress of a writer. The theorems about quotas assume
  configured limits of at most half of the 64-bit range, so that the sums which the code compares are exact.

  \<^bold>\<open>Not modelled.\<close>
  \<^item> The text of errors, the \<^verbatim>\<open>String\<close> methods, and the fields of events other than kind, size and error: nothing decides on them.
  \<^item> \<^verbatim>\<open>transport.go\<close> and \<^verbatim>\<open>observer.go\<close> of the root package: interfaces and adapters without state.
  \<^item> The grammar of \<^verbatim>\<open>net/url\<close>, DNS, TLS, the WebSocket, QUIC and HTTP protocols, \<^verbatim>\<open>http.Server\<close>, the ciphers, and the C code of GmSSL
    with the pointers that are passed to it: code of other projects, represented by its results.
  \<^item> Time passes only in \<open>Activity_Clock\<close>; elsewhere a timer may fire at any moment and elapsed times are chosen freely. Fairness of the Go
    scheduler is not assumed, so liveness is stated for runs whose threads have returned.
  \<^item> Memory effects of data races: the source protects what it shares by mutexes, atomics and channels, which are the steps.
\<close>

end
